(* ===== verification/Fusa_Prelude.thy ===== *)
theory Fusa_Prelude
  imports Main "HOL-Library.Word" "HOL-Library.Monad_Syntax"
begin

text \<open>
  What the component theories share: the machine types of the C sources, the
  vocabulary for memory accesses that may be undefined, and the generic lemmas on
  words, lists and options that carry the component proofs.

  A C function is a HOL function. Where the C code may access an array out of its
  bounds or fail an assertion, the function returns an \<open>option\<close> and \<open>None\<close> stands for
  that undefined (or aborted) execution, so that a theorem saying that the result is
  \<open>Some\<close> is a proof of memory safety.
\<close>

unbundle bit_operations_syntax

section \<open>Machine types\<close>

type_synonym u8 = "8 word"
type_synonym u16 = "16 word"
type_synonym u32 = "32 word"
type_synonym u64 = "64 word"

text \<open>Rewrite rules that evaluate or bound array accesses, and word-to-nat conversions.\<close>

named_theorems c_access "array accesses that stay in bounds"
named_theorems word_nat "word arithmetic read as natural numbers"

text \<open>
  Return codes: \<open>Success\<close> is the value 0, the others are the error numbers the modelled
  functions return or store in \<open>errno\<close>.
\<close>

datatype errno = Success | EINVAL | ENOMEM | ENOSPC

section \<open>Arrays and assertions\<close>

definition arr_get :: "'a list \<Rightarrow> nat \<Rightarrow> 'a option" where
  "arr_get xs i = (if i < length xs then Some (xs ! i) else None)"

definition arr_upd :: "'a list \<Rightarrow> nat \<Rightarrow> ('a \<Rightarrow> 'a) \<Rightarrow> 'a list option" where
  "arr_upd xs i f = (if i < length xs then Some (xs[i := f (xs ! i)]) else None)"

abbreviation arr_set :: "'a list \<Rightarrow> nat \<Rightarrow> 'a \<Rightarrow> 'a list option" where
  "arr_set xs i v \<equiv> arr_upd xs i (\<lambda>_. v)"

definition c_assert :: "bool \<Rightarrow> unit option" where
  "c_assert p = (if p then Some () else None)"

lemma arr_get_Some [c_access]: "i < length xs \<Longrightarrow> arr_get xs i = Some (xs ! i)"
  by (simp add: arr_get_def)

lemma arr_upd_Some [c_access]: "i < length xs \<Longrightarrow> arr_upd xs i f = Some (xs[i := f (xs ! i)])"
  by (simp add: arr_upd_def)

lemma c_assert_True [simp]: "p \<Longrightarrow> c_assert p = Some ()"
  by (simp add: c_assert_def)

lemma arr_get_eq_Some_iff: "arr_get xs i = Some v \<longleftrightarrow> i < length xs \<and> v = xs ! i"
  by (auto simp: arr_get_def)

lemma arr_upd_eq_Some_iff:
  "arr_upd xs i f = Some ys \<longleftrightarrow> i < length xs \<and> ys = xs[i := f (xs ! i)]"
  by (auto simp: arr_upd_def)

lemma c_assert_eq_Some_iff [simp]: "c_assert p = Some u \<longleftrightarrow> p"
  by (simp add: c_assert_def)

section \<open>Counting loops\<close>

text \<open>\<open>for (i = lo; i < hi; i++) body\<close>, with the variables the body changes as the state.\<close>

function for_loop :: "nat \<Rightarrow> nat \<Rightarrow> (nat \<Rightarrow> 's \<Rightarrow> 's option) \<Rightarrow> 's \<Rightarrow> 's option" where
  "for_loop lo hi f s = (if lo < hi then Option.bind (f lo s) (for_loop (Suc lo) hi f) else Some s)"
  by pat_completeness auto
termination by (relation "measure (\<lambda>(lo, hi, _). hi - lo)") auto

declare for_loop.simps [simp del]

lemma for_loop_inv:
  assumes "lo \<le> hi" "I lo s"
    "\<And>i s. lo \<le> i \<Longrightarrow> i < hi \<Longrightarrow> I i s \<Longrightarrow> \<exists>s'. f i s = Some s' \<and> I (Suc i) s'"
  shows "\<exists>s'. for_loop lo hi f s = Some s' \<and> I hi s'"
  using assms
proof (induction "hi - lo" arbitrary: lo s)
  case 0
  then have "lo = hi" by simp
  with 0(3) show ?case by (simp add: for_loop.simps)
next
  case (Suc n)
  then obtain s1 where s1: "f lo s = Some s1" "I (Suc lo) s1" by force
  have "\<exists>s'. for_loop (Suc lo) hi f s1 = Some s' \<and> I hi s'"
    by (rule Suc.hyps(1)) (use Suc s1 in auto)
  moreover have "lo < hi" using Suc.hyps(2) by simp
  ultimately show ?case using s1(1) by (simp add: for_loop.simps [of lo])
qed

lemma for_loop_invE:
  assumes "for_loop lo hi f s = Some s'" "lo \<le> hi" "I lo s"
    "\<And>i s s'. lo \<le> i \<Longrightarrow> i < hi \<Longrightarrow> I i s \<Longrightarrow> f i s = Some s' \<Longrightarrow> I (Suc i) s'"
  shows "I hi s'"
  using assms
proof (induction "hi - lo" arbitrary: lo s)
  case 0
  then have "lo = hi" by simp
  with 0(2,4) show ?case by (simp add: for_loop.simps)
next
  case (Suc n)
  have lt: "lo < hi" using Suc.hyps(2) by simp
  with Suc.prems(1) obtain s1 where s1: "f lo s = Some s1" "for_loop (Suc lo) hi f s1 = Some s'"
    by (simp add: for_loop.simps [of lo] bind_eq_Some_conv) blast
  show ?case by (rule Suc.hyps(1) [OF _ s1(2)]) (use Suc lt s1 in auto)
qed

section \<open>Words as natural numbers\<close>

lemma unat_div64 [word_nat]: "unat ((n::u64) div 64) = unat n div 64"
  by (simp add: unat_div)

lemma unat_mod64 [word_nat]: "unat ((n::u64) mod 64) = unat n mod 64"
  by (simp add: unat_mod)

lemma unat_lt_2p64: "unat (n::u64) < 2 ^ 64"
  using unsigned_less [of n, where ?'a = nat] by simp

lemma unat_add_no_wrap [word_nat]:
  "unat (a::u64) + unat b < 2 ^ 64 \<Longrightarrow> unat (a + b) = unat a + unat b"
  by (simp add: unat_word_ariths)

lemma unat_sub_no_wrap [word_nat]: "(b::'a::len word) \<le> a \<Longrightarrow> unat (a - b) = unat a - unat b"
  by (rule unat_sub)

lemma unat_Suc_no_wrap [word_nat]: "(a::u64) < b \<Longrightarrow> unat (a + 1) = Suc (unat a)"
proof -
  assume "a < b"
  then have "unat a < unat b" by (simp add: word_less_nat_alt)
  then have "unat a + unat (1::u64) < 2 ^ 64"
    using unat_lt_2p64 [of b] by simp
  then show ?thesis by (simp add: unat_word_ariths)
qed

section \<open>Single bits of 64-bit words\<close>

lemma bit_u64_lt: "bit (w::u64) i \<Longrightarrow> i < 64"
  using bit_imp_le_length by force

lemma bit_exp_u64 [simp]: "bit ((2::u64) ^ n) k \<longleftrightarrow> k = n \<and> n < 64"
  by (auto simp: bit_exp_iff)

lemma and_exp_u64: "w AND 2 ^ n = 0 \<longleftrightarrow> \<not> bit w n" for w :: u64
proof
  assume "w AND 2 ^ n = 0"
  then have "\<not> bit (w AND 2 ^ n) n" by simp
  then show "\<not> bit w n" by (auto simp: bit_and_iff dest: bit_u64_lt)
next
  assume "\<not> bit w n"
  then show "w AND 2 ^ n = 0" by (intro bit_word_eqI) (auto simp: bit_and_iff)
qed

lemma div_mod_64_eq: "i div 64 = j div 64 \<Longrightarrow> i mod 64 = j mod 64 \<Longrightarrow> i = (j::nat)"
  by (metis div_mult_mod_eq)

text \<open>Membership in an interval of bit numbers, by word index and offset in the word.\<close>

lemma region_iff:
  fixes s e j :: nat
  assumes "s < e"
  shows "s \<le> j \<and> j < e \<longleftrightarrow>
    s div 64 \<le> j div 64 \<and> j div 64 \<le> (e - 1) div 64 \<and>
    (j div 64 = s div 64 \<longrightarrow> s mod 64 \<le> j mod 64) \<and>
    (j div 64 = (e - 1) div 64 \<longrightarrow> e mod 64 = 0 \<or> j mod 64 < e mod 64)"
proof -
  define q m a b c d where qm: "q = j div 64" "m = j mod 64" and ab: "a = s div 64" "b = s mod 64"
    and cd: "c = e div 64" "d = e mod 64"
  have eqs: "j = 64 * q + m" "s = 64 * a + b" "e = 64 * c + d" "m < 64" "b < 64" "d < 64"
    unfolding qm ab cd by simp_all
  have li: "(e - 1) div 64 = (if d = 0 then c - 1 else c)"
  proof (cases d)
    case 0
    then have "e - 1 = 64 * (c - 1) + 63" using eqs assms by (cases c) auto
    then show ?thesis using 0 by simp
  next
    case (Suc d')
    then have "e - 1 = 64 * c + d'" "d' < 64" using eqs by auto
    then show ?thesis using Suc by simp
  qed
  show ?thesis
    unfolding qm [symmetric] ab [symmetric] cd [symmetric] li using assms eqs by (auto; arith)
qed

section \<open>Find first set bit (ffsl of the C library)\<close>

text \<open>\<open>ffsl w\<close> is one plus the position of the least significant set bit, 0 for 0.\<close>

definition ffsl :: "u64 \<Rightarrow> nat" where
  "ffsl w = (case List.find (bit w) [0..<64] of None \<Rightarrow> 0 | Some i \<Rightarrow> Suc i)"

lemma ffsl_eq_0_iff: "ffsl w = 0 \<longleftrightarrow> w = 0"
proof
  assume "ffsl w = 0"
  then have "\<forall>i<64. \<not> bit w i"
    by (auto simp: ffsl_def find_None_iff split: option.splits)
  then show "w = 0" by (auto intro: bit_word_eqI)
next
  assume "w = 0"
  then have "List.find (bit w) [0..<64] = None"
    unfolding find_None_iff by simp
  then show "ffsl w = 0" by (simp add: ffsl_def)
qed

lemma ffsl_SucD:
  assumes "ffsl w = Suc i"
  shows "i < 64" "bit w i" "\<And>j. j < i \<Longrightarrow> \<not> bit w j"
  using assms by (auto simp: ffsl_def find_Some_iff split: option.splits)

lemma bit_ff: "bit (0xff :: u32) j \<longleftrightarrow> j < 8"
proof -
  have "(0xff :: u32) = mask 8" by (simp add: mask_eq_exp_minus_1)
  then show ?thesis by (simp only: bit_mask_iff) auto
qed

end
