(* ===== verification/Bitmap.thy ===== *)
theory Bitmap
  imports Fusa_Prelude
begin

text \<open>
  The bitmaps of \<^verbatim>\<open>util/bitmap.h\<close> and \<^verbatim>\<open>util/bitmap.c\<close>: an array of
  64-bit words in which bit \<open>i\<close> of the map is bit \<open>i mod 64\<close> of word \<open>i div 64\<close>. An
  operation is \<open>None\<close> where the C code would read or write a word outside the array or
  fail its assertion. The lemmas relate every operation to the set \<open>bits_of\<close> of set bits,
  and the locale \<open>bit_store\<close> is the interface the allocators built on bitmaps rely on.
\<close>

section \<open>The operations\<close>

definition BITS_PER_LONG :: u64 where
  "BITS_PER_LONG = 64"

definition BITS_TO_LONGS :: "u64 \<Rightarrow> u64" where
  "BITS_TO_LONGS nr = (nr + BITS_PER_LONG - 1) div BITS_PER_LONG"

definition BMP_WORD_INDEX :: "u64 \<Rightarrow> u64" where
  "BMP_WORD_INDEX n = n div BITS_PER_LONG"

definition BMP_WORD_OFFSET :: "u64 \<Rightarrow> u64" where
  "BMP_WORD_OFFSET n = n mod BITS_PER_LONG"

definition BMP_FIRST_WORD_MASK :: "u64 \<Rightarrow> u64" where
  "BMP_FIRST_WORD_MASK start = push_bit (unat (BMP_WORD_OFFSET start)) (NOT 0)"

definition BMP_LAST_WORD_MASK :: "u64 \<Rightarrow> u64" where
  "BMP_LAST_WORD_MASK end =
     (if BMP_WORD_OFFSET end = 0 then NOT 0 else NOT (BMP_FIRST_WORD_MASK end))"

text \<open>
  The loop of \<open>bitmap_find_first_bit\<close>: its list argument is the array from word
  \<open>curr_idx\<close> on, so that \<open>curr_idx++\<close> is the step to the tail and reading past the
  array is the empty list.
\<close>

fun find_first_loop :: "u64 list \<Rightarrow> u64 \<Rightarrow> u64 \<Rightarrow> u64 \<Rightarrow> u64 option" where
  "find_first_loop [] start end curr_offset = (if start < end then None else Some end)"
| "find_first_loop (w # ws) start end curr_offset =
     (if start < end then
        let b = of_nat (ffsl (drop_bit (unat curr_offset) w)) in
        if b \<noteq> 0 then Some (min end (start + b - 1))
        else find_first_loop ws (start + (BITS_PER_LONG - curr_offset)) end 0
      else Some end)"

definition bitmap_find_first_bit :: "u64 list \<Rightarrow> u64 \<Rightarrow> u64 \<Rightarrow> u64 option" where
  "bitmap_find_first_bit bmp start end = do {
     let curr_offset = BMP_WORD_OFFSET start;
     let curr_idx = BMP_WORD_INDEX start;
     c_assert (start \<le> end);
     find_first_loop (drop (unat curr_idx) bmp) start end curr_offset
   }"

text \<open>
  The loop \<open>for (curr_idx++; curr_idx < last_idx; curr_idx++) bmp[curr_idx] = v\<close> of the
  two region operations; it returns the index it stops at.
\<close>

function store_words :: "u64 \<Rightarrow> nat \<Rightarrow> nat \<Rightarrow> u64 list \<Rightarrow> (nat \<times> u64 list) option" where
  "store_words v i stop bmp =
     (if i < stop then
        case arr_set bmp i v of None \<Rightarrow> None | Some bmp' \<Rightarrow> store_words v (Suc i) stop bmp'
      else Some (i, bmp))"
  by pat_completeness auto
termination
  by (relation "measure (\<lambda>(v, i, stop, bmp). stop - i)") auto

declare store_words.simps [simp del]

definition bitmap_zero_region :: "u64 list \<Rightarrow> u64 \<Rightarrow> u64 \<Rightarrow> u64 list option" where
  "bitmap_zero_region bmp start end = do {
     let curr_idx = unat (BMP_WORD_INDEX start);
     let last_idx = unat (BMP_WORD_INDEX (end - 1));
     c_assert (start \<le> end);
     if end \<le> start then Some bmp
     else do {
       let start_mask = BMP_FIRST_WORD_MASK start;
       let last_mask = BMP_LAST_WORD_MASK end;
       if curr_idx = last_idx
       then arr_upd bmp curr_idx (\<lambda>w. w AND NOT (start_mask AND last_mask))
       else do {
         bmp \<leftarrow> arr_upd bmp curr_idx (\<lambda>w. w AND NOT start_mask);
         (curr_idx, bmp) \<leftarrow> store_words 0 (Suc curr_idx) last_idx bmp;
         arr_upd bmp curr_idx (\<lambda>w. w AND NOT last_mask)
       }
     }
   }"

definition bitmap_fill_region :: "u64 list \<Rightarrow> u64 \<Rightarrow> u64 \<Rightarrow> u64 list option" where
  "bitmap_fill_region bmp start end = do {
     let curr_idx = unat (BMP_WORD_INDEX start);
     let last_idx = unat (BMP_WORD_INDEX (end - 1));
     c_assert (start \<le> end);
     if end \<le> start then Some bmp
     else do {
       let start_mask = BMP_FIRST_WORD_MASK start;
       let last_mask = BMP_LAST_WORD_MASK end;
       if curr_idx = last_idx
       then arr_upd bmp curr_idx (\<lambda>w. w OR (start_mask AND last_mask))
       else do {
         bmp \<leftarrow> arr_upd bmp curr_idx (\<lambda>w. w OR start_mask);
         (curr_idx, bmp) \<leftarrow> store_words (NOT 0) (Suc curr_idx) last_idx bmp;
         arr_upd bmp curr_idx (\<lambda>w. w OR last_mask)
       }
     }
   }"

text \<open>
  The loop that returns false at the first word that differs from \<open>v\<close>, shared by
  \<open>bitmap_is_free_region\<close>, \<open>bitmap_empty\<close> and \<open>bitmap_full\<close>: \<open>Inl\<close> is the \<open>return false\<close>,
  \<open>Inr\<close> the index after the loop.
\<close>

function words_all :: "u64 \<Rightarrow> u64 list \<Rightarrow> nat \<Rightarrow> nat \<Rightarrow> (bool + nat) option" where
  "words_all v bmp i stop =
     (if i < stop then
        case arr_get bmp i of
          None \<Rightarrow> None
        | Some w \<Rightarrow> if w \<noteq> v then Some (Inl False) else words_all v bmp (Suc i) stop
      else Some (Inr i))"
  by pat_completeness auto
termination
  by (relation "measure (\<lambda>(v, bmp, i, stop). stop - i)") auto

declare words_all.simps [simp del]

definition bitmap_is_free_region :: "u64 list \<Rightarrow> u64 \<Rightarrow> u64 \<Rightarrow> bool option" where
  "bitmap_is_free_region bmp start region_size = do {
     let curr_idx = unat (BMP_WORD_INDEX start);
     let start_mask = BMP_FIRST_WORD_MASK start;
     let last_idx = unat (BMP_WORD_INDEX (start + region_size - 1));
     let last_mask = BMP_LAST_WORD_MASK (start + region_size);
     w \<leftarrow> arr_get bmp curr_idx;
     if curr_idx = last_idx then Some (w AND start_mask AND last_mask = 0)
     else if w AND start_mask \<noteq> 0 then Some False
     else do {
       r \<leftarrow> words_all 0 bmp (Suc curr_idx) last_idx;
       case r of
         Inl b \<Rightarrow> Some b
       | Inr curr_idx \<Rightarrow> do {
           w \<leftarrow> arr_get bmp curr_idx;
           Some (w AND last_mask = 0)
         }
     }
   }"

definition bitmap_set_bit :: "u64 list \<Rightarrow> u64 \<Rightarrow> u64 list option" where
  "bitmap_set_bit bmp idx =
     arr_upd bmp (unat (idx div BITS_PER_LONG)) (\<lambda>w. w OR push_bit (unat (idx mod BITS_PER_LONG)) 1)"

definition bitmap_clear_bit :: "u64 list \<Rightarrow> u64 \<Rightarrow> u64 list option" where
  "bitmap_clear_bit bmp idx =
     arr_upd bmp (unat (idx div BITS_PER_LONG))
       (\<lambda>w. w AND NOT (push_bit (unat (idx mod BITS_PER_LONG)) 1))"

definition bitmap_test_bit :: "u64 list \<Rightarrow> u64 \<Rightarrow> bool option" where
  "bitmap_test_bit bmp idx = do {
     w \<leftarrow> arr_get bmp (unat (idx div BITS_PER_LONG));
     Some (w AND push_bit (unat (idx mod BITS_PER_LONG)) 1 \<noteq> 0)
   }"

text \<open>The scan of \<open>bitmap_find_free_region\<close> from \<open>start\<close>; not returning is \<open>None\<close>.\<close>

partial_function (option) find_free_loop :: "u64 list \<Rightarrow> u64 \<Rightarrow> u64 \<Rightarrow> u64 \<Rightarrow> u64 option" where
  "find_free_loop bmp nbits region_size start =
     (if start + region_size \<le> nbits then do {
        t \<leftarrow> bitmap_test_bit bmp start;
        if t then find_free_loop bmp nbits region_size (start + 1)
        else do {
          f \<leftarrow> bitmap_is_free_region bmp start region_size;
          if f then Some start
          else find_free_loop bmp nbits region_size (start + 1)
        }
      }
      else Some nbits)"

definition bitmap_find_free_region :: "u64 list \<Rightarrow> u64 \<Rightarrow> u64 \<Rightarrow> u64 option" where
  "bitmap_find_free_region bmp nbits region_size =
     (if region_size = 0 then Some 0 else find_free_loop bmp nbits region_size 0)"

text \<open>\<open>memset\<close> over the words of the map.\<close>

definition bitmap_fill :: "u64 list \<Rightarrow> u64 \<Rightarrow> u64 list option" where
  "bitmap_fill bmp nbits = map_option snd (store_words (NOT 0) 0 (unat (BITS_TO_LONGS nbits)) bmp)"

definition bitmap_zero :: "u64 list \<Rightarrow> u64 \<Rightarrow> u64 list option" where
  "bitmap_zero bmp nbits = map_option snd (store_words 0 0 (unat (BITS_TO_LONGS nbits)) bmp)"

definition last_long_mask :: "u64 \<Rightarrow> u64" where
  "last_long_mask nbits =
     (if nbits mod BITS_PER_LONG \<noteq> 0 then push_bit (unat (nbits mod BITS_PER_LONG)) 1 - 1
      else NOT 0)"

definition bitmap_empty :: "u64 list \<Rightarrow> u64 \<Rightarrow> bool option" where
  "bitmap_empty bmp nbits = do {
     c_assert (nbits \<noteq> 0);
     r \<leftarrow> words_all 0 bmp 0 (unat (BITS_TO_LONGS nbits - 1));
     case r of
       Inl b \<Rightarrow> Some b
     | Inr i \<Rightarrow> do {
         w \<leftarrow> arr_get bmp i;
         Some (w AND last_long_mask nbits = 0)
       }
   }"

definition bitmap_full :: "u64 list \<Rightarrow> u64 \<Rightarrow> bool option" where
  "bitmap_full bmp nbits = do {
     c_assert (nbits \<noteq> 0);
     r \<leftarrow> words_all (- 1) bmp 0 (unat (BITS_TO_LONGS nbits - 1));
     case r of
       Inl b \<Rightarrow> Some b
     | Inr i \<Rightarrow> do {
         w \<leftarrow> arr_get bmp i;
         Some ((w AND last_long_mask nbits) XOR last_long_mask nbits = 0)
       }
   }"

text \<open>
  Allocation takes the answer of \<open>calloc\<close> as an argument (\<open>False\<close>: no memory); the result
  \<open>None\<close> of \<open>bitmap_alloc0\<close>, and the inner \<open>None\<close> of \<open>bitmap_alloc1\<close>, is the null pointer.
\<close>

definition bitmap_alloc0 :: "bool \<Rightarrow> u64 \<Rightarrow> u64 list option" where
  "bitmap_alloc0 calloc_ok nbits =
     (if calloc_ok then Some (replicate (unat (BITS_TO_LONGS nbits)) 0) else None)"

definition bitmap_alloc1 :: "bool \<Rightarrow> u64 \<Rightarrow> u64 list option option" where
  "bitmap_alloc1 calloc_ok nbits =
     (case bitmap_alloc0 calloc_ok nbits of
        None \<Rightarrow> Some None
      | Some bmp \<Rightarrow> map_option Some (bitmap_fill bmp nbits))"

section \<open>The set of bits\<close>

definition bits_of :: "u64 list \<Rightarrow> nat set" where
  "bits_of bmp = {i. i div 64 < length bmp \<and> bit (bmp ! (i div 64)) (i mod 64)}"

lemma in_bits_of_iff: "i \<in> bits_of bmp \<longleftrightarrow> i div 64 < length bmp \<and> bit (bmp ! (i div 64)) (i mod 64)"
  by (simp add: bits_of_def)

lemma bits_of_lt: "i \<in> bits_of bmp \<Longrightarrow> i < 64 * length bmp"
  by (auto simp: in_bits_of_iff)

lemma bits_of_Cons: "i \<in> bits_of (w # ws) \<longleftrightarrow> (if i < 64 then bit w i else i - 64 \<in> bits_of ws)"
proof (cases "i < 64")
  case False
  then obtain j where "i = 64 + j"
    using le_Suc_ex not_less by blast
  moreover have "(64 + j) div 64 = Suc (j div 64)"
    using div_add_self1 [of 64 j] by simp
  ultimately show ?thesis by (simp add: in_bits_of_iff)
qed (simp add: in_bits_of_iff)

lemma bits_of_drop: "i \<in> bits_of (drop k bmp) \<longleftrightarrow> i + 64 * k \<in> bits_of bmp"
  by (auto simp: in_bits_of_iff algebra_simps)

lemma bits_of_upd:
  "k < length bmp \<Longrightarrow>
   i \<in> bits_of (bmp[k := w]) \<longleftrightarrow> (if i div 64 = k then bit w (i mod 64) else i \<in> bits_of bmp)"
  by (auto simp: in_bits_of_iff)

lemma bits_of_replicate_0: "bits_of (replicate n 0) = {}"
  by (auto simp: bits_of_def)

lemmas bmp_defs = BITS_PER_LONG_def BMP_WORD_INDEX_def BMP_WORD_OFFSET_def

section \<open>Single bits\<close>

lemma bitmap_test_bit_eq:
  assumes "unat i < 64 * length bmp"
  shows "bitmap_test_bit bmp i = Some (unat i \<in> bits_of bmp)"
proof -
  have "unat i div 64 < length bmp" using assms by (simp add: less_mult_imp_div_less mult.commute)
  then show ?thesis
    by (simp add: bitmap_test_bit_def bmp_defs word_nat c_access in_bits_of_iff and_exp_u64)
qed

lemma bitmap_set_bit_bits:
  assumes "unat i < 64 * length bmp"
  obtains bmp' where "bitmap_set_bit bmp i = Some bmp'" "length bmp' = length bmp"
    "bits_of bmp' = insert (unat i) (bits_of bmp)"
proof -
  have lt: "unat i div 64 < length bmp" using assms by (simp add: less_mult_imp_div_less mult.commute)
  let ?b = "bmp[unat i div 64 := bmp ! (unat i div 64) OR push_bit (unat i mod 64) 1]"
  have "bits_of ?b = insert (unat i) (bits_of bmp)"
    using lt by (auto simp: in_bits_of_iff nth_list_update bit_or_iff intro: div_mod_64_eq split: if_splits)
  then show thesis
    using that [of ?b] lt by (simp add: bitmap_set_bit_def bmp_defs word_nat c_access)
qed

lemma bitmap_clear_bit_bits:
  assumes "unat i < 64 * length bmp"
  obtains bmp' where "bitmap_clear_bit bmp i = Some bmp'" "length bmp' = length bmp"
    "bits_of bmp' = bits_of bmp - {unat i}"
proof -
  have lt: "unat i div 64 < length bmp" using assms by (simp add: less_mult_imp_div_less mult.commute)
  let ?b = "bmp[unat i div 64 := bmp ! (unat i div 64) AND NOT (push_bit (unat i mod 64) 1)]"
  have "bits_of ?b = bits_of bmp - {unat i}"
    using lt
    by (auto simp: in_bits_of_iff nth_list_update bit_and_iff bit_not_iff intro: div_mod_64_eq
        split: if_splits)
  then show thesis
    using that [of ?b] lt by (simp add: bitmap_clear_bit_def bmp_defs word_nat c_access)
qed

section \<open>Finding the first set bit\<close>

lemma find_first_loop_spec:
  assumes "unat off < 64" "unat start = base + unat off" "unat e \<le> base + 64 * length ws"
    "base + 64 * length ws < 2 ^ 64"
  shows "\<exists>r. find_first_loop ws start e off = Some r \<and> unat r \<le> unat e \<and>
    (\<forall>j. unat off \<le> j \<and> base + j < unat r \<longrightarrow> j \<notin> bits_of ws) \<and>
    (unat r < unat e \<longrightarrow> unat start \<le> unat r \<and> unat r - base \<in> bits_of ws)"
  using assms
proof (induction ws arbitrary: start off base)
  case Nil
  then show ?case by (auto simp: word_less_nat_alt in_bits_of_iff)
next
  case (Cons w ws)
  show ?case
  proof (cases "start < e")
    case False
    with Cons.prems show ?thesis
      by (auto simp: word_less_nat_alt intro!: exI [of _ e])
  next
    case True
    let ?d = "drop_bit (unat off) w"
    show ?thesis
    proof (cases "ffsl ?d")
      case 0
      then have d: "?d = 0" by (simp only: ffsl_eq_0_iff)
      have clear: "\<not> bit w k" if "unat off \<le> k" for k
      proof -
        have "bit w k = bit ?d (k - unat off)" using that by (simp add: bit_drop_bit_eq)
        then show ?thesis by (simp add: d)
      qed
      have start': "unat (start + (BITS_PER_LONG - off)) = base + 64 + unat (0::u64)"
      proof -
        have "unat (BITS_PER_LONG - off) = 64 - unat off"
          using Cons.prems(1) by (simp add: BITS_PER_LONG_def word_nat word_le_nat_alt)
        with Cons.prems show ?thesis by (simp add: word_nat)
      qed
      obtain r where r: "find_first_loop ws (start + (BITS_PER_LONG - off)) e 0 = Some r"
        "unat r \<le> unat e" "\<forall>j. base + 64 + j < unat r \<longrightarrow> j \<notin> bits_of ws"
        "unat r < unat e \<longrightarrow> base + 64 \<le> unat r \<and> unat r - (base + 64) \<in> bits_of ws"
        using Cons.IH [OF _ start'] Cons.prems start' by auto
      have "find_first_loop (w # ws) start e off = Some r"
        using True 0 r(1) by simp
      moreover have "j \<notin> bits_of (w # ws)" if "unat off \<le> j" "base + j < unat r" for j
        using clear [of j] r(3) [rule_format, of "j - 64"] that by (auto simp: bits_of_Cons)
      moreover have "unat start \<le> unat r \<and> unat r - base \<in> bits_of (w # ws)" if "unat r < unat e"
        using r(4) that Cons.prems by (auto simp: bits_of_Cons)
      ultimately show ?thesis using r(2) by blast
    next
      case (Suc k)
      note k = ffsl_SucD [OF Suc]
      have kw: "bit w (unat off + k)" and klt: "unat off + k < 64"
        using k(2) bit_u64_lt [of w "unat off + k"] by (simp_all add: bit_drop_bit_eq)
      have b: "unat (of_nat (ffsl ?d) :: u64) = Suc k"
        unfolding Suc unat_of_nat using k(1) by simp
      then have "(of_nat (ffsl ?d) :: u64) \<noteq> 0" by auto
      moreover have pos: "unat (start + of_nat (ffsl ?d) - 1) = base + unat off + k"
      proof -
        have eq: "start + of_nat (ffsl ?d) - 1 = start + of_nat k" by (simp add: Suc)
        have "unat (of_nat k :: u64) = k" using k(1) by (simp add: unat_of_nat)
        then have "unat (start + of_nat k) = base + unat off + k"
          using Cons.prems klt by (simp add: word_nat)
        then show ?thesis by (simp only: eq)
      qed
      ultimately have res: "find_first_loop (w # ws) start e off =
          Some (min e (start + of_nat (ffsl ?d) - 1))"
        using True by simp
      have below: "j \<notin> bits_of (w # ws)" if "unat off \<le> j" "j < unat off + k" for j
        using k(3) [of "j - unat off"] that klt by (auto simp: bits_of_Cons bit_drop_bit_eq)
      have at: "unat off + k \<in> bits_of (w # ws)"
        using kw klt by (simp add: bits_of_Cons)
      show ?thesis
      proof (cases "e \<le> start + of_nat (ffsl ?d) - 1")
        case True
        then show ?thesis
          using res pos below by (auto simp: min_def word_le_nat_alt)
      next
        case False
        then show ?thesis
          using res pos below at Cons.prems
          by (auto simp: min_def word_le_nat_alt add.assoc)
      qed
    qed
  qed
qed

lemma bitmap_find_first_bit_spec:
  assumes "unat s \<le> unat e" "unat e \<le> 64 * length bmp" "64 * length bmp < 2 ^ 64"
  shows "\<exists>r. bitmap_find_first_bit bmp s e = Some r \<and> unat s \<le> unat r \<and> unat r \<le> unat e \<and>
    (\<forall>j. unat s \<le> j \<and> j < unat r \<longrightarrow> j \<notin> bits_of bmp) \<and>
    (unat r < unat e \<longrightarrow> unat r \<in> bits_of bmp)"
proof -
  let ?k = "unat s div 64" let ?ws = "drop ?k bmp"
  have s: "unat s = 64 * ?k + unat (BMP_WORD_OFFSET s)"
    by (simp add: bmp_defs word_nat)
  have len: "64 * ?k + 64 * length ?ws = 64 * length bmp"
    using assms by auto
  have off: "unat (BMP_WORD_OFFSET s) < 64" by (simp add: bmp_defs word_nat)
  obtain r where r: "find_first_loop ?ws s e (BMP_WORD_OFFSET s) = Some r" "unat r \<le> unat e"
    "\<forall>j. unat (BMP_WORD_OFFSET s) \<le> j \<and> 64 * ?k + j < unat r \<longrightarrow> j \<notin> bits_of ?ws"
    "unat r < unat e \<longrightarrow> unat s \<le> unat r \<and> unat r - 64 * ?k \<in> bits_of ?ws"
    using find_first_loop_spec [OF off s, of e ?ws] assms(2,3) len by auto
  have "bitmap_find_first_bit bmp s e = Some r"
    using r(1) assms(1) by (simp add: bitmap_find_first_bit_def bmp_defs word_nat word_le_nat_alt)
  moreover have "j \<notin> bits_of bmp" if "unat s \<le> j" "j < unat r" for j
  proof -
    have "64 * ?k \<le> j" using that(1) s by linarith
    moreover from this have "unat (BMP_WORD_OFFSET s) \<le> j - 64 * ?k" using that(1) s by linarith
    ultimately show ?thesis
      using r(3) [rule_format, of "j - 64 * ?k"] that(2) by (simp only: bits_of_drop) simp
  qed
  moreover have "unat r \<in> bits_of bmp" if "unat r < unat e"
  proof -
    have "64 * ?k \<le> unat r" using r(4) that s by linarith
    then show ?thesis using r(4) that by (simp only: bits_of_drop) simp
  qed
  moreover have "unat s \<le> unat r" using r(2,4) assms(1) by linarith
  ultimately show ?thesis using r(2) by blast
qed

section \<open>Regions\<close>

lemma bit_first_mask: "bit (BMP_FIRST_WORD_MASK s) k \<longleftrightarrow> unat s mod 64 \<le> k \<and> k < 64"
  by (auto simp: BMP_FIRST_WORD_MASK_def bmp_defs word_nat bit_simps)

lemma bit_last_mask:
  "bit (BMP_LAST_WORD_MASK e) k \<longleftrightarrow> k < 64 \<and> (unat e mod 64 = 0 \<or> k < unat e mod 64)"
proof -
  have "BMP_WORD_OFFSET e = 0 \<longleftrightarrow> unat e mod 64 = 0"
    by (simp add: bmp_defs flip: unat_0_iff word_nat)
  then show ?thesis
    by (auto simp: BMP_LAST_WORD_MASK_def bit_first_mask bit_not_iff)
qed

lemma store_words_Some:
  assumes "i \<le> stop" "stop \<le> length bmp"
  shows "\<exists>bmp'. store_words v i stop bmp = Some (stop, bmp') \<and> length bmp' = length bmp \<and>
    (\<forall>k < length bmp. bmp' ! k = (if i \<le> k \<and> k < stop then v else bmp ! k))"
  using assms
proof (induction v i stop bmp rule: store_words.induct)
  case (1 v i stop bmp)
  show ?case
  proof (cases "i < stop")
    case True
    with "1.prems" have "arr_set bmp i v = Some (bmp[i := v])" by (simp add: c_access)
    with "1.IH" [OF True this] "1.prems" True obtain b where
      "store_words v (Suc i) stop (bmp[i := v]) = Some (stop, b)" "length b = length bmp"
      "\<forall>k < length bmp. b ! k = (if Suc i \<le> k \<and> k < stop then v else bmp[i := v] ! k)"
      by auto
    with True "1.prems" show ?thesis
      by (subst store_words.simps) (auto simp: c_access nth_list_update)
  next
    case False
    with "1.prems" show ?thesis by (subst store_words.simps) auto
  qed
qed

text \<open>Both region operations change exactly the bits from \<open>s\<close> up to, not including, \<open>e\<close>.\<close>

lemma region_words:
  assumes "unat s < unat e" "unat e \<le> 64 * length bmp"
  shows "unat s div 64 \<le> (unat e - 1) div 64" "(unat e - 1) div 64 < length bmp"
    "unat (BMP_WORD_INDEX (e - 1)) = (unat e - 1) div 64"
    "unat (BMP_WORD_INDEX s) = unat s div 64" "s \<le> e" "\<not> e \<le> s"
proof -
  have "1 \<le> e" using assms(1) by (simp add: word_le_nat_alt)
  then show "unat (BMP_WORD_INDEX (e - 1)) = (unat e - 1) div 64"
    by (simp add: bmp_defs word_nat)
  show "unat s div 64 \<le> (unat e - 1) div 64" using assms(1) by (intro div_le_mono) simp
  show "(unat e - 1) div 64 < length bmp" using assms by (intro less_mult_imp_div_less) simp
  show "unat (BMP_WORD_INDEX s) = unat s div 64" by (simp add: bmp_defs word_nat)
qed (use assms in \<open>simp_all add: word_le_nat_alt\<close>)

text \<open>
  \<open>in_region c l sm lm q m\<close>: bit \<open>m\<close> of word \<open>q\<close> lies in the region that starts in word \<open>c\<close>
  under the mask \<open>sm\<close> and ends in word \<open>l\<close> under the mask \<open>lm\<close>.
\<close>

definition in_region :: "nat \<Rightarrow> nat \<Rightarrow> u64 \<Rightarrow> u64 \<Rightarrow> nat \<Rightarrow> nat \<Rightarrow> bool" where
  "in_region c l sm lm q m \<longleftrightarrow>
     c \<le> q \<and> q \<le> l \<and> (q = c \<longrightarrow> bit sm m) \<and> (q = l \<longrightarrow> bit lm m)"

lemma region_mem:
  assumes "unat s < unat e"
  shows "j \<in> {unat s ..< unat e} \<longleftrightarrow>
    in_region (unat s div 64) ((unat e - 1) div 64) (BMP_FIRST_WORD_MASK s) (BMP_LAST_WORD_MASK e)
      (j div 64) (j mod 64)"
  using region_iff [OF assms, of j] by (simp add: in_region_def bit_first_mask bit_last_mask)

lemma region_in_range: "unat e \<le> 64 * length bmp \<Longrightarrow> j < unat e \<Longrightarrow> j div 64 < length bmp"
  by (simp add: less_mult_imp_div_less mult.commute)

lemma bits_of_union_region:
  assumes "length b' = length b" "\<And>q m. q < length b \<Longrightarrow> m < 64 \<Longrightarrow> bit (b' ! q) m \<longleftrightarrow> bit (b ! q) m \<or> P q m"
    "\<And>j. j \<in> R \<longleftrightarrow> P (j div 64) (j mod 64)" "\<And>j. j \<in> R \<Longrightarrow> j div 64 < length b"
  shows "bits_of b' = bits_of b \<union> R"
  using assms by (auto simp: in_bits_of_iff)

lemma bits_of_diff_region:
  assumes "length b' = length b" "\<And>q m. q < length b \<Longrightarrow> m < 64 \<Longrightarrow> bit (b' ! q) m \<longleftrightarrow> bit (b ! q) m \<and> \<not> P q m"
    "\<And>j. j \<in> R \<longleftrightarrow> P (j div 64) (j mod 64)"
  shows "bits_of b' = bits_of b - R"
  using assms by (auto simp: in_bits_of_iff)

lemma fill_one_word:
  "c < length b \<Longrightarrow> q < length b \<Longrightarrow>
   bit (b[c := b ! c OR (sm AND lm)] ! q) m \<longleftrightarrow> bit (b ! q) m \<or> in_region c c sm lm q m"
  by (auto simp: in_region_def nth_list_update bit_or_iff bit_and_iff)

lemma zero_one_word:
  assumes "c < length b" "q < length b" "m < 64"
  shows "bit (b[c := b ! c AND NOT (sm AND lm)] ! q) m \<longleftrightarrow> bit (b ! q) m \<and> \<not> in_region c c sm lm q m"
  using assms by (cases "q = c") (auto simp: in_region_def bit_not_iff bit_and_iff bit_or_iff)

lemma fill_words:
  assumes "c < l" "l < length b" "length b' = length b" "q < length b" "m < 64"
    "\<forall>k < length b. b' ! k = (if Suc c \<le> k \<and> k < l then NOT 0 else b[c := b ! c OR sm] ! k)"
  shows "bit (b'[l := b' ! l OR lm] ! q) m \<longleftrightarrow> bit (b ! q) m \<or> in_region c l sm lm q m"
proof -
  consider "q < c" | "q = c" | "c < q" "q < l" | "q = l" | "l < q" by linarith
  then show ?thesis
    by cases (use assms in \<open>auto simp: in_region_def bit_or_iff bit_not_iff\<close>)
qed

lemma zero_words:
  assumes "c < l" "l < length b" "length b' = length b" "q < length b" "m < 64"
    "\<forall>k < length b. b' ! k = (if Suc c \<le> k \<and> k < l then 0 else b[c := b ! c AND NOT sm] ! k)"
  shows "bit (b'[l := b' ! l AND NOT lm] ! q) m \<longleftrightarrow> bit (b ! q) m \<and> \<not> in_region c l sm lm q m"
proof -
  consider "q < c" | "q = c" | "c < q" "q < l" | "q = l" | "l < q" by linarith
  then show ?thesis
    by cases (use assms in \<open>auto simp: in_region_def bit_and_iff bit_not_iff\<close>)
qed

lemma bitmap_fill_region_spec:
  assumes "unat s \<le> unat e" "unat e \<le> 64 * length bmp"
  shows "\<exists>bmp'. bitmap_fill_region bmp s e = Some bmp' \<and> length bmp' = length bmp \<and>
    bits_of bmp' = bits_of bmp \<union> {unat s ..< unat e}"
proof (cases "unat s < unat e")
  case False
  with assms show ?thesis by (auto simp: bitmap_fill_region_def word_le_nat_alt)
next
  case True
  define c l where cl: "c = unat s div 64" "l = (unat e - 1) div 64"
  note r = region_words [OF True assms(2), folded cl]
  note mem = region_mem [OF True, folded cl]
  have range: "j div 64 < length bmp" if "j \<in> {unat s ..< unat e}" for j
    using region_in_range [OF assms(2)] that by simp
  show ?thesis
  proof (cases "c = l")
    case eq: True
    have "bits_of (bmp[c := bmp ! c OR (BMP_FIRST_WORD_MASK s AND BMP_LAST_WORD_MASK e)]) =
        bits_of bmp \<union> {unat s ..< unat e}"
      by (rule bits_of_union_region [OF _ fill_one_word mem [folded eq] range]) (use r eq in auto)
    with r eq show ?thesis by (simp add: bitmap_fill_region_def c_access Let_def)
  next
    case False
    with r(1) have lt: "c < l" by simp
    from store_words_Some [of "Suc c" l "bmp[c := bmp ! c OR BMP_FIRST_WORD_MASK s]" "NOT 0"] r lt
    obtain b where b: "store_words (NOT 0) (Suc c) l (bmp[c := bmp ! c OR BMP_FIRST_WORD_MASK s]) = Some (l, b)"
      "length b = length bmp"
      "\<forall>k < length bmp. b ! k =
         (if Suc c \<le> k \<and> k < l then NOT 0 else bmp[c := bmp ! c OR BMP_FIRST_WORD_MASK s] ! k)"
      by auto
    have "bits_of (b[l := b ! l OR BMP_LAST_WORD_MASK e]) = bits_of bmp \<union> {unat s ..< unat e}"
      by (rule bits_of_union_region [OF _ fill_words [OF lt r(2) b(2) _ _ b(3)] mem range])
        (use b(2) in simp_all)
    with r lt b(1,2) show ?thesis by (simp add: bitmap_fill_region_def c_access Let_def)
  qed
qed

lemma bitmap_zero_region_spec:
  assumes "unat s \<le> unat e" "unat e \<le> 64 * length bmp"
  shows "\<exists>bmp'. bitmap_zero_region bmp s e = Some bmp' \<and> length bmp' = length bmp \<and>
    bits_of bmp' = bits_of bmp - {unat s ..< unat e}"
proof (cases "unat s < unat e")
  case False
  with assms show ?thesis by (auto simp: bitmap_zero_region_def word_le_nat_alt)
next
  case True
  define c l where cl: "c = unat s div 64" "l = (unat e - 1) div 64"
  note r = region_words [OF True assms(2), folded cl]
  note mem = region_mem [OF True, folded cl]
  show ?thesis
  proof (cases "c = l")
    case eq: True
    have "bits_of (bmp[c := bmp ! c AND NOT (BMP_FIRST_WORD_MASK s AND BMP_LAST_WORD_MASK e)]) =
        bits_of bmp - {unat s ..< unat e}"
      by (rule bits_of_diff_region [OF _ zero_one_word mem [folded eq]]) (use r eq in auto)
    with r eq show ?thesis by (simp add: bitmap_zero_region_def c_access Let_def)
  next
    case False
    with r(1) have lt: "c < l" by simp
    from store_words_Some [of "Suc c" l "bmp[c := bmp ! c AND NOT (BMP_FIRST_WORD_MASK s)]" 0] r lt
    obtain b where b: "store_words 0 (Suc c) l (bmp[c := bmp ! c AND NOT (BMP_FIRST_WORD_MASK s)]) = Some (l, b)"
      "length b = length bmp"
      "\<forall>k < length bmp. b ! k =
         (if Suc c \<le> k \<and> k < l then 0 else bmp[c := bmp ! c AND NOT (BMP_FIRST_WORD_MASK s)] ! k)"
      by auto
    have "bits_of (b[l := b ! l AND NOT (BMP_LAST_WORD_MASK e)]) = bits_of bmp - {unat s ..< unat e}"
      by (rule bits_of_diff_region [OF _ zero_words [OF lt r(2) b(2) _ _ b(3)] mem])
        (use b(2) in simp_all)
    with r lt b(1,2) show ?thesis by (simp add: bitmap_zero_region_def c_access Let_def)
  qed
qed

section \<open>Free regions\<close>

lemma words_all_Some:
  assumes "i \<le> stop" "stop \<le> length bmp"
  shows "words_all v bmp i stop =
    Some (if \<forall>k. i \<le> k \<and> k < stop \<longrightarrow> bmp ! k = v then Inr stop else Inl False)"
  using assms
proof (induction v bmp i stop rule: words_all.induct)
  case (1 v bmp i stop)
  show ?case
  proof (cases "i < stop")
    case True
    with "1.prems" have get: "arr_get bmp i = Some (bmp ! i)" by (simp add: c_access)
    have split: "(\<forall>k. i \<le> k \<and> k < stop \<longrightarrow> bmp ! k = v) \<longleftrightarrow>
        bmp ! i = v \<and> (\<forall>k. Suc i \<le> k \<and> k < stop \<longrightarrow> bmp ! k = v)"
      using True by (metis le_eq_less_or_eq Suc_le_eq)
    show ?thesis
      using "1.IH" [OF True get] "1.prems" True get split
      by (subst words_all.simps) auto
  next
    case False
    with "1.prems" show ?thesis by (subst words_all.simps) auto
  qed
qed

lemma word_eq_0_iff: "w = 0 \<longleftrightarrow> (\<forall>m < 64. \<not> bit w m)" for w :: u64
proof
  assume "\<forall>m < 64. \<not> bit w m"
  then show "w = 0" by (intro bit_word_eqI) simp
qed simp

lemma free_one_word:
  "(\<forall>q m. m < 64 \<longrightarrow> in_region c c sm lm q m \<longrightarrow> \<not> bit (b ! q) m) \<longleftrightarrow> b ! c AND sm AND lm = 0"
  unfolding word_eq_0_iff by (auto simp: in_region_def bit_and_iff)

lemma free_words:
  assumes "c < l"
  shows "(\<forall>q m. m < 64 \<longrightarrow> in_region c l sm lm q m \<longrightarrow> \<not> bit (b ! q) m) \<longleftrightarrow>
    b ! c AND sm = 0 \<and> (\<forall>k. Suc c \<le> k \<and> k < l \<longrightarrow> b ! k = 0) \<and> b ! l AND lm = 0"
proof -
  have iff: "in_region c l sm lm q m \<longleftrightarrow>
      q = c \<and> bit sm m \<or> Suc c \<le> q \<and> q < l \<or> q = l \<and> bit lm m" for q m
    using assms by (auto simp: in_region_def)
  show ?thesis unfolding iff word_eq_0_iff bit_and_iff by blast
qed

lemma region_free_iff:
  assumes "\<And>j. j \<in> R \<longleftrightarrow> P (j div 64) (j mod 64)" "\<And>q m. P q m \<Longrightarrow> q < length b"
  shows "R \<inter> bits_of b = {} \<longleftrightarrow> (\<forall>q m. m < 64 \<longrightarrow> P q m \<longrightarrow> \<not> bit (b ! q) m)"
proof
  assume dis: "R \<inter> bits_of b = {}"
  show "\<forall>q m. m < 64 \<longrightarrow> P q m \<longrightarrow> \<not> bit (b ! q) m"
  proof (intro allI impI)
    fix q m :: nat
    assume m: "m < 64" and P: "P q m"
    from m have qm: "(64 * q + m) div 64 = q" "(64 * q + m) mod 64 = m" by simp_all
    with P assms(1) have "64 * q + m \<in> R" by simp
    with dis have "64 * q + m \<notin> bits_of b" by blast
    with assms(2) [OF P] show "\<not> bit (b ! q) m" unfolding in_bits_of_iff qm by simp
  qed
next
  assume "\<forall>q m. m < 64 \<longrightarrow> P q m \<longrightarrow> \<not> bit (b ! q) m"
  then show "R \<inter> bits_of b = {}" by (auto simp: assms(1) in_bits_of_iff)
qed

lemma bitmap_is_free_region_eq:
  assumes "n \<noteq> 0" "unat s + unat n \<le> 64 * length bmp" "64 * length bmp < 2 ^ 64"
  shows "bitmap_is_free_region bmp s n = Some ({unat s ..< unat s + unat n} \<inter> bits_of bmp = {})"
proof -
  have e: "unat (s + n) = unat s + unat n" using assms by (simp add: word_nat)
  have lt: "unat s < unat (s + n)" using assms(1) e by (simp add: unat_gt_0)
  define c l where cl: "c = unat s div 64" "l = (unat (s + n) - 1) div 64"
  note r = region_words [OF lt assms(2) [folded e], folded cl]
  note mem = region_mem [OF lt, folded cl]
  have rng: "q < length bmp" if "in_region c l sm lm q m" for sm lm q m
    using that r(2) by (simp add: in_region_def)
  note free = region_free_iff [where b = bmp, OF mem rng, unfolded e]
  show ?thesis
  proof (cases "c = l")
    case True
    with r free free_one_word [of c _ _ bmp] show ?thesis
      by (simp add: bitmap_is_free_region_def c_access Let_def)
  next
    case False
    with r(1) have lt: "c < l" by simp
    with r free free_words [OF lt, of _ _ bmp] words_all_Some [of "Suc c" l bmp 0] show ?thesis
      by (simp add: bitmap_is_free_region_def c_access Let_def)
  qed
qed

definition free_at :: "u64 list \<Rightarrow> nat \<Rightarrow> nat \<Rightarrow> nat \<Rightarrow> bool" where
  "free_at bmp nbits n j \<longleftrightarrow> j + n \<le> nbits \<and> {j ..< j + n} \<inter> bits_of bmp = {}"

lemma find_free_loop_spec:
  assumes "n \<noteq> 0" "unat nbits \<le> 64 * length bmp" "64 * length bmp < 2 ^ 64"
    "unat s + unat n < 2 ^ 64"
  shows "\<exists>r. find_free_loop bmp nbits n s = Some r \<and>
    (unat s \<le> unat r \<and> free_at bmp (unat nbits) (unat n) (unat r) \<or> r = nbits) \<and>
    (\<forall>j. unat s \<le> j \<and> free_at bmp (unat nbits) (unat n) j \<longrightarrow> unat r \<le> j)"
  using assms(4)
proof (induction "2 ^ 64 - unat s" arbitrary: s rule: less_induct)
  case less
  have sn: "unat (s + n) = unat s + unat n" using less.prems by (simp add: word_nat)
  have n: "0 < unat n" using assms(1) by (simp add: unat_gt_0)
  show ?case
  proof (cases "unat s + unat n \<le> unat nbits")
    case False
    then have "find_free_loop bmp nbits n s = Some nbits"
      by (subst find_free_loop.simps) (simp add: word_le_nat_alt sn)
    with False show ?thesis by (auto simp: free_at_def)
  next
    case True
    have le: "s + n \<le> nbits" using True by (simp add: word_le_nat_alt sn)
    have test: "bitmap_test_bit bmp s = Some (unat s \<in> bits_of bmp)"
      using True n assms(2) by (intro bitmap_test_bit_eq) simp
    have free: "bitmap_is_free_region bmp s n = Some ({unat s ..< unat s + unat n} \<inter> bits_of bmp = {})"
      using True assms by (intro bitmap_is_free_region_eq) simp_all
    show ?thesis
    proof (cases "{unat s ..< unat s + unat n} \<inter> bits_of bmp = {}")
      case fr: True
      moreover have "unat s \<in> {unat s ..< unat s + unat n}" using n by simp
      ultimately have "unat s \<notin> bits_of bmp" by blast
      with test free le fr have "find_free_loop bmp nbits n s = Some s"
        by (subst find_free_loop.simps) simp
      with fr True show ?thesis by (auto simp: free_at_def)
    next
      case nf: False
      have s1: "unat (s + 1) = Suc (unat s)"
        using True n assms(2,3) by (simp add: unat_word_ariths)
      have dec: "2 ^ 64 - unat (s + 1) < 2 ^ 64 - unat s"
        using unat_lt_2p64 [of s] s1 by (intro diff_less_mono2) simp_all
      have nw: "unat (s + 1) + unat n < 2 ^ 64" using s1 True assms(2,3) by simp
      have "find_free_loop bmp nbits n s = find_free_loop bmp nbits n (s + 1)"
        using test free le nf by (subst find_free_loop.simps) simp
      moreover obtain r where r: "find_free_loop bmp nbits n (s + 1) = Some r"
        "unat (s + 1) \<le> unat r \<and> free_at bmp (unat nbits) (unat n) (unat r) \<or> r = nbits"
        "\<forall>j. unat (s + 1) \<le> j \<and> free_at bmp (unat nbits) (unat n) j \<longrightarrow> unat r \<le> j"
        using less.hyps [OF dec nw] by blast
      moreover have "\<not> free_at bmp (unat nbits) (unat n) (unat s)"
        using nf by (simp add: free_at_def)
      then have "\<forall>j. unat s \<le> j \<and> free_at bmp (unat nbits) (unat n) j \<longrightarrow> unat r \<le> j"
        using r(3) s1 by (metis Suc_leI le_eq_less_or_eq)
      ultimately show ?thesis using s1 by auto
    qed
  qed
qed

lemma bitmap_find_free_region_spec:
  assumes "n \<noteq> 0" "unat nbits \<le> 64 * length bmp" "64 * length bmp < 2 ^ 64"
  shows "\<exists>r. bitmap_find_free_region bmp nbits n = Some r \<and>
    (if \<exists>j. free_at bmp (unat nbits) (unat n) j
     then unat r = (LEAST j. free_at bmp (unat nbits) (unat n) j) else r = nbits)"
proof -
  let ?F = "free_at bmp (unat nbits) (unat n)"
  obtain r where r: "find_free_loop bmp nbits n 0 = Some r" "?F (unat r) \<or> r = nbits"
    "\<forall>j. ?F j \<longrightarrow> unat r \<le> j"
    using find_free_loop_spec [OF assms, of 0] unat_lt_2p64 [of n] by auto
  have "?F (unat r)" if "?F j" for j
  proof -
    have "unat r \<le> j" "j + unat n \<le> unat nbits" "0 < unat n"
      using that r(3) assms(1) by (auto simp: free_at_def unat_gt_0)
    then have "r \<noteq> nbits" by auto
    with r(2) show ?thesis by blast
  qed
  then have "if \<exists>j. ?F j then unat r = (LEAST j. ?F j) else r = nbits"
    using r(2,3) by (auto intro!: Least_equality [symmetric])
  with r(1) assms(1) show ?thesis by (auto simp: bitmap_find_free_region_def)
qed

section \<open>Whole maps\<close>

lemma unat_BITS_TO_LONGS:
  "unat nbits + 63 < 2 ^ 64 \<Longrightarrow> unat (BITS_TO_LONGS nbits) = (unat nbits + 63) div 64"
proof -
  assume "unat nbits + 63 < 2 ^ 64"
  moreover have "nbits + 64 - 1 = nbits + 63" by simp
  ultimately show ?thesis
    by (simp add: BITS_TO_LONGS_def BITS_PER_LONG_def word_nat del: diff_add_eq)
qed

lemma bitmap_alloc0_spec:
  assumes "unat nbits + 63 < 2 ^ 64" "bitmap_alloc0 ok nbits = Some bmp"
  shows "unat nbits \<le> 64 * length bmp" "bits_of bmp = {}" "length bmp = (unat nbits + 63) div 64"
  using assms by (auto simp: bitmap_alloc0_def unat_BITS_TO_LONGS bits_of_replicate_0 split: if_splits)

section \<open>The interface of a bit store\<close>

text \<open>
  What the allocators rely on: bit tests, single-bit updates and the search for the first
  set bit agree with a set of bit numbers below the capacity of the store.
\<close>

locale bit_store =
  fixes cap :: "'b \<Rightarrow> nat"
    and bits :: "'b \<Rightarrow> nat set"
    and test :: "'b \<Rightarrow> u64 \<Rightarrow> bool option"
    and put :: "'b \<Rightarrow> u64 \<Rightarrow> 'b option"
    and clr :: "'b \<Rightarrow> u64 \<Rightarrow> 'b option"
    and first :: "'b \<Rightarrow> u64 \<Rightarrow> u64 \<Rightarrow> u64 option"
  assumes bits_cap: "bits b \<subseteq> {..< cap b}"
    and test_ok: "unat i < cap b \<Longrightarrow> test b i = Some (unat i \<in> bits b)"
    and put_ok: "unat i < cap b \<Longrightarrow>
      \<exists>b'. put b i = Some b' \<and> cap b' = cap b \<and> bits b' = insert (unat i) (bits b)"
    and clr_ok: "unat i < cap b \<Longrightarrow>
      \<exists>b'. clr b i = Some b' \<and> cap b' = cap b \<and> bits b' = bits b - {unat i}"
    and first_ok: "unat s \<le> unat e \<Longrightarrow> unat e \<le> cap b \<Longrightarrow> cap b < 2 ^ 64 \<Longrightarrow>
      \<exists>r. first b s e = Some r \<and> unat s \<le> unat r \<and> unat r \<le> unat e \<and>
        (\<forall>j. unat s \<le> j \<and> j < unat r \<longrightarrow> j \<notin> bits b) \<and> (unat r < unat e \<longrightarrow> unat r \<in> bits b)"
begin

lemma finite_bits: "finite (bits b)"
  using bits_cap finite_subset by blast

lemma first_none:
  assumes "unat s \<le> unat e" "unat e \<le> cap b" "cap b < 2 ^ 64"
  shows "first b s e = Some e \<longleftrightarrow> bits b \<inter> {unat s ..< unat e} = {}"
proof -
  obtain r where r: "first b s e = Some r" "unat s \<le> unat r" "unat r \<le> unat e"
    "\<forall>j. unat s \<le> j \<and> j < unat r \<longrightarrow> j \<notin> bits b" "unat r < unat e \<longrightarrow> unat r \<in> bits b"
    using first_ok [OF assms] by blast
  show ?thesis
  proof
    assume "first b s e = Some e"
    with r(1,4) show "bits b \<inter> {unat s ..< unat e} = {}" by auto
  next
    assume "bits b \<inter> {unat s ..< unat e} = {}"
    with r(2,3,5) have "unat r = unat e" by (auto simp: disjoint_iff)
    with r(1) show "first b s e = Some e" by (simp add: word_unat_eq_iff)
  qed
qed

lemma put_card: "unat i < cap b \<Longrightarrow> unat i \<notin> bits b \<Longrightarrow> put b i = Some b' \<Longrightarrow>
    card (bits b') = Suc (card (bits b))"
  using put_ok [of i b] finite_bits [of b] by auto

lemma clr_card: "unat i < cap b \<Longrightarrow> unat i \<in> bits b \<Longrightarrow> clr b i = Some b' \<Longrightarrow>
    Suc (card (bits b')) = card (bits b)"
  using clr_ok [of i b] card.remove [OF finite_bits, of "unat i" b] by auto

lemma test_put:
  assumes "unat i < cap b" "unat k < cap b" "put b i = Some b'"
  shows "test b' k = Some (k = i \<or> unat k \<in> bits b)"
  using put_ok [OF assms(1)] assms test_ok [of k b'] by (auto simp: word_unat_eq_iff)

lemma test_clr:
  assumes "unat i < cap b" "unat k < cap b" "clr b i = Some b'"
  shows "test b' k = Some (k \<noteq> i \<and> unat k \<in> bits b)"
  using clr_ok [OF assms(1)] assms test_ok [of k b'] by (auto simp: word_unat_eq_iff)

end

interpretation bm: bit_store "\<lambda>b. 64 * length b" bits_of bitmap_test_bit bitmap_set_bit
  bitmap_clear_bit bitmap_find_first_bit
proof unfold_locales
  fix b :: "u64 list" and i s e :: u64
  show "bits_of b \<subseteq> {..< 64 * length b}" by (auto dest: bits_of_lt)
  show "unat i < 64 * length b \<Longrightarrow> bitmap_test_bit b i = Some (unat i \<in> bits_of b)"
    by (rule bitmap_test_bit_eq)
  show "unat i < 64 * length b \<Longrightarrow> \<exists>b'. bitmap_set_bit b i = Some b' \<and>
      64 * length b' = 64 * length b \<and> bits_of b' = insert (unat i) (bits_of b)"
    by (erule bitmap_set_bit_bits) auto
  show "unat i < 64 * length b \<Longrightarrow> \<exists>b'. bitmap_clear_bit b i = Some b' \<and>
      64 * length b' = 64 * length b \<and> bits_of b' = bits_of b - {unat i}"
    by (erule bitmap_clear_bit_bits) auto
  show "unat s \<le> unat e \<Longrightarrow> unat e \<le> 64 * length b \<Longrightarrow> 64 * length b < 2 ^ 64 \<Longrightarrow>
      \<exists>r. bitmap_find_first_bit b s e = Some r \<and> unat s \<le> unat r \<and> unat r \<le> unat e \<and>
        (\<forall>j. unat s \<le> j \<and> j < unat r \<longrightarrow> j \<notin> bits_of b) \<and> (unat r < unat e \<longrightarrow> unat r \<in> bits_of b)"
    by (rule bitmap_find_first_bit_spec)
qed

section \<open>Properties\<close>

text \<open>
  Property C32. Setting, and clearing, the region from \<open>s\<close> to \<open>e\<close> changes exactly the bits of
  the region and stays inside the array.
\<close>

theorem bitmap_region_update:
  assumes "unat s \<le> unat e" "unat e \<le> 64 * length bmp"
  shows "(\<exists>bmp'. bitmap_fill_region bmp s e = Some bmp' \<and> length bmp' = length bmp \<and>
      bits_of bmp' = bits_of bmp \<union> {unat s ..< unat e}) \<and>
    (\<exists>bmp'. bitmap_zero_region bmp s e = Some bmp' \<and> length bmp' = length bmp \<and>
      bits_of bmp' = bits_of bmp - {unat s ..< unat e})"
  using bitmap_fill_region_spec [OF assms] bitmap_zero_region_spec [OF assms] by (rule conjI)

theorem bitmap_region_update_witness:
  "\<exists>bmp'. bitmap_fill_region [0, 0, 0] 60 130 = Some bmp' \<and> bits_of bmp' = {60 ..< 130}"
proof -
  have "bits_of [0, 0, 0] = {}" using bits_of_replicate_0 [of 3] by (simp add: numeral_eq_Suc)
  with bitmap_region_update [of 60 130 "[0, 0, 0]"] show ?thesis by auto
qed

text \<open>
  \<open>bitmap_find_first_bit\<close> returns the lowest set bit of the region, or its end
  when the region has none.
\<close>

lemma bitmap_find_first_bit_correct:
  assumes "unat s \<le> unat e" "unat e \<le> 64 * length bmp" "64 * length bmp < 2 ^ 64"
  shows "\<exists>r. bitmap_find_first_bit bmp s e = Some r \<and> unat s \<le> unat r \<and> unat r \<le> unat e \<and>
    (\<forall>j. unat s \<le> j \<and> j < unat r \<longrightarrow> j \<notin> bits_of bmp) \<and>
    (unat r < unat e \<longrightarrow> unat r \<in> bits_of bmp)"
  by (rule bitmap_find_first_bit_spec [OF assms])

text \<open>
  Property C23. The search for a free region is exact: when some \<open>n\<close> consecutive bits below
  \<open>nbits\<close> are clear it returns the lowest such place, and otherwise \<open>nbits\<close>. It always returns.
\<close>

theorem bitmap_find_free_region_correct:
  assumes "n \<noteq> 0" "unat nbits \<le> 64 * length bmp" "64 * length bmp < 2 ^ 64"
  shows "\<exists>r. bitmap_find_free_region bmp nbits n = Some r \<and>
    (if \<exists>j. free_at bmp (unat nbits) (unat n) j
     then unat r = (LEAST j. free_at bmp (unat nbits) (unat n) j) else r = nbits)"
  by (rule bitmap_find_free_region_spec [OF assms])

theorem bitmap_find_free_region_correct_witness:
  "\<exists>r. bitmap_find_free_region [7, 0] 128 5 = Some r"
  using bitmap_find_free_region_correct [of 5 128 "[7, 0]"] by auto

end
