(* ===== verification/Align.thy ===== *)
theory Align
  imports Fusa_Prelude
begin

text \<open>
  The arithmetic helpers of \<^verbatim>\<open>util/util.h\<close> and the power-of-two test of
  \<^verbatim>\<open>util/interval_set.c\<close>, on 64-bit words.
\<close>

definition align :: "u64 \<Rightarrow> u64 \<Rightarrow> u64" where
  "align val al = (val + al - 1) AND NOT (al - 1)"

definition align_down :: "u64 \<Rightarrow> u64 \<Rightarrow> u64" where
  "align_down val al = align (val - (al - 1)) al"

definition DIV_ROUND_UP :: "u64 \<Rightarrow> u64 \<Rightarrow> u64" where
  "DIV_ROUND_UP n d = (n + d - 1) div d"

definition power_of_two :: "u64 \<Rightarrow> bool" where
  "power_of_two x \<longleftrightarrow> x \<noteq> 0 \<and> x AND (x - 1) = 0"

section \<open>Powers of two\<close>

lemma odd_part: "0 < n \<Longrightarrow> \<exists>k m. n = 2 ^ k * (2 * m + 1)" for n :: nat
proof (induction n rule: less_induct)
  case (less n)
  show ?case
  proof (cases "even n")
    case True
    then obtain h where h: "n = 2 * h" by (rule evenE)
    with less have "\<exists>k m. h = 2 ^ k * (2 * m + 1)" by auto
    then obtain k m where "h = 2 ^ k * (2 * m + 1)" by blast
    with h have "n = 2 ^ Suc k * (2 * m + 1)" by simp
    then show ?thesis by blast
  next
    case False
    then obtain m where "n = 2 * m + 1" by (rule oddE)
    then have "n = 2 ^ 0 * (2 * m + 1)" by simp
    then show ?thesis by blast
  qed
qed

lemma power_of_twoD:
  assumes "power_of_two x"
  obtains k where "k < 64" "x = 2 ^ k" "unat x = 2 ^ k"
proof -
  from assms have x: "x \<noteq> 0" "x AND (x - 1) = 0" by (simp_all add: power_of_two_def)
  then have "0 < unat x" by (simp add: unat_gt_0)
  then obtain k m where km: "unat x = 2 ^ k * (2 * m + 1)" using odd_part by blast
  have "1 \<le> x" using x(1) by (simp add: word_le_nat_alt Suc_le_eq unat_gt_0)
  then have x1: "unat (x - 1) = unat x - 1" by (simp add: unat_sub)
  have "drop_bit (Suc k) (unat x) = m"
  proof -
    have "unat x = 2 ^ Suc k * m + 2 ^ k" using km by (simp add: algebra_simps)
    then show ?thesis by (simp add: drop_bit_eq_div)
  qed
  moreover have "drop_bit (Suc k) (unat x - 1) = m"
  proof -
    obtain r where r: "(2::nat) ^ k = Suc r" by (metis gr0_conv_Suc zero_less_numeral zero_less_power)
    have "unat x - 1 = 2 ^ Suc k * m + r" using km r by (simp add: algebra_simps)
    moreover have "r < 2 ^ Suc k" using r by simp
    ultimately show ?thesis by (simp add: drop_bit_eq_div del: power_Suc)
  qed
  ultimately have "drop_bit (Suc k) (unat x AND unat (x - 1)) = m"
    by (simp add: x1)
  moreover have "unat x AND unat (x - 1) = unat (x AND (x - 1))"
    by (simp add: unsigned_and_eq)
  ultimately have "m = 0" using x(2) by simp
  then have ux: "unat x = 2 ^ k" using km by simp
  have "(2::nat) ^ k < 2 ^ 64" using unat_lt_2p64 [of x] ux by simp
  then have k: "k < 64" by (simp add: power_strict_increasing_iff del: power_numeral)
  have "x = of_nat (unat x)" by simp
  then have "x = of_nat (2 ^ k)" by (simp only: ux)
  then have "x = 2 ^ k" by simp
  from k this ux show thesis by (rule that)
qed

lemma power_of_two_exp: "k < 64 \<Longrightarrow> power_of_two (2 ^ k)"
  unfolding power_of_two_def
proof
  assume k: "k < 64"
  show "(2::u64) ^ k \<noteq> 0" using k by (simp add: exp_eq_zero_iff)
  have "(2::u64) ^ k - 1 = mask k" by (simp add: mask_eq_exp_minus_1)
  then show "(2::u64) ^ k AND (2 ^ k - 1) = 0"
    by (intro bit_word_eqI) (auto simp: bit_and_iff bit_mask_iff)
qed

section \<open>Alignment\<close>

lemma and_not_mask_unat: "unat (x AND NOT (mask k)) = unat x div 2 ^ k * 2 ^ k" for x :: u64
proof -
  let ?a = "x AND NOT (mask k)" and ?b = "take_bit k x"
  have "?a AND ?b = 0" and "?a OR ?b = x"
    by (auto intro!: bit_word_eqI simp: bit_and_iff bit_or_iff bit_not_iff bit_mask_iff bit_take_bit_iff)
  then have "unat ?a AND unat ?b = 0" and "unat ?a OR unat ?b = unat x"
    by (simp_all flip: unsigned_and_eq unsigned_or_eq)
  then have "unat ?a + unat ?b = unat x" by (simp add: disjunctive_add_eq_or)
  moreover have "unat ?b = unat x mod 2 ^ k"
    by (simp only: unsigned_take_bit_eq) (simp add: take_bit_eq_mod)
  ultimately have "unat ?a = unat x - unat x mod 2 ^ k" by linarith
  then show ?thesis by (simp add: minus_mod_eq_div_mult)
qed

text \<open>Without overflow, \<open>align\<close> is the least multiple of the alignment not below the value.\<close>

lemma unat_align:
  assumes "power_of_two al" "unat val + unat al \<le> 2 ^ 64"
  shows "unat (align val al) = (unat val + unat al - 1) div unat al * unat al"
proof -
  obtain k where k: "k < 64" "al = 2 ^ k" "unat al = 2 ^ k" using assms(1) by (rule power_of_twoD)
  have pos: "0 < unat al" using k(3) by simp
  have "unat (al - 1) = unat al - 1"
    using pos unat_sub [of 1 al] by (simp add: word_le_nat_alt)
  then have "unat (val + (al - 1)) = unat val + unat al - 1"
    using assms(2) pos by (simp only: unat_word_ariths(1)) simp
  then have "unat (val + al - 1) = unat val + unat al - 1"
    by (simp only: add_diff_eq)
  moreover have "al - 1 = mask k" by (simp add: k(2) mask_eq_exp_minus_1)
  ultimately show ?thesis by (simp add: align_def and_not_mask_unat k(3))
qed

lemma round_up_bounds:
  fixes v a :: nat
  assumes "0 < a"
  shows "v \<le> (v + a - 1) div a * a" "(v + a - 1) div a * a < v + a" "a dvd (v + a - 1) div a * a"
proof -
  have "(v + a - 1) div a * a + (v + a - 1) mod a = v + a - 1" by simp
  moreover have "(v + a - 1) mod a < a" using assms by simp
  ultimately show "v \<le> (v + a - 1) div a * a" "(v + a - 1) div a * a < v + a"
    using assms by linarith+
qed simp

lemma align_bounds:
  assumes "power_of_two al" "unat val + unat al \<le> 2 ^ 64"
  shows "unat val \<le> unat (align val al)" "unat (align val al) < unat val + unat al"
    "unat al dvd unat (align val al)"
proof -
  have "0 < unat al" using assms(1) by (simp add: power_of_two_def unat_gt_0)
  from round_up_bounds [OF this, of "unat val"] unat_align [OF assms]
  show "unat val \<le> unat (align val al)" "unat (align val al) < unat val + unat al"
    "unat al dvd unat (align val al)" by simp_all
qed

end
