(* ===== verification/Interval_Set.thy ===== *)
theory Interval_Set
  imports Align
begin

text \<open>
  The interval allocator of \<^verbatim>\<open>util/interval_set.c\<close>: a list of disjoint free
  ranges of 64-bit addresses, kept sorted and coalesced. The linked list is a HOL list;
  the point where the C loop stops splits it in the ranges before and from there on. The
  answer of \<open>calloc\<close> is an argument. The lemmas show that insertion and allocation add
  and remove exactly the requested addresses and keep the list well formed, and that the
  alignment computed by \<open>iset_alloc_range\<close> wraps around near the top of the address space.
\<close>

section \<open>The operations\<close>

record iset_range =
  rstart :: u64
  rlength :: u64

type_synonym iset = "iset_range list"

definition iset_create :: iset where
  "iset_create = []"

definition range_overlap :: "u64 \<Rightarrow> u64 \<Rightarrow> u64 \<Rightarrow> u64 \<Rightarrow> bool" where
  "range_overlap s1 len1 s2 len2 \<longleftrightarrow>
     \<not> (s1 < s2 \<and> s1 + len1 - 1 < s2 \<or> s2 < s1 \<and> s2 + len2 - 1 < s1)"

definition create_range :: "bool \<Rightarrow> u64 \<Rightarrow> u64 \<Rightarrow> iset_range option" where
  "create_range calloc_ok start len =
     (if calloc_ok then Some \<lparr>rstart = start, rlength = len\<rparr> else None)"

text \<open>
  \<open>check_do_combine\<close> gets the ranges before (the last of them is \<open>p\<close>) and from \<open>n\<close> on, and
  returns them updated with the flag \<open>combined\<close>.
\<close>

definition check_do_combine :: "iset \<Rightarrow> iset \<Rightarrow> u64 \<Rightarrow> u64 \<Rightarrow> bool \<times> iset \<times> iset" where
  "check_do_combine before after start len =
     (let combined2prev = before \<noteq> [] \<and> rstart (last before) + rlength (last before) = start;
          before = (if combined2prev
                    then butlast before @ [(last before)\<lparr>rlength := rlength (last before) + len\<rparr>]
                    else before);
          combined2next = after \<noteq> [] \<and> start + len = rstart (hd after)
      in if combined2next then
           if combined2prev
           then (True, butlast before @ [(last before)\<lparr>rlength := rlength (last before) + rlength (hd after)\<rparr>],
                 tl after)
           else (True, before, (hd after)\<lparr>rstart := start, rlength := rlength (hd after) + len\<rparr> # tl after)
         else (combined2prev, before, after))"

text \<open>The scan of \<open>iset_insert_range\<close>: \<open>None\<close> when a range overlaps the new one.\<close>

fun insert_scan :: "iset \<Rightarrow> iset \<Rightarrow> u64 \<Rightarrow> u64 \<Rightarrow> (iset \<times> iset) option" where
  "insert_scan before [] start len = Some (before, [])"
| "insert_scan before (r # rs) start len =
     (if range_overlap (rstart r) (rlength r) start len then None
      else if start < rstart r then Some (before, r # rs)
      else insert_scan (before @ [r]) rs start len)"

definition iset_insert_range :: "bool \<Rightarrow> iset \<Rightarrow> u64 \<Rightarrow> u64 \<Rightarrow> errno \<times> iset" where
  "iset_insert_range calloc_ok iset start len =
     (if len = 0 \<or> start + len - 1 < start then (EINVAL, iset)
      else case insert_scan [] iset start len of
             None \<Rightarrow> (EINVAL, iset)
           | Some (before, after) \<Rightarrow>
               (case check_do_combine before after start len of
                  (True, before', after') \<Rightarrow> (Success, before' @ after')
                | (False, before', after') \<Rightarrow>
                    (case create_range calloc_ok start len of
                       None \<Rightarrow> (ENOMEM, before' @ after')
                     | Some rnew \<Rightarrow> (Success, before' @ rnew # after'))))"

text \<open>The search of \<open>iset_alloc_range\<close>: the ranges before the one found, it, and those after.\<close>

fun alloc_scan :: "iset \<Rightarrow> iset \<Rightarrow> u64 \<Rightarrow> u64 \<Rightarrow> (iset \<times> iset_range \<times> iset) option" where
  "alloc_scan before [] len alignment = None"
| "alloc_scan before (r # rs) len alignment =
     (let astart = align (rstart r) alignment in
      if astart \<le> astart + len - 1 \<and> astart + len - 1 \<le> rstart r + rlength r - 1
      then Some (before, r, rs)
      else alloc_scan (before @ [r]) rs len alignment)"

definition iset_alloc_range :: "bool \<Rightarrow> iset \<Rightarrow> u64 \<Rightarrow> u64 \<Rightarrow> errno \<times> u64 option \<times> iset" where
  "iset_alloc_range calloc_ok iset len alignment =
     (if \<not> power_of_two alignment then (EINVAL, None, iset)
      else case alloc_scan [] iset len alignment of
             None \<Rightarrow> (ENOSPC, None, iset)
           | Some (before, r, after) \<Rightarrow>
               let astart = align (rstart r) alignment in
               if rstart r = astart then
                 if rlength r = len then (Success, Some astart, before @ after)
                 else (Success, Some astart,
                       before @ r\<lparr>rstart := rstart r + len, rlength := rlength r - len\<rparr> # after)
               else
                 let rend = rstart r + rlength r in
                 if astart + len \<noteq> rend then
                   (case create_range calloc_ok (astart + len) (rend - astart - len) of
                      None \<Rightarrow> (ENOMEM, None, iset)
                    | Some rnew \<Rightarrow>
                        (Success, Some astart,
                         before @ r\<lparr>rlength := astart - rstart r\<rparr> # rnew # after))
                 else (Success, Some astart, before @ r\<lparr>rlength := astart - rstart r\<rparr> # after))"

section \<open>Addresses and well-formed lists\<close>

definition rend :: "iset_range \<Rightarrow> nat" where
  "rend r = unat (rstart r) + unat (rlength r)"

definition range_ok :: "iset_range \<Rightarrow> bool" where
  "range_ok r \<longleftrightarrow> rlength r \<noteq> 0 \<and> rend r \<le> 2 ^ 64"

text \<open>Sorted, disjoint and coalesced: a range ends strictly before the next one starts.\<close>

fun iset_ok :: "iset \<Rightarrow> bool" where
  "iset_ok [] = True"
| "iset_ok (r # rs) = (range_ok r \<and> (\<forall>r' \<in> set rs. rend r < unat (rstart r')) \<and> iset_ok rs)"

definition addrs :: "iset_range \<Rightarrow> nat set" where
  "addrs r = {unat (rstart r) ..< rend r}"

definition points :: "iset \<Rightarrow> nat set" where
  "points rs = (\<Union>r \<in> set rs. addrs r)"

lemma points_simps [simp]:
  "points [] = {}" "points (r # rs) = addrs r \<union> points rs" "points (xs @ ys) = points xs \<union> points ys"
  by (auto simp: points_def)

lemma iset_ok_append:
  "iset_ok (xs @ ys) \<longleftrightarrow> iset_ok xs \<and> iset_ok ys \<and>
     (\<forall>x \<in> set xs. \<forall>y \<in> set ys. rend x < unat (rstart y))"
  by (induction xs) auto

lemma iset_ok_range_ok: "iset_ok rs \<Longrightarrow> r \<in> set rs \<Longrightarrow> range_ok r"
  by (induction rs) auto

lemma iset_create_ok: "iset_ok iset_create \<and> points iset_create = {}"
  by (simp add: iset_create_def)

lemma rlength_pos: "range_ok r \<Longrightarrow> 0 < unat (rlength r)"
  by (simp add: range_ok_def unat_gt_0)

text \<open>The last address of a range: no wrap-around even when the range ends at the top.\<close>

lemma unat_last_addr:
  fixes s l :: u64
  assumes "l \<noteq> 0" "unat s + unat l \<le> 2 ^ 64"
  shows "unat (s + l - 1) = unat s + unat l - 1"
proof -
  have "0 < unat l" using assms(1) by (simp add: unat_gt_0)
  then have "unat (l - 1) = unat l - 1" using unat_sub [of 1 l] by (simp add: word_le_nat_alt)
  then have "unat (s + (l - 1)) = unat s + unat l - 1"
    using assms \<open>0 < unat l\<close> by (simp only: unat_word_ariths(1)) simp
  then show ?thesis by (simp only: add_diff_eq)
qed

lemma no_wrap_iff:
  fixes s l :: u64
  assumes "l \<noteq> 0"
  shows "\<not> s + l - 1 < s \<longleftrightarrow> unat s + unat l \<le> 2 ^ 64"
proof
  assume "unat s + unat l \<le> 2 ^ 64"
  moreover have "0 < unat l" using assms by (simp add: unat_gt_0)
  ultimately show "\<not> s + l - 1 < s"
    using unat_last_addr [OF assms] by (simp add: word_less_nat_alt)
next
  assume nw: "\<not> s + l - 1 < s"
  show "unat s + unat l \<le> 2 ^ 64"
  proof (rule ccontr)
    assume big: "\<not> ?thesis"
    have "0 < unat l" using assms by (simp add: unat_gt_0)
    then have l1: "unat (l - 1) = unat l - 1" using unat_sub [of 1 l] by (simp add: word_le_nat_alt)
    have "unat (s + (l - 1)) = (unat s + (unat l - 1)) mod 2 ^ 64"
      using l1 by (simp only: unat_word_ariths(1)) simp
    also have "\<dots> = unat s + (unat l - 1) - 2 ^ 64"
      using big unat_lt_2p64 [of s] unat_lt_2p64 [of l] by (simp add: mod_if)
    also have "\<dots> < unat s" using unat_lt_2p64 [of l] big by linarith
    finally have "s + (l - 1) < s" by (simp add: word_less_nat_alt)
    with nw show False by (simp only: add_diff_eq)
  qed
qed

lemma range_overlap_iff:
  assumes "range_ok r" "len \<noteq> 0" "unat s + unat len \<le> 2 ^ 64"
  shows "range_overlap (rstart r) (rlength r) s len \<longleftrightarrow> addrs r \<inter> {unat s ..< unat s + unat len} \<noteq> {}"
proof -
  have l: "0 < unat (rlength r)" "0 < unat len" using assms rlength_pos by (simp_all add: unat_gt_0)
  have "unat (rstart r + rlength r - 1) = rend r - 1"
    using assms(1) by (simp add: range_ok_def rend_def unat_last_addr)
  moreover have "unat (s + len - 1) = unat s + unat len - 1"
    by (rule unat_last_addr [OF assms(2,3)])
  ultimately have "range_overlap (rstart r) (rlength r) s len \<longleftrightarrow>
      \<not> (rend r \<le> unat s \<or> unat s + unat len \<le> unat (rstart r))"
    using l by (auto simp: range_overlap_def word_less_nat_alt rend_def)
  then show ?thesis using l by (auto simp: addrs_def rend_def)
qed

section \<open>Insertion\<close>

lemma insert_scan_None:
  assumes "iset_ok rs" "len \<noteq> 0" "unat s + unat len \<le> 2 ^ 64" "insert_scan before rs s len = None"
  shows "points rs \<inter> {unat s ..< unat s + unat len} \<noteq> {}"
  using assms
proof (induction rs arbitrary: before)
  case (Cons r rs)
  show ?case
  proof (cases "range_overlap (rstart r) (rlength r) s len")
    case True
    with Cons.prems show ?thesis by (simp add: range_overlap_iff) blast
  next
    case False
    with Cons.prems(4) have "insert_scan (before @ [r]) rs s len = None" by (simp split: if_splits)
    with Cons.IH Cons.prems show ?thesis by auto
  qed
qed simp

lemma insert_scan_Some:
  assumes "iset_ok rs" "len \<noteq> 0" "unat s + unat len \<le> 2 ^ 64"
    "insert_scan before rs s len = Some (b, a)"
  shows "\<exists>mid. b = before @ mid \<and> rs = mid @ a \<and> (\<forall>x \<in> set mid. rend x \<le> unat s) \<and>
    (\<forall>y \<in> set a. unat s + unat len \<le> unat (rstart y))"
  using assms
proof (induction rs arbitrary: before)
  case (Cons r rs)
  have r: "range_ok r" using Cons.prems(1) by simp
  from Cons.prems(4) have "\<not> range_overlap (rstart r) (rlength r) s len" by (auto split: if_splits)
  then have apart: "addrs r \<inter> {unat s ..< unat s + unat len} = {}"
    using range_overlap_iff [OF r Cons.prems(2,3)] by blast
  have pos: "0 < unat (rlength r)" "0 < unat len"
    using rlength_pos [OF r] Cons.prems(2) by (simp_all add: unat_gt_0)
  have sep: "rend r \<le> unat s \<or> unat s + unat len \<le> unat (rstart r)"
  proof (rule ccontr)
    assume "\<not> ?thesis"
    then have "max (unat s) (unat (rstart r)) \<in> addrs r \<inter> {unat s ..< unat s + unat len}"
      using pos by (auto simp: addrs_def rend_def)
    with apart show False by blast
  qed
  show ?case
  proof (cases "s < rstart r")
    case True
    with Cons.prems(4) have "b = before" "a = r # rs" by (auto split: if_splits)
    moreover have "unat s + unat len \<le> unat (rstart r)"
      using sep True by (auto simp: word_less_nat_alt rend_def)
    moreover have "\<forall>y \<in> set rs. rend r < unat (rstart y)" using Cons.prems(1) by simp
    ultimately show ?thesis by (auto simp: rend_def intro: exI [of _ "[]"])
  next
    case False
    with Cons.prems(4) have "insert_scan (before @ [r]) rs s len = Some (b, a)"
      by (auto split: if_splits)
    with Cons.IH Cons.prems obtain mid where m: "b = (before @ [r]) @ mid" "rs = mid @ a"
      "\<forall>x \<in> set mid. rend x \<le> unat s" "\<forall>y \<in> set a. unat s + unat len \<le> unat (rstart y)"
      by fastforce
    have "rend r \<le> unat s" using sep False pos by (auto simp: word_less_nat_alt rend_def)
    with m show ?thesis by (intro exI [of _ "r # mid"]) auto
  qed
qed simp

text \<open>
  A range that grows keeps its length representable unless it covers all \<open>2 ^ 64\<close> addresses,
  so the lemmas ask for an address \<open>g\<close> outside the result.
\<close>

lemma merged_range:
  assumes "unat lo = a" "unat l = b - a" "a < b" "b \<le> 2 ^ 64"
  shows "rend (r\<lparr>rstart := lo, rlength := l\<rparr>) = b" "range_ok (r\<lparr>rstart := lo, rlength := l\<rparr>)"
    "addrs (r\<lparr>rstart := lo, rlength := l\<rparr>) = {a ..< b}"
  using assms by (auto simp: rend_def range_ok_def addrs_def)

lemma unat_len_add:
  fixes x y :: u64
  assumes "unat x = b - a" "unat y = c - b" "a \<le> b" "b \<le> c" "c \<le> 2 ^ 64" "g < 2 ^ 64" "g \<notin> {a ..< c}"
  shows "unat (x + y) = c - a"
proof -
  have "c - a < 2 ^ 64" using assms(5-7) by (cases "a = 0") auto
  then show ?thesis using assms(1-4) by (simp add: word_nat)
qed

lemma unat_rlength: "unat (rlength r) = rend r - unat (rstart r)"
  by (simp add: rend_def)

lemma rstart_plus_eq_iff: "rend p \<le> unat s \<Longrightarrow> rstart p + rlength p = s \<longleftrightarrow> rend p = unat s"
  using unat_lt_2p64 [of s] by (auto simp: rend_def word_unat_eq_iff word_nat)

lemma plus_eq_rstart_iff:
  "unat s + unat len \<le> unat (rstart n) \<Longrightarrow> s + len = rstart n \<longleftrightarrow> unat s + unat len = unat (rstart n)"
  using unat_lt_2p64 [of "rstart n"] by (auto simp: word_unat_eq_iff word_nat)

definition joins_prev :: "iset \<Rightarrow> u64 \<Rightarrow> bool" where
  "joins_prev before s \<longleftrightarrow> before \<noteq> [] \<and> rstart (last before) + rlength (last before) = s"

definition joins_next :: "iset \<Rightarrow> u64 \<Rightarrow> u64 \<Rightarrow> bool" where
  "joins_next after s len \<longleftrightarrow> after \<noteq> [] \<and> s + len = rstart (hd after)"

lemma before_strict:
  assumes "iset_ok before" "\<forall>x \<in> set before. rend x \<le> unat s" "\<not> joins_prev before s"
  shows "\<forall>x \<in> set before. rend x < unat s"
proof (cases before rule: rev_cases)
  case (snoc bs p)
  with assms(2,3) have "rend p < unat s"
    using rstart_plus_eq_iff [of p s] by (auto simp: joins_prev_def)
  moreover have "\<forall>x \<in> set bs. rend x < unat (rstart p)"
    using assms(1) snoc by (simp add: iset_ok_append)
  ultimately show ?thesis using snoc by (auto simp: rend_def)
qed simp

lemma after_strict:
  assumes "iset_ok after" "\<forall>y \<in> set after. unat s + unat len \<le> unat (rstart y)"
    "\<not> joins_next after s len"
  shows "\<forall>y \<in> set after. unat s + unat len < unat (rstart y)"
proof (cases after)
  case (Cons n ns)
  with assms(2,3) have "unat s + unat len < unat (rstart n)"
    using plus_eq_rstart_iff [of s len n] by (auto simp: joins_next_def)
  moreover have "\<forall>y \<in> set ns. rend n < unat (rstart y)"
    using assms(1) Cons by simp
  ultimately show ?thesis using Cons by (auto simp: rend_def)
qed simp

text \<open>Replacing the ranges \<open>ms\<close> by one that spans them and the new addresses \<open>N\<close>.\<close>

lemma splice:
  assumes "iset_ok (bs @ ms @ as)" "range_ok m" "addrs m = points ms \<union> N"
    "\<forall>x \<in> set bs. rend x < unat (rstart m)" "\<forall>y \<in> set as. rend m < unat (rstart y)"
  shows "iset_ok (bs @ m # as) \<and> points (bs @ m # as) = points (bs @ ms @ as) \<union> N"
  using assms by (auto simp: iset_ok_append)

lemma grow_up:
  assumes "range_ok p" "rend p = unat s" "len \<noteq> 0" "unat s + unat len \<le> 2 ^ 64"
    "g < 2 ^ 64" "g \<notin> addrs p \<union> {unat s ..< unat s + unat len}"
  defines "m \<equiv> p\<lparr>rlength := rlength p + len\<rparr>"
  shows "range_ok m" "rend m = unat s + unat len" "rstart m = rstart p"
    "addrs m = addrs p \<union> {unat s ..< unat s + unat len}"
proof -
  have pos: "0 < unat len" "unat (rstart p) < rend p"
    using assms(3) rlength_pos [OF assms(1)] by (simp_all add: unat_gt_0 rend_def)
  have "addrs p \<union> {unat s ..< unat s + unat len} = {unat (rstart p) ..< unat s + unat len}"
    using pos assms(2) by (auto simp: addrs_def)
  moreover from this have "unat (rlength p + len) = unat s + unat len - unat (rstart p)"
    using unat_len_add [of "rlength p" "unat s" "unat (rstart p)" len "unat s + unat len" g]
      pos assms(2,4-6) by (simp add: unat_rlength)
  moreover note merged_range [OF refl this, of p]
  ultimately show "range_ok m" "rend m = unat s + unat len" "rstart m = rstart p"
    "addrs m = addrs p \<union> {unat s ..< unat s + unat len}"
    using pos assms(2,4) by (simp_all add: m_def)
qed

lemma grow_down:
  assumes "range_ok n" "unat s + unat len = unat (rstart n)" "len \<noteq> 0"
    "g < 2 ^ 64" "g \<notin> addrs n \<union> {unat s ..< unat s + unat len}"
  defines "m \<equiv> n\<lparr>rstart := s, rlength := rlength n + len\<rparr>"
  shows "range_ok m" "rend m = rend n" "rstart m = s"
    "addrs m = addrs n \<union> {unat s ..< unat s + unat len}"
proof -
  have pos: "0 < unat len" "unat (rstart n) < rend n" "rend n \<le> 2 ^ 64"
    using assms(1,3) rlength_pos [OF assms(1)] by (simp_all add: unat_gt_0 rend_def range_ok_def)
  have eq: "addrs n \<union> {unat s ..< unat s + unat len} = {unat s ..< rend n}"
    using pos assms(2) by (auto simp: addrs_def)
  with assms(5) have g: "g \<notin> {unat s ..< rend n}" by simp
  have "unat (len + rlength n) = rend n - unat s"
    by (rule unat_len_add [of len "unat s + unat len" "unat s" "rlength n" "rend n" g])
      (use pos assms(2,4) g in \<open>simp_all add: unat_rlength\<close>)
  then have "unat (rlength n + len) = rend n - unat s" by (simp only: add.commute)
  moreover note eq
  moreover note merged_range [OF refl \<open>unat (rlength n + len) = rend n - unat s\<close>, of n]
  ultimately show "range_ok m" "rend m = rend n" "rstart m = s"
    "addrs m = addrs n \<union> {unat s ..< unat s + unat len}"
    using pos assms(2) by (simp_all add: m_def)
qed

lemma check_do_combine_cases:
  "check_do_combine before after s len =
     (if joins_prev before s then
        let p = (last before)\<lparr>rlength := rlength (last before) + len\<rparr> in
        if joins_next after s len
        then (True, butlast before @ [p\<lparr>rlength := rlength p + rlength (hd after)\<rparr>], tl after)
        else (True, butlast before @ [p], after)
      else if joins_next after s len
        then (True, before, (hd after)\<lparr>rstart := s, rlength := rlength (hd after) + len\<rparr> # tl after)
        else (False, before, after))"
  by (simp add: check_do_combine_def joins_prev_def joins_next_def Let_def)

lemma joins_prevD:
  assumes "joins_prev before s" "iset_ok before" "\<forall>x \<in> set before. rend x \<le> unat s"
  obtains bs p where "before = bs @ [p]" "last before = p" "butlast before = bs" "rend p = unat s"
    "range_ok p" "\<forall>x \<in> set bs. rend x < unat (rstart p)"
proof -
  have "before = butlast before @ [last before]" using assms(1) by (simp add: joins_prev_def)
  then obtain bs p where b: "before = bs @ [p]" by blast
  with assms have "rend p = unat s"
    using rstart_plus_eq_iff [of p s] by (auto simp: joins_prev_def)
  with b assms(2) show thesis by (intro that [of bs p]) (auto simp: iset_ok_append)
qed

lemma joins_nextD:
  assumes "joins_next after s len" "iset_ok after"
    "\<forall>y \<in> set after. unat s + unat len \<le> unat (rstart y)"
  obtains n ns where "after = n # ns" "unat s + unat len = unat (rstart n)" "range_ok n"
    "\<forall>y \<in> set ns. rend n < unat (rstart y)"
proof -
  obtain n ns where a: "after = n # ns" using assms(1) by (cases after) (auto simp: joins_next_def)
  with assms have "unat s + unat len = unat (rstart n)"
    using plus_eq_rstart_iff [of s len n] by (auto simp: joins_next_def)
  with a assms(2) show thesis by (intro that [of n ns]) auto
qed

lemma combine_prev:
  assumes ok: "iset_ok (before @ after)" and b: "\<forall>x \<in> set before. rend x \<le> unat s"
    and a: "\<forall>y \<in> set after. unat s + unat len \<le> unat (rstart y)"
    and len: "len \<noteq> 0" "unat s + unat len \<le> 2 ^ 64"
    and g: "g < 2 ^ 64" "g \<notin> points (before @ after) \<union> {unat s ..< unat s + unat len}"
    and j: "joins_prev before s"
    and res: "check_do_combine before after s len = (c, before', after')"
  shows "iset_ok (before' @ after') \<and>
    points (before' @ after') = points (before @ after) \<union> {unat s ..< unat s + unat len}"
proof -
  have oks: "iset_ok before" "iset_ok after" using ok by (simp_all add: iset_ok_append)
  obtain bs p where p: "before = bs @ [p]" "last before = p" "butlast before = bs" "rend p = unat s"
    "range_ok p" "\<forall>x \<in> set bs. rend x < unat (rstart p)"
    using joins_prevD [OF j oks(1) b] .
  have "g \<notin> addrs p \<union> {unat s ..< unat s + unat len}" using g(2) p(1) by auto
  note m = grow_up [OF p(5,4) len g(1) this]
  let ?m = "p\<lparr>rlength := rlength p + len\<rparr>"
  show ?thesis
  proof (cases "joins_next after s len")
    case False
    have "before' = bs @ [?m]" "after' = after"
      using res j False p(2,3) by (simp_all add: check_do_combine_cases Let_def)
    moreover have "iset_ok (bs @ ?m # after) \<and> points (bs @ ?m # after) =
        points (bs @ [p] @ after) \<union> {unat s ..< unat s + unat len}"
      by (rule splice) (use ok p m after_strict [OF oks(2) a False] in simp_all)
    ultimately show ?thesis using p(1) by simp
  next
    case True
    obtain n ns where n: "after = n # ns" "unat s + unat len = unat (rstart n)" "range_ok n"
      "\<forall>y \<in> set ns. rend n < unat (rstart y)"
      using joins_nextD [OF True oks(2) a] .
    have "g \<notin> addrs ?m \<union> {unat (rstart n) ..< unat (rstart n) + unat (rlength n)}"
      using g(2) p(1) n(1) m(4) by (auto simp: addrs_def rend_def)
    note m2 = grow_up [OF m(1) m(2) [unfolded n(2)] _ _ g(1) this]
    let ?m2 = "?m\<lparr>rlength := rlength ?m + rlength n\<rparr>"
    have "before' = bs @ [?m2]" "after' = ns"
      using res j True p(2,3) n(1) by (simp_all add: check_do_combine_cases Let_def)
    moreover have "rend n = unat (rstart n) + unat (rlength n)" "addrs n = {unat (rstart n) ..< rend n}"
      by (simp_all add: rend_def addrs_def)
    moreover have "iset_ok (bs @ ?m2 # ns) \<and> points (bs @ ?m2 # ns) =
        points (bs @ [p, n] @ ns) \<union> {unat s ..< unat s + unat len}"
      by (rule splice) (use ok p n m m2 in \<open>auto simp: range_ok_def rend_def addrs_def\<close>)
    ultimately show ?thesis using p(1) n(1) by simp
  qed
qed

lemma combine_next:
  assumes ok: "iset_ok (before @ after)" and b: "\<forall>x \<in> set before. rend x \<le> unat s"
    and a: "\<forall>y \<in> set after. unat s + unat len \<le> unat (rstart y)"
    and len: "len \<noteq> 0"
    and g: "g < 2 ^ 64" "g \<notin> points (before @ after) \<union> {unat s ..< unat s + unat len}"
    and j: "\<not> joins_prev before s" "joins_next after s len"
    and res: "check_do_combine before after s len = (c, before', after')"
  shows "iset_ok (before' @ after') \<and>
    points (before' @ after') = points (before @ after) \<union> {unat s ..< unat s + unat len}"
proof -
  have oks: "iset_ok before" "iset_ok after" using ok by (simp_all add: iset_ok_append)
  obtain n ns where n: "after = n # ns" "unat s + unat len = unat (rstart n)" "range_ok n"
    "\<forall>y \<in> set ns. rend n < unat (rstart y)"
    using joins_nextD [OF j(2) oks(2) a] .
  have "g \<notin> addrs n \<union> {unat s ..< unat s + unat len}" using g(2) n(1) by auto
  note m = grow_down [OF n(3,2) len g(1) this]
  let ?m = "n\<lparr>rstart := s, rlength := rlength n + len\<rparr>"
  have "before' = before" "after' = ?m # ns"
    using res j n(1) by (simp_all add: check_do_combine_cases)
  moreover have "iset_ok (before @ ?m # ns) \<and> points (before @ ?m # ns) =
      points (before @ [n] @ ns) \<union> {unat s ..< unat s + unat len}"
    by (rule splice) (use ok n m before_strict [OF oks(1) b j(1)] in simp_all)
  ultimately show ?thesis using n(1) by simp
qed

lemma insert_new_range:
  assumes "iset_ok (before @ after)" "\<forall>x \<in> set before. rend x < unat s"
    "\<forall>y \<in> set after. unat s + unat len < unat (rstart y)" "len \<noteq> 0" "unat s + unat len \<le> 2 ^ 64"
  defines "m \<equiv> \<lparr>rstart = s, rlength = len\<rparr>"
  shows "iset_ok (before @ m # after) \<and>
    points (before @ m # after) = points (before @ after) \<union> {unat s ..< unat s + unat len}"
  using assms by (auto simp: iset_ok_append range_ok_def rend_def addrs_def)

lemma iset_insert_range_spec:
  assumes ok: "iset_ok rs" and gap: "\<not> {..< 2 ^ 64} \<subseteq> points rs \<union> {unat s ..< unat s + unat len}"
    and ins: "iset_insert_range calloc_ok rs s len = (ret, rs')"
  shows "iset_ok rs' \<and>
    (if len = 0 \<or> 2 ^ 64 < unat s + unat len \<or> points rs \<inter> {unat s ..< unat s + unat len} \<noteq> {}
     then ret = EINVAL \<and> rs' = rs
     else ret = Success \<and> points rs' = points rs \<union> {unat s ..< unat s + unat len} \<or>
          ret = ENOMEM \<and> \<not> calloc_ok \<and> rs' = rs)"
proof (cases "len = 0 \<or> 2 ^ 64 < unat s + unat len")
  case True
  then have "len = 0 \<or> s + len - 1 < s"
    using no_wrap_iff [of len s] by (cases "len = 0") auto
  then show ?thesis using ins ok True by (auto simp: iset_insert_range_def)
next
  case False
  then have len: "len \<noteq> 0" "unat s + unat len \<le> 2 ^ 64" by simp_all
  then have nw: "\<not> (len = 0 \<or> s + len - 1 < s)" using no_wrap_iff [of len s] by simp
  show ?thesis
  proof (cases "insert_scan [] rs s len")
    case None
    then show ?thesis
      using insert_scan_None [OF ok len None] ins ok nw by (simp add: iset_insert_range_def)
  next
    case (Some ba)
    then obtain b a where ba: "insert_scan [] rs s len = Some (b, a)" by (cases ba) auto
    then have rs: "rs = b @ a" and bound: "\<forall>x \<in> set b. rend x \<le> unat s"
      "\<forall>y \<in> set a. unat s + unat len \<le> unat (rstart y)"
      using insert_scan_Some [OF ok len ba] by auto
    have dis: "points rs \<inter> {unat s ..< unat s + unat len} = {}"
      using bound unfolding rs by (fastforce simp: points_def addrs_def)
    obtain g where g: "g < 2 ^ 64" "g \<notin> points (b @ a) \<union> {unat s ..< unat s + unat len}"
      using gap rs by blast
    note ok' = ok [unfolded rs]
    obtain c b' a' where comb: "check_do_combine b a s len = (c, b', a')" by (metis prod_cases3)
    show ?thesis
    proof (cases "joins_prev b s \<or> joins_next a s len")
      case True
      then have "iset_ok (b' @ a') \<and> points (b' @ a') = points (b @ a) \<union> {unat s ..< unat s + unat len}"
        using combine_prev [OF ok' bound len g _ comb] combine_next [OF ok' bound len(1) g _ _ comb]
        by blast
      moreover from True comb have c by (auto simp: check_do_combine_cases Let_def split: if_splits)
      ultimately show ?thesis using ins nw ba comb len dis rs by (auto simp: iset_insert_range_def)
    next
      case False
      then have "c = False" "b' = b" "a' = a" using comb by (auto simp: check_do_combine_cases)
      moreover have "iset_ok b" "iset_ok a" using ok' by (simp_all add: iset_ok_append)
      with False insert_new_range [OF ok' _ _ len] before_strict [of b s] after_strict [of a s len] bound
      have "iset_ok (b @ \<lparr>rstart = s, rlength = len\<rparr> # a) \<and>
          points (b @ \<lparr>rstart = s, rlength = len\<rparr> # a) = points (b @ a) \<union> {unat s ..< unat s + unat len}"
        by blast
      ultimately show ?thesis
        using ins nw ba comb len dis rs ok
        by (auto simp: iset_insert_range_def create_range_def split: if_splits)
    qed
  qed
qed

section \<open>Allocation\<close>

definition fits :: "u64 \<Rightarrow> u64 \<Rightarrow> iset_range \<Rightarrow> bool" where
  "fits len alignment r \<longleftrightarrow> len \<noteq> 0 \<and> unat (align (rstart r) alignment) + unat len \<le> rend r"

lemma alloc_guard_iff:
  assumes r: "range_ok r" and al: "power_of_two alignment" "unat (rstart r) + unat alignment \<le> 2 ^ 64"
  defines "astart \<equiv> align (rstart r) alignment"
  shows "astart \<le> astart + len - 1 \<and> astart + len - 1 \<le> rstart r + rlength r - 1 \<longleftrightarrow> fits len alignment r"
proof -
  have st: "unat (rstart r) \<le> unat astart" using align_bounds(1) [OF al] by (simp add: astart_def)
  have le: "unat (rstart r + rlength r - 1) = rend r - 1"
    using r by (simp add: range_ok_def rend_def unat_last_addr)
  have pos: "0 < rend r" "rend r \<le> 2 ^ 64"
    using rlength_pos [OF r] r by (simp_all add: rend_def range_ok_def)
  show ?thesis
  proof (cases "len = 0")
    case True
    have "\<not> (astart \<le> astart - 1 \<and> astart - 1 \<le> rstart r + rlength r - 1)"
    proof (cases "astart = 0")
      case False
      then have "astart - 1 < astart" by (simp add: word_less_nat_alt unat_minus_one unat_gt_0)
      then show ?thesis using leD by blast
    next
      case True
      then have "rend r < 2 ^ 64" using st unat_lt_2p64 [of "rlength r"] by (simp add: rend_def)
      moreover have "unat (- 1 :: u64) = 2 ^ 64 - 1" by (simp add: unsigned_minus_1_eq_mask mask_eq_exp_minus_1)
      ultimately show ?thesis using le pos True by (simp add: word_le_nat_alt)
    qed
    then show ?thesis using True by (simp add: fits_def)
  next
    case False
    then have "astart \<le> astart + len - 1 \<longleftrightarrow> unat astart + unat len \<le> 2 ^ 64"
      using no_wrap_iff [of len astart] by (simp add: not_less)
    moreover have "unat (astart + len - 1) = unat astart + unat len - 1" if "unat astart + unat len \<le> 2 ^ 64"
      using unat_last_addr [OF False that] .
    moreover have "0 < unat len" using False by (simp add: unat_gt_0)
    ultimately show ?thesis
      using False le pos by (auto simp: fits_def astart_def [symmetric] word_le_nat_alt)
  qed
qed

lemma alloc_scan_None:
  assumes "alloc_scan before rs len alignment = None" "r \<in> set rs"
  shows "\<not> (align (rstart r) alignment \<le> align (rstart r) alignment + len - 1 \<and>
    align (rstart r) alignment + len - 1 \<le> rstart r + rlength r - 1)"
  using assms by (induction rs arbitrary: before) (auto simp: Let_def split: if_splits)

lemma alloc_scan_Some:
  assumes "alloc_scan before rs len alignment = Some (b, r, a)"
  shows "before @ rs = b @ r # a \<and> align (rstart r) alignment \<le> align (rstart r) alignment + len - 1 \<and>
    align (rstart r) alignment + len - 1 \<le> rstart r + rlength r - 1"
  using assms
proof (induction rs arbitrary: before)
  case (Cons q rs)
  then show ?case using Cons.IH [of "before @ [q]"] by (auto simp: Let_def split: if_splits)
qed simp

lemma iset_ok_apart:
  "iset_ok rs \<Longrightarrow> r \<in> set rs \<Longrightarrow> r' \<in> set rs \<Longrightarrow> r = r' \<or> rend r < unat (rstart r') \<or> rend r' < unat (rstart r)"
  by (induction rs) auto

text \<open>Since the ranges are coalesced, a contiguous block of free addresses lies in one range.\<close>

lemma block_in_range:
  assumes ok: "iset_ok rs" and sub: "{x ..< x + n} \<subseteq> points rs" and n: "0 < n"
  obtains r where "r \<in> set rs" "{x ..< x + n} \<subseteq> addrs r"
proof -
  have "x \<in> points rs" using sub n by auto
  then obtain r where r: "r \<in> set rs" "x \<in> addrs r" by (auto simp: points_def)
  have "k < n \<Longrightarrow> x + k \<in> addrs r" for k
  proof (induction k)
    case 0
    show ?case using r by simp
  next
    case (Suc k)
    then have k: "x + k \<in> addrs r" by simp
    have "x + Suc k \<in> points rs" using sub Suc.prems by auto
    then obtain r' where r': "r' \<in> set rs" "x + Suc k \<in> addrs r'" by (auto simp: points_def)
    with k iset_ok_apart [OF ok r(1) r'(1)] show ?case by (auto simp: addrs_def)
  qed
  then have "{x ..< x + n} \<subseteq> addrs r" by (auto simp: le_iff_add)
  with r(1) show thesis by (rule that)
qed

lemma no_fit_no_block:
  assumes ok: "iset_ok rs" and al: "power_of_two alignment"
    and nw: "\<forall>r \<in> set rs. unat (rstart r) + unat alignment \<le> 2 ^ 64"
    and none: "\<forall>r \<in> set rs. \<not> fits len alignment r"
    and x: "unat alignment dvd x" "0 < unat len"
  shows "\<not> {x ..< x + unat len} \<subseteq> points rs"
proof
  assume "{x ..< x + unat len} \<subseteq> points rs"
  then obtain r where r: "r \<in> set rs" "{x ..< x + unat len} \<subseteq> addrs r"
    using block_in_range [OF ok _ x(2)] by blast
  then have "x \<in> addrs r" "x + unat len - 1 \<in> addrs r" using x(2) by auto
  then have bounds: "unat (rstart r) \<le> x" "x + unat len \<le> rend r" by (auto simp: addrs_def)
  let ?a = "unat (align (rstart r) alignment)"
  note ab = align_bounds [OF al nw [rule_format, OF r(1)]]
  have "?a \<le> x"
  proof (rule ccontr)
    assume "\<not> ?a \<le> x"
    then have lt: "x < ?a" by simp
    have "unat alignment dvd ?a - x" using ab(3) x(1) lt by (simp add: dvd_diff_nat)
    then have "unat alignment \<le> ?a - x" using lt by (intro dvd_imp_le) auto
    then show False using ab(2) bounds(1) lt by linarith
  qed
  then have "fits len alignment r" using bounds x(2) by (auto simp: fits_def)
  with none r(1) show False by blast
qed

text \<open>Cutting the block out of the range that was found: the four cases of the source.\<close>

lemma cut_front:
  assumes "range_ok r" "unat len < unat (rlength r)"
  defines "m \<equiv> r\<lparr>rstart := rstart r + len, rlength := rlength r - len\<rparr>"
  shows "range_ok m" "rend m = rend r" "unat (rstart m) = unat (rstart r) + unat len"
    "addrs m = addrs r - {unat (rstart r) ..< unat (rstart r) + unat len}"
proof -
  have "unat (rstart r + len) = unat (rstart r) + unat len"
    using assms(1,2) by (simp add: range_ok_def rend_def word_nat)
  moreover have "unat (rlength r - len) = unat (rlength r) - unat len"
    using assms(2) by (simp add: word_nat word_le_nat_alt)
  ultimately show "range_ok m" "rend m = rend r" "unat (rstart m) = unat (rstart r) + unat len"
    "addrs m = addrs r - {unat (rstart r) ..< unat (rstart r) + unat len}"
    using assms(1,2) by (auto simp: m_def range_ok_def rend_def addrs_def simp flip: unat_gt_0)
qed

lemma cut_back:
  assumes "unat (rstart r) < unat a" "unat a \<le> rend r" "rend r \<le> 2 ^ 64"
  defines "m \<equiv> r\<lparr>rlength := a - rstart r\<rparr>"
  shows "range_ok m" "rend m = unat a" "rstart m = rstart r" "addrs m = {unat (rstart r) ..< unat a}"
proof -
  have "unat (a - rstart r) = unat a - unat (rstart r)"
    using assms(1) by (simp add: word_nat word_le_nat_alt)
  then show "range_ok m" "rend m = unat a" "rstart m = rstart r" "addrs m = {unat (rstart r) ..< unat a}"
    using assms(1-3) by (auto simp: m_def range_ok_def rend_def addrs_def simp flip: unat_gt_0)
qed

lemma splice_out:
  assumes ok: "iset_ok (b @ r # a)" and ms: "iset_ok ms"
    "\<forall>m \<in> set ms. unat (rstart r) \<le> unat (rstart m) \<and> rend m \<le> rend r"
    "points ms = addrs r - B" and B: "B \<subseteq> addrs r"
  shows "iset_ok (b @ ms @ a) \<and> points (b @ ms @ a) = points (b @ r # a) - B"
proof -
  have "iset_ok (b @ ms @ a)"
    using ok ms(1,2) by (auto simp: iset_ok_append) (meson le_less_trans less_le_trans)+
  moreover have "addrs x \<inter> B = {}" if "x \<in> set b \<union> set a" for x
  proof -
    have "rend x < unat (rstart r) \<or> rend r < unat (rstart x)"
      using ok that by (auto simp: iset_ok_append)
    then have "addrs x \<inter> addrs r = {}" by (auto simp: addrs_def rend_def)
    then show ?thesis using B by blast
  qed
  then have "points b \<inter> B = {}" "points a \<inter> B = {}" by (auto simp: points_def)
  ultimately show ?thesis using ms(3) by auto
qed

lemma word_eq_upto_top:
  fixes x y u v :: u64
  assumes "0 < unat x + unat y" "unat x + unat y \<le> unat u + unat v" "unat u + unat v \<le> 2 ^ 64"
  shows "x + y = u + v \<longleftrightarrow> unat x + unat y = unat u + unat v"
proof -
  have "unat (x + y) = (unat x + unat y) mod 2 ^ 64" "unat (u + v) = (unat u + unat v) mod 2 ^ 64"
    by (simp_all add: unat_word_ariths)
  then show ?thesis
    using assms by (cases "unat u + unat v = 2 ^ 64"; cases "unat x + unat y = 2 ^ 64")
      (auto simp: word_unat_eq_iff)
qed

lemma tail_range:
  assumes "range_ok r" "unat a + unat len < rend r" "unat (rstart r) \<le> unat a" "0 < unat len"
  defines "m \<equiv> \<lparr>rstart = a + len, rlength = rstart r + rlength r - a - len\<rparr>"
  shows "range_ok m" "rend m = rend r" "unat (rstart m) = unat a + unat len"
    "addrs m = {unat a + unat len ..< rend r}"
proof -
  have top: "rend r \<le> 2 ^ 64" using assms(1) by (simp add: range_ok_def)
  have st: "unat (a + len) = unat a + unat len" using assms(2) top by (simp add: word_nat)
  have "rstart r + rlength r - a - len = of_nat (rend r - (unat a + unat len))"
    using assms(2) by (simp add: rend_def of_nat_diff)
  moreover have "rend r - (unat a + unat len) < 2 ^ 64" using assms(4) top by simp
  ultimately have "unat (rstart r + rlength r - a - len) = rend r - (unat a + unat len)"
    by (simp add: unat_of_nat del: of_nat_diff)
  with st assms(2) top show "range_ok m" "rend m = rend r" "unat (rstart m) = unat a + unat len"
    "addrs m = {unat a + unat len ..< rend r}"
    by (auto simp: m_def range_ok_def rend_def addrs_def simp flip: unat_gt_0)
qed

text \<open>The outcome of an allocation from the range \<open>r\<close> that was found.\<close>

definition alloc_cut :: "bool \<Rightarrow> iset_range \<Rightarrow> u64 \<Rightarrow> u64 \<Rightarrow> iset_range list option" where
  "alloc_cut calloc_ok r astart len =
     (if rstart r = astart then
        if rlength r = len then Some []
        else Some [r\<lparr>rstart := rstart r + len, rlength := rlength r - len\<rparr>]
      else if astart + len \<noteq> rstart r + rlength r then
        if calloc_ok then Some [r\<lparr>rlength := astart - rstart r\<rparr>,
          \<lparr>rstart = astart + len, rlength = rstart r + rlength r - astart - len\<rparr>]
        else None
      else Some [r\<lparr>rlength := astart - rstart r\<rparr>])"

lemma iset_alloc_range_cut:
  assumes "power_of_two alignment" "alloc_scan [] rs len alignment = Some (b, r, a)"
  shows "iset_alloc_range calloc_ok rs len alignment =
    (case alloc_cut calloc_ok r (align (rstart r) alignment) len of
       None \<Rightarrow> (ENOMEM, None, rs)
     | Some ms \<Rightarrow> (Success, Some (align (rstart r) alignment), b @ ms @ a))"
  using assms by (simp add: iset_alloc_range_def alloc_cut_def create_range_def Let_def)

lemma interval_cut:
  "x \<le> y \<Longrightarrow> y + n \<le> z \<Longrightarrow> {x ..< z} - {y ..< y + n} = {x ..< y} \<union> {y + n ..< z}" for x y z :: nat
  by auto

lemma alloc_cut_spec:
  assumes r: "range_ok r" and A: "unat (rstart r) \<le> unat A" "unat A + unat len \<le> rend r" "0 < unat len"
    and cut: "alloc_cut calloc_ok r A len = Some ms"
  shows "iset_ok ms \<and> (\<forall>m \<in> set ms. unat (rstart r) \<le> unat (rstart m) \<and> rend m \<le> rend r) \<and>
    points ms = addrs r - {unat A ..< unat A + unat len}"
proof (cases "rstart r = A")
  case True
  show ?thesis
  proof (cases "rlength r = len")
    case True
    then have "addrs r = {unat A ..< unat A + unat len}"
      using \<open>rstart r = A\<close> by (simp add: addrs_def rend_def)
    with True \<open>rstart r = A\<close> cut show ?thesis by (simp add: alloc_cut_def)
  next
    case False
    with \<open>rstart r = A\<close> A(2) have "unat len < unat (rlength r)"
      by (simp add: rend_def word_unat_eq_iff)
    note front = cut_front [OF r this]
    have "ms = [r\<lparr>rstart := rstart r + len, rlength := rlength r - len\<rparr>]"
      using False \<open>rstart r = A\<close> cut by (simp add: alloc_cut_def)
    with front \<open>rstart r = A\<close> show ?thesis by simp
  qed
next
  case False
  then have lt: "unat (rstart r) < unat A" using A(1) by (simp add: word_unat_eq_iff)
  have top: "rend r \<le> 2 ^ 64" using r by (simp add: range_ok_def)
  have eq: "A + len = rstart r + rlength r \<longleftrightarrow> unat A + unat len = rend r"
    using word_eq_upto_top [of A len "rstart r" "rlength r"] A top by (simp add: rend_def)
  have le: "unat A \<le> rend r" using A(2) by simp
  note hd_part = cut_back [OF lt le top]
  have cutset: "addrs r - {unat A ..< unat A + unat len} =
      {unat (rstart r) ..< unat A} \<union> {unat A + unat len ..< rend r}"
    unfolding addrs_def by (rule interval_cut [OF A(1,2)])
  show ?thesis
  proof (cases "unat A + unat len = rend r")
    case True
    with eq False cut have "ms = [r\<lparr>rlength := A - rstart r\<rparr>]" by (simp add: alloc_cut_def)
    with hd_part le True cutset show ?thesis by simp
  next
    case ne: False
    with A(2) have "unat A + unat len < rend r" by simp
    note tail = tail_range [OF r this A(1,3)]
    from ne eq False cut have "ms = [r\<lparr>rlength := A - rstart r\<rparr>,
          \<lparr>rstart = A + len, rlength = rstart r + rlength r - A - len\<rparr>]"
      by (auto simp: alloc_cut_def split: if_splits)
    with tail hd_part A lt le cutset show ?thesis by simp
  qed
qed

lemma iset_alloc_range_spec:
  assumes ok: "iset_ok rs"
    and nw: "\<forall>r \<in> set rs. unat (rstart r) + unat alignment \<le> 2 ^ 64"
    and al: "iset_alloc_range calloc_ok rs len alignment = (ret, st, rs')"
  shows "iset_ok rs' \<and>
    (case ret of
       Success \<Rightarrow> \<exists>A. st = Some A \<and> unat alignment dvd unat A \<and> len \<noteq> 0 \<and>
         {unat A ..< unat A + unat len} \<subseteq> points rs \<and>
         points rs' = points rs - {unat A ..< unat A + unat len}
     | EINVAL \<Rightarrow> \<not> power_of_two alignment \<and> rs' = rs
     | ENOSPC \<Rightarrow> rs' = rs \<and>
         (\<forall>x. unat alignment dvd x \<and> len \<noteq> 0 \<longrightarrow> \<not> {x ..< x + unat len} \<subseteq> points rs)
     | ENOMEM \<Rightarrow> rs' = rs \<and> \<not> calloc_ok)"
proof (cases "power_of_two alignment")
  case False
  with al ok show ?thesis by (auto simp: iset_alloc_range_def)
next
  case p2: True
  show ?thesis
  proof (cases "alloc_scan [] rs len alignment")
    case None
    have "\<forall>r \<in> set rs. \<not> fits len alignment r"
      using alloc_scan_None [OF None] alloc_guard_iff [OF _ p2] nw ok iset_ok_range_ok by blast
    then have "\<forall>x. unat alignment dvd x \<and> len \<noteq> 0 \<longrightarrow> \<not> {x ..< x + unat len} \<subseteq> points rs"
      using no_fit_no_block [OF ok p2 nw] by (simp add: unat_gt_0)
    moreover have "ret = ENOSPC" "rs' = rs"
      using al None p2 by (simp_all add: iset_alloc_range_def)
    ultimately show ?thesis using ok by simp
  next
    case (Some bra)
    then obtain b r a where scan: "alloc_scan [] rs len alignment = Some (b, r, a)"
      by (cases bra) auto
    let ?A = "align (rstart r) alignment"
    note found = alloc_scan_Some [OF scan, simplified]
    have r: "range_ok r" "r \<in> set rs" using found ok by (auto intro: iset_ok_range_ok)
    then have fit: "fits len alignment r"
      using alloc_guard_iff [OF r(1) p2] nw found by blast
    then have len: "len \<noteq> 0" "0 < unat len" "unat ?A + unat len \<le> rend r"
      by (simp_all add: fits_def unat_gt_0)
    note ab = align_bounds [OF p2 nw [rule_format, OF r(2)]]
    have sub: "{unat ?A ..< unat ?A + unat len} \<subseteq> addrs r"
      using ab(1) len(3) by (auto simp: addrs_def)
    note run = iset_alloc_range_cut [OF p2 scan, of calloc_ok]
    show ?thesis
    proof (cases "alloc_cut calloc_ok r ?A len")
      case None
      then have "\<not> calloc_ok" by (auto simp: alloc_cut_def split: if_splits)
      with None run al ok show ?thesis by simp
    next
      case (Some ms)
      note cut = alloc_cut_spec [OF r(1) ab(1) len(3,2) Some]
      have "iset_ok (b @ r # a)" "rs = b @ r # a" using ok found by auto
      with cut splice_out [OF this(1) _ _ _ sub, of ms]
      have "iset_ok (b @ ms @ a)" "points (b @ ms @ a) = points rs - {unat ?A ..< unat ?A + unat len}"
        by blast+
      moreover have "{unat ?A ..< unat ?A + unat len} \<subseteq> points rs"
        using sub r(2) by (auto simp: points_def)
      ultimately show ?thesis using al run Some ab(3) len(1) by auto
    qed
  qed
qed

section \<open>Properties\<close>



text \<open>
  Property C14. As long as no range starts within \<open>alignment\<close> of the top of the address
  space, an allocation hands out an aligned range of free addresses and removes exactly
  these from the set; ENOSPC means that no aligned range of the length is free, and a
  failed call changes nothing.
\<close>

theorem iset_alloc_range_correct:
  assumes "iset_ok rs" "\<forall>r \<in> set rs. unat (rstart r) + unat alignment \<le> 2 ^ 64"
    "iset_alloc_range calloc_ok rs len alignment = (ret, st, rs')"
  shows "iset_ok rs' \<and>
    (case ret of
       Success \<Rightarrow> \<exists>A. st = Some A \<and> unat alignment dvd unat A \<and> len \<noteq> 0 \<and>
         {unat A ..< unat A + unat len} \<subseteq> points rs \<and>
         points rs' = points rs - {unat A ..< unat A + unat len}
     | EINVAL \<Rightarrow> \<not> power_of_two alignment \<and> rs' = rs
     | ENOSPC \<Rightarrow> rs' = rs \<and>
         (\<forall>x. unat alignment dvd x \<and> len \<noteq> 0 \<longrightarrow> \<not> {x ..< x + unat len} \<subseteq> points rs)
     | ENOMEM \<Rightarrow> rs' = rs \<and> \<not> calloc_ok)"
  by (rule iset_alloc_range_spec [OF assms])

theorem iset_alloc_range_correct_witness:
  "\<exists>st rs'. iset_alloc_range True [\<lparr>rstart = 8, rlength = 64\<rparr>] 16 16 = (Success, st, rs') \<and> iset_ok rs' \<and>
     points rs' = {8 ..< 72} - {16 ..< 32}"
proof -
  let ?rs = "[\<lparr>rstart = 8, rlength = 64\<rparr>]"
  let ?rs' = "[\<lparr>rstart = 8, rlength = 8\<rparr>, \<lparr>rstart = 32, rlength = 40\<rparr>]"
  have r: "iset_alloc_range True ?rs 16 16 = (Success, Some 16, ?rs')"
    by (simp add: iset_alloc_range_def align_def align_down_def power_of_two_def create_range_def)
  have "iset_ok ?rs" by (simp add: range_ok_def rend_def)
  moreover have "points ?rs = {8 ..< 72}" by (simp add: addrs_def rend_def)
  ultimately show ?thesis using iset_alloc_range_correct [of ?rs 16 True 16 Success "Some 16" ?rs'] r by simp
qed



end
