(* ===== verification/Dr_Buddy.thy ===== *)
theory Dr_Buddy
  imports Bitmap
begin

text \<open>
  The buddy allocator of \<^verbatim>\<open>providers/mlx5/dr_buddy.c\<close>, which hands out blocks of
  \<open>2 ^ order\<close> units of device memory. For every order there is a bitmap of free blocks
  (\<open>bits\<close>), a bitmap with one bit per word of it (\<open>set_bit\<close>, set when the word is not 0) and
  a count of free blocks (\<open>num_free\<close>). The first part translates the code, the second
  describes the allocator by the sets of free blocks alone, the third shows that the code
  implements that description through the interface \<open>bit_store\<close> of the bitmaps.
\<close>

section \<open>The operations\<close>

record buddy_mem =
  bits :: "u64 list list"
  num_free :: "u32 list"
  set_bit :: "u64 list list"
  max_order :: nat

text \<open>\<open>1 << k\<close> of the C type int, and its conversion to unsigned long.\<close>

definition int_shl1 :: "nat \<Rightarrow> u32" where
  "int_shl1 k = push_bit k 1"

definition int_to_ulong :: "u32 \<Rightarrow> u64" where
  "int_to_ulong x = scast x"

definition dr_find_first_bit :: "u64 list \<Rightarrow> u64 list \<Rightarrow> u32 \<Rightarrow> u32 option" where
  "dr_find_first_bit set_addr addr sz = do {
     let set_size = (ucast ((ucast (sz - 1) :: u64) div BITS_PER_LONG + 1) :: u32);
     set_idx \<leftarrow> bitmap_find_first_bit set_addr 0 (ucast set_size);
     r \<leftarrow> bitmap_find_first_bit addr (set_idx * BITS_PER_LONG) (ucast sz);
     Some (ucast r)
   }"

text \<open>
  \<open>dr_buddy_init\<close>: the list argument holds the answers of the allocator, in order, for the
  three outer arrays and for the bitmaps; \<open>None\<close> as the second component is the failed
  initialisation (every allocation made is released).
\<close>

fun alloc_bitmaps :: "bool list \<Rightarrow> u64 list \<Rightarrow> (bool list \<times> u64 list list) option" where
  "alloc_bitmaps oks [] = Some (oks, [])"
| "alloc_bitmaps oks (s # ss) =
     (case oks of
        [] \<Rightarrow> None
      | ok # oks' \<Rightarrow>
          (case bitmap_alloc0 ok s of
             None \<Rightarrow> None
           | Some b \<Rightarrow> map_option (\<lambda>(oks, bs). (oks, b # bs)) (alloc_bitmaps oks' ss)))"

definition dr_buddy_init :: "bool list \<Rightarrow> nat \<Rightarrow> (errno \<times> buddy_mem option) option" where
  "dr_buddy_init oks mo =
     (case oks of
        ok1 # ok2 # ok3 # oks' \<Rightarrow>
          if \<not> (ok1 \<and> ok2 \<and> ok3) then Some (ENOMEM, None)
          else
            (case alloc_bitmaps oks' (map (\<lambda>i. int_to_ulong (int_shl1 (mo - i))) [0..<Suc mo]) of
               None \<Rightarrow> Some (ENOMEM, None)
             | Some (oks'', bs) \<Rightarrow>
                 (case alloc_bitmaps oks''
                    (map (\<lambda>i. int_to_ulong (ucast (BITS_TO_LONGS (int_to_ulong (int_shl1 (mo - i)))))) [0..<Suc mo]) of
                    None \<Rightarrow> Some (ENOMEM, None)
                  | Some (_, ss) \<Rightarrow> do {
                      bm \<leftarrow> bitmap_set_bit (bs ! mo) 0;
                      sm \<leftarrow> bitmap_set_bit (ss ! mo) 0;
                      Some (Success, Some \<lparr>bits = bs[mo := bm],
                        num_free = (replicate (Suc mo) 0)[mo := 1],
                        set_bit = ss[mo := sm], max_order = mo\<rparr>)
                    }))
      | _ \<Rightarrow> Some (ENOMEM, None))"

definition dr_buddy_get_seg_borders :: "u32 \<Rightarrow> u32 \<times> u32" where
  "dr_buddy_get_seg_borders seg =
     (ucast ((ucast seg :: u64) div BITS_PER_LONG * BITS_PER_LONG),
      ucast (((ucast seg :: u64) div BITS_PER_LONG + 1) * BITS_PER_LONG))"

definition dr_buddy_update_upper_bitmap :: "buddy_mem \<Rightarrow> u32 \<Rightarrow> nat \<Rightarrow> buddy_mem option" where
  "dr_buddy_update_upper_bitmap b seg order = do {
     let (l, h) = dr_buddy_get_seg_borders seg;
     bs \<leftarrow> arr_get (bits b) order;
     m \<leftarrow> bitmap_find_first_bit bs (ucast l) (ucast h);
     if (ucast m :: u32) = h then do {
       s \<leftarrow> arr_get (set_bit b) order;
       s' \<leftarrow> bitmap_clear_bit s (ucast seg div BITS_PER_LONG);
       Some (b\<lparr>set_bit := (set_bit b)[order := s']\<rparr>)
     }
     else Some b
   }"

text \<open>
  The statements both operations share: taking block \<open>seg\<close> out of the free blocks of an
  order, and adding it; \<open>idx\<close> is \<open>seg\<close> converted to unsigned long.
\<close>

definition buddy_take :: "buddy_mem \<Rightarrow> u64 \<Rightarrow> u32 \<Rightarrow> nat \<Rightarrow> buddy_mem option" where
  "buddy_take b idx seg order = do {
     bs \<leftarrow> arr_get (bits b) order;
     bs' \<leftarrow> bitmap_clear_bit bs idx;
     b \<leftarrow> dr_buddy_update_upper_bitmap (b\<lparr>bits := (bits b)[order := bs']\<rparr>) seg order;
     nf \<leftarrow> arr_upd (num_free b) order (\<lambda>n. n - 1);
     Some (b\<lparr>num_free := nf\<rparr>)
   }"

definition buddy_put :: "buddy_mem \<Rightarrow> u64 \<Rightarrow> nat \<Rightarrow> buddy_mem option" where
  "buddy_put b idx order = do {
     bs \<leftarrow> arr_get (bits b) order;
     bs' \<leftarrow> bitmap_set_bit bs idx;
     s \<leftarrow> arr_get (set_bit b) order;
     s' \<leftarrow> bitmap_set_bit s (idx div BITS_PER_LONG);
     nf \<leftarrow> arr_upd (num_free b) order (\<lambda>n. n + 1);
     Some (b\<lparr>bits := (bits b)[order := bs'], set_bit := (set_bit b)[order := s'], num_free := nf\<rparr>)
   }"

text \<open>The first loop of \<open>dr_buddy_alloc_mem\<close>: the lowest order from \<open>o\<close> on with a free block.\<close>

function find_order :: "buddy_mem \<Rightarrow> nat \<Rightarrow> nat option option" where
  "find_order b o1 =
     (if o1 \<le> max_order b then
        case arr_get (num_free b) o1 of
          None \<Rightarrow> None
        | Some n \<Rightarrow> if n \<noteq> 0 then Some (Some o1) else find_order b (Suc o1)
      else Some None)"
  by pat_completeness auto
termination
  by (relation "measure (\<lambda>(b, o1). Suc (max_order b) - o1)") auto

declare find_order.simps [simp del]

text \<open>The splitting loop: \<open>d\<close> is \<open>o - order\<close>.\<close>

fun split_loop :: "buddy_mem \<Rightarrow> u32 \<Rightarrow> nat \<Rightarrow> nat \<Rightarrow> (buddy_mem \<times> u32) option" where
  "split_loop b seg order 0 = Some (b, seg)"
| "split_loop b seg order (Suc d) =
     (let seg = push_bit 1 seg in
      case buddy_put b (int_to_ulong (seg XOR 1)) (order + d) of
        None \<Rightarrow> None
      | Some b \<Rightarrow> split_loop b seg order d)"

definition dr_buddy_alloc_mem :: "buddy_mem \<Rightarrow> nat \<Rightarrow> (buddy_mem \<times> u32) option" where
  "dr_buddy_alloc_mem b order = do {
     fo \<leftarrow> find_order b order;
     case fo of
       None \<Rightarrow> Some (b, - 1)
     | Some o1 \<Rightarrow> do {
         let m = int_shl1 (max_order b - o1);
         sb \<leftarrow> arr_get (set_bit b) o1;
         bs \<leftarrow> arr_get (bits b) o1;
         seg \<leftarrow> dr_find_first_bit sb bs m;
         c_assert (\<not> sint m \<le> sint seg);
         b \<leftarrow> buddy_take b (int_to_ulong seg) seg o1;
         (b, seg) \<leftarrow> split_loop b seg order (o1 - order);
         Some (b, push_bit order seg)
       }
   }"

text \<open>The merging loop of \<open>dr_buddy_free_mem\<close>.\<close>

partial_function (option) merge_loop :: "buddy_mem \<Rightarrow> u32 \<Rightarrow> nat \<Rightarrow> (buddy_mem \<times> u32 \<times> nat) option" where
  "merge_loop b seg order = do {
     bs \<leftarrow> arr_get (bits b) order;
     t \<leftarrow> bitmap_test_bit bs (ucast (seg XOR 1));
     if t then do {
       b \<leftarrow> buddy_take b (ucast (seg XOR 1)) (seg XOR 1) order;
       merge_loop b (drop_bit 1 seg) (Suc order)
     }
     else Some (b, seg, order)
   }"

definition dr_buddy_free_mem :: "buddy_mem \<Rightarrow> u32 \<Rightarrow> nat \<Rightarrow> buddy_mem option" where
  "dr_buddy_free_mem b seg order = do {
     (b, seg, order) \<leftarrow> merge_loop b (drop_bit order seg) order;
     buddy_put b (ucast seg) order
   }"

section \<open>The allocator as sets of free blocks\<close>

text \<open>
  \<open>blk n s\<close> are the units of block \<open>s\<close> of order \<open>n\<close>, \<open>sib s\<close> is its buddy, \<open>B n\<close> the set of
  free blocks of order \<open>n\<close>.
\<close>

definition blk :: "nat \<Rightarrow> nat \<Rightarrow> nat set" where
  "blk n s = {s * 2 ^ n ..< Suc s * 2 ^ n}"

definition sib :: "nat \<Rightarrow> nat" where
  "sib s = (if even s then Suc s else s - 1)"

definition free_units :: "nat \<Rightarrow> (nat \<Rightarrow> nat set) \<Rightarrow> nat set" where
  "free_units M B = (\<Union>n \<in> {..M}. \<Union>s \<in> B n. blk n s)"

text \<open>
  The blocks are within the memory of \<open>2 ^ M\<close> units, pairwise disjoint, and coalesced: a
  block and its buddy are never both free.
\<close>

definition blocks_ok :: "nat \<Rightarrow> (nat \<Rightarrow> nat set) \<Rightarrow> bool" where
  "blocks_ok M B \<longleftrightarrow>
     (\<forall>n \<le> M. B n \<subseteq> {..< 2 ^ (M - n)}) \<and>
     (\<forall>n \<le> M. \<forall>n' \<le> M. \<forall>s \<in> B n. \<forall>s' \<in> B n'. (n, s) \<noteq> (n', s') \<longrightarrow> blk n s \<inter> blk n' s' = {}) \<and>
     (\<forall>n < M. \<forall>s \<in> B n. sib s \<notin> B n)"

lemma in_blk_iff: "x \<in> blk n s \<longleftrightarrow> x div 2 ^ n = s"
proof -
  have "x \<in> blk n s \<longleftrightarrow> s * 2 ^ n \<le> x \<and> x < Suc s * 2 ^ n" by (simp add: blk_def)
  also have "\<dots> \<longleftrightarrow> s \<le> x div 2 ^ n \<and> x div 2 ^ n < Suc s"
    by (simp only: less_eq_div_iff_mult_less_eq div_less_iff_less_mult zero_less_power zero_less_numeral)
  also have "\<dots> \<longleftrightarrow> x div 2 ^ n = s" by auto
  finally show ?thesis .
qed

lemma blk_eq: "blk n s = {x. x div 2 ^ n = s}"
  using in_blk_iff by auto

lemma blk_nonempty: "s * 2 ^ n \<in> blk n s"
  by (simp add: in_blk_iff)

lemma sib_div: "sib s div 2 = s div 2" and sib_neq: "sib s \<noteq> s" and sib_sib: "sib (sib s) = s"
  by (auto simp: sib_def elim!: evenE oddE)

lemma same_parent: "t div 2 = s div 2 \<longleftrightarrow> t = s \<or> t = sib s"
proof
  assume "t div 2 = s div 2"
  then show "t = s \<or> t = sib s" by (cases "even s"; cases "even t") (auto simp: sib_def elim!: evenE oddE)
qed (auto simp: sib_div)

lemma blk_parent: "blk (Suc n) (s div 2) = blk n s \<union> blk n (sib s)"
  by (auto simp: in_blk_iff same_parent div_mult2_eq mult.commute [of 2])

lemma blk_disjoint: "s \<noteq> t \<Longrightarrow> blk n s \<inter> blk n t = {}"
  by (auto simp: in_blk_iff)

lemma in_free_iff: "x \<in> free_units M B \<longleftrightarrow> (\<exists>n \<le> M. x div 2 ^ n \<in> B n)"
  by (auto simp: free_units_def in_blk_iff)

lemma free_blk_sub: "n \<le> M \<Longrightarrow> s \<in> B n \<Longrightarrow> blk n s \<subseteq> free_units M B"
  by (auto simp: free_units_def)

lemma blocks_okD:
  assumes "blocks_ok M B" "n \<le> M" "s \<in> B n"
  shows "s < 2 ^ (M - n)" "n' \<le> M \<Longrightarrow> s' \<in> B n' \<Longrightarrow> blk n s \<inter> blk n' s' \<noteq> {} \<Longrightarrow> n' = n \<and> s' = s"
    "n < M \<Longrightarrow> sib s \<notin> B n"
proof -
  show "s < 2 ^ (M - n)" "n < M \<Longrightarrow> sib s \<notin> B n"
    using assms by (auto simp: blocks_ok_def)
  have "\<forall>n \<le> M. \<forall>n' \<le> M. \<forall>s \<in> B n. \<forall>s' \<in> B n'. (n, s) \<noteq> (n', s') \<longrightarrow> blk n s \<inter> blk n' s' = {}"
    using assms(1) unfolding blocks_ok_def by (elim conjE)
  then have "n' \<le> M \<Longrightarrow> s' \<in> B n' \<Longrightarrow> (n, s) \<noteq> (n', s') \<Longrightarrow> blk n s \<inter> blk n' s' = {}"
    using assms(2,3) by blast
  then show "n' \<le> M \<Longrightarrow> s' \<in> B n' \<Longrightarrow> blk n s \<inter> blk n' s' \<noteq> {} \<Longrightarrow> n' = n \<and> s' = s"
    by blast
qed

lemma take_blocks:
  assumes ok: "blocks_ok M B" and n: "n \<le> M" "s \<in> B n"
  shows "blocks_ok M (B(n := B n - {s}))"
    "free_units M (B(n := B n - {s})) = free_units M B - blk n s"
proof -
  let ?B' = "B(n := B n - {s})"
  have sub: "?B' k \<subseteq> B k" for k by auto
  show "blocks_ok M ?B'"
    unfolding blocks_ok_def
  proof (intro conjI allI impI ballI)
    fix k assume "k \<le> M"
    then show "?B' k \<subseteq> {..< 2 ^ (M - k)}" using ok sub [of k] by (auto simp: blocks_ok_def)
  next
    fix k k' t t' assume "k \<le> M" "k' \<le> M" "t \<in> ?B' k" "t' \<in> ?B' k'" "(k, t) \<noteq> (k', t')"
    then show "blk k t \<inter> blk k' t' = {}"
      using blocks_okD(2) [where B = B, OF ok, of k t k' t'] sub by blast
  next
    fix k t assume "k < M" "t \<in> ?B' k"
    then show "sib t \<notin> ?B' k" using blocks_okD(3) [where B = B, OF ok, of k t] sub by auto
  qed
  have out: "x \<notin> blk n s" if "k \<le> M" "x div 2 ^ k \<in> ?B' k" for x k
  proof
    assume "x \<in> blk n s"
    moreover have "x \<in> blk k (x div 2 ^ k)" by (simp add: in_blk_iff)
    ultimately have "k = n" "x div 2 ^ k = s"
      using blocks_okD(2) [where B = B, OF ok n, of k "x div 2 ^ k"] that sub by blast+
    with that(2) show False by simp
  qed
  show "free_units M ?B' = free_units M B - blk n s"
  proof (intro set_eqI iffI)
    fix x assume "x \<in> free_units M ?B'"
    then obtain k where k: "k \<le> M" "x div 2 ^ k \<in> ?B' k" unfolding in_free_iff by blast
    then have "x \<in> free_units M B" unfolding in_free_iff using sub by blast
    with out [OF k] show "x \<in> free_units M B - blk n s" by blast
  next
    fix x assume x: "x \<in> free_units M B - blk n s"
    then obtain k where k: "k \<le> M" "x div 2 ^ k \<in> B k" unfolding in_free_iff Diff_iff by blast
    have "x div 2 ^ k \<in> ?B' k" using k(2) x by (cases "k = n") (auto simp: in_blk_iff)
    with k(1) show "x \<in> free_units M ?B'" unfolding in_free_iff by blast
  qed
qed

lemma put_blocks:
  assumes ok: "blocks_ok M B" and n: "n \<le> M" "s < 2 ^ (M - n)"
    and dis: "blk n s \<inter> free_units M B = {}" and sib: "n < M \<Longrightarrow> sib s \<notin> B n"
  shows "blocks_ok M (B(n := insert s (B n)))"
    "free_units M (B(n := insert s (B n))) = free_units M B \<union> blk n s" "s \<notin> B n"
proof -
  let ?B' = "B(n := insert s (B n))"
  have apart: "blk n s \<inter> blk k t = {}" if "k \<le> M" "t \<in> B k" for k t
    using dis that by (auto simp: free_units_def)
  then show "s \<notin> B n" using n(1) blk_nonempty [of s n] by blast
  have nsib: "t \<noteq> sib s" if "n < M" "t \<in> B n" for t using sib that by blast
  show "blocks_ok M ?B'"
    unfolding blocks_ok_def
  proof (intro conjI allI impI ballI)
    fix k assume "k \<le> M"
    then show "?B' k \<subseteq> {..< 2 ^ (M - k)}" using ok n by (auto simp: blocks_ok_def)
  next
    fix k k' t t' assume *: "k \<le> M" "k' \<le> M" "t \<in> ?B' k" "t' \<in> ?B' k'" "(k, t) \<noteq> (k', t')"
    consider "t \<in> B k" "t' \<in> B k'" | "k = n" "t = s" "t' \<in> B k'" | "k' = n" "t' = s" "t \<in> B k"
      using * by (auto split: if_splits)
    then show "blk k t \<inter> blk k' t' = {}"
    proof cases
      case 1
      then show ?thesis using blocks_okD(2) [where B = B, OF ok, of k t k' t'] * by blast
    qed (use apart * in blast)+
  next
    fix k t assume *: "k < M" "t \<in> ?B' k"
    show "sib t \<notin> ?B' k"
    proof (cases "k = n")
      case True
      then show ?thesis
        using * sib blocks_okD(3) [where B = B, OF ok, of n t] sib_neq [of s] sib_sib nsib
        by auto
    next
      case False
      then show ?thesis using * blocks_okD(3) [where B = B, OF ok, of k t] by auto
    qed
  qed
  show "free_units M ?B' = free_units M B \<union> blk n s"
    using n by (auto simp: in_free_iff in_blk_iff split: if_splits)
qed

text \<open>
  Coalescing makes the allocator complete: an aligned block whose units are all free lies
  in one free block of its order or above.
\<close>

lemma aligned_block_in_free:
  assumes ok: "blocks_ok M B" and sub: "blk n s \<subseteq> free_units M B" and n: "n \<le> M"
  shows "\<exists>k. n \<le> k \<and> k \<le> M \<and> s div 2 ^ (k - n) \<in> B k"
  using sub n
proof (induction n arbitrary: s)
  case 0
  have "s \<in> free_units M B" using 0 blk_nonempty [of s 0] by auto
  then show ?case by (auto simp: in_free_iff)
next
  case (Suc n)
  have half: "blk (Suc n) s = blk n (2 * s) \<union> blk n (2 * s + 1)"
    using blk_parent [of n "2 * s"] by (simp add: sib_def)
  have "\<exists>k. n \<le> k \<and> k \<le> M \<and> (2 * s) div 2 ^ (k - n) \<in> B k"
    using Suc.IH [of "2 * s"] Suc.prems half by simp
  then obtain k where k: "n \<le> k" "k \<le> M" "(2 * s) div 2 ^ (k - n) \<in> B k" by blast
  have "\<exists>k. n \<le> k \<and> k \<le> M \<and> (2 * s + 1) div 2 ^ (k - n) \<in> B k"
    using Suc.IH [of "2 * s + 1"] Suc.prems half by simp
  then obtain j where j: "n \<le> j" "j \<le> M" "(2 * s + 1) div 2 ^ (j - n) \<in> B j" by blast
  consider "n < k" | "n < j" | "k = n" "j = n" using k(1) j(1) by linarith
  then show ?case
  proof cases
    case 1
    then obtain d where "k = n + Suc d" by (metis less_iff_Suc_add add_Suc_right)
    with k show ?thesis by (intro exI [of _ k]) (simp add: div_mult2_eq)
  next
    case 2
    then obtain d where "j = n + Suc d" by (metis less_iff_Suc_add add_Suc_right)
    with j show ?thesis by (intro exI [of _ j]) (simp add: div_mult2_eq)
  next
    case 3
    with k j have "2 * s \<in> B n" "sib (2 * s) \<in> B n" by (simp_all add: sib_def)
    with blocks_okD(3) [OF ok, of n "2 * s"] Suc.prems(2) show ?thesis by simp
  qed
qed

section \<open>The code implements the sets of blocks\<close>

definition free_blocks :: "buddy_mem \<Rightarrow> nat \<Rightarrow> nat set" where
  "free_blocks b n = bits_of (bits b ! n)"

text \<open>
  The shape of the arrays, the summary bitmaps and the counters. Orders are below 31, so
  that \<open>1 << order\<close> is an int.
\<close>

definition rep_ok :: "buddy_mem \<Rightarrow> bool" where
  "rep_ok b \<longleftrightarrow> max_order b < 31 \<and>
     length (bits b) = Suc (max_order b) \<and> length (set_bit b) = Suc (max_order b) \<and>
     length (num_free b) = Suc (max_order b) \<and>
     (\<forall>n \<le> max_order b.
        length (bits b ! n) = (2 ^ (max_order b - n) + 63) div 64 \<and>
        length (bits b ! n) \<le> 64 * length (set_bit b ! n) \<and> 64 * length (set_bit b ! n) < 2 ^ 32 \<and>
        free_blocks b n \<subseteq> {..< 2 ^ (max_order b - n)} \<and>
        bits_of (set_bit b ! n) = (\<lambda>i. i div 64) ` free_blocks b n \<and>
        unat (num_free b ! n) = card (free_blocks b n))"

definition buddy_ok :: "buddy_mem \<Rightarrow> bool" where
  "buddy_ok b \<longleftrightarrow> rep_ok b \<and> blocks_ok (max_order b) (free_blocks b)"

abbreviation buddy_free :: "buddy_mem \<Rightarrow> nat set" where
  "buddy_free b \<equiv> free_units (max_order b) (free_blocks b)"

lemma rep_okD:
  assumes "rep_ok b" "n \<le> max_order b"
  shows "n < length (bits b)" "n < length (set_bit b)" "n < length (num_free b)"
    "64 * length (bits b ! n) < 2 ^ 32" "2 ^ (max_order b - n) \<le> 64 * length (bits b ! n)"
    "length (bits b ! n) = (2 ^ (max_order b - n) + 63) div 64"
    "length (bits b ! n) \<le> 64 * length (set_bit b ! n)" "64 * length (set_bit b ! n) < 2 ^ 32"
    "free_blocks b n \<subseteq> {..< 2 ^ (max_order b - n)}"
    "bits_of (set_bit b ! n) = (\<lambda>i. i div 64) ` free_blocks b n"
    "unat (num_free b ! n) = card (free_blocks b n)" "finite (free_blocks b n)"
    "(2::nat) ^ (max_order b - n) \<le> 2 ^ 30"
proof -
  show bound: "(2::nat) ^ (max_order b - n) \<le> 2 ^ 30"
    using assms(1) by (intro power_increasing) (auto simp: rep_ok_def)
  have all: "\<forall>n \<le> max_order b.
        length (bits b ! n) = (2 ^ (max_order b - n) + 63) div 64 \<and>
        length (bits b ! n) \<le> 64 * length (set_bit b ! n) \<and> 64 * length (set_bit b ! n) < 2 ^ 32 \<and>
        free_blocks b n \<subseteq> {..< 2 ^ (max_order b - n)} \<and>
        bits_of (set_bit b ! n) = (\<lambda>i. i div 64) ` free_blocks b n \<and>
        unat (num_free b ! n) = card (free_blocks b n)"
    using assms(1) unfolding rep_ok_def by (elim conjE)
  note this [rule_format, OF assms(2)]
  then show len: "length (bits b ! n) = (2 ^ (max_order b - n) + 63) div 64"
    "length (bits b ! n) \<le> 64 * length (set_bit b ! n)" "64 * length (set_bit b ! n) < 2 ^ 32"
    "bits_of (set_bit b ! n) = (\<lambda>i. i div 64) ` free_blocks b n"
    "unat (num_free b ! n) = card (free_blocks b n)" and sub: "free_blocks b n \<subseteq> {..< 2 ^ (max_order b - n)}"
    by - (elim conjE, assumption)+
  define p :: nat where "p = 2 ^ (max_order b - n)"
  have "64 * ((p + 63) div 64) < 2 ^ 32" "p \<le> 64 * ((p + 63) div 64)"
    using bound unfolding p_def [symmetric] by simp_all
  then show "64 * length (bits b ! n) < 2 ^ 32" "2 ^ (max_order b - n) \<le> 64 * length (bits b ! n)"
    unfolding len p_def by simp_all
  from sub show "finite (free_blocks b n)" by (rule finite_subset) simp
qed (use assms in \<open>simp_all add: rep_ok_def\<close>)

lemma in_word_iff: "j \<in> {64 * q ..< 64 * q + 64} \<longleftrightarrow> j div 64 = (q::nat)"
proof
  assume "j div 64 = q"
  then have "j = 64 * q + j mod 64" by (metis mult_div_mod_eq)
  moreover have "j mod 64 < 64" by simp
  ultimately show "j \<in> {64 * q ..< 64 * q + 64}" by (simp del: mod_less_divisor)
next
  assume "j \<in> {64 * q ..< 64 * q + 64}"
  then have "q \<le> j div 64" "j div 64 < Suc q"
    by (simp_all add: less_eq_div_iff_mult_less_eq div_less_iff_less_mult mult.commute)
  then show "j div 64 = q" by simp
qed

lemma summary_remove:
  fixes F :: "nat set"
  assumes "x \<in> F"
  shows "(if (F - {x}) \<inter> {64 * (x div 64) ..< 64 * (x div 64) + 64} = {}
    then (\<lambda>i. i div 64) ` F - {x div 64} else (\<lambda>i. i div 64) ` F) = (\<lambda>i. i div 64) ` (F - {x})"
proof -
  have "(F - {x}) \<inter> {64 * (x div 64) ..< 64 * (x div 64) + 64} = {} \<longleftrightarrow>
      (\<forall>j \<in> F - {x}. j div 64 \<noteq> x div 64)"
    unfolding disjoint_iff in_word_iff by blast
  then show ?thesis using assms by (auto simp: image_iff) (metis insertE insert_Diff)
qed

lemma unat_ucast_u32: "unat (x :: u64) < 2 ^ 32 \<Longrightarrow> unat (ucast x :: u32) = unat x"
  by (simp add: unsigned_ucast_eq take_bit_nat_eq_self)

lemma unat_ucast_u64 [simp]: "unat (ucast (x :: u32) :: u64) = unat x"
  using unsigned_less [of x, where 'a = nat] by (simp add: unsigned_ucast_eq take_bit_nat_eq_self)

lemma seg_borders:
  assumes "unat seg < 2 ^ 30" "dr_buddy_get_seg_borders seg = (l, h)"
  shows "unat l = 64 * (unat seg div 64)" "unat h = 64 * (unat seg div 64) + 64"
proof -
  define x :: u64 where "x = ucast seg div BITS_PER_LONG"
  have x: "unat x = unat seg div 64"
    by (simp add: x_def BITS_PER_LONG_def unat_div64)
  have lt: "unat x < 2 ^ 24" using assms(1) unfolding x by simp
  have 1: "unat (x * BITS_PER_LONG) = 64 * unat x"
    using lt by (simp add: BITS_PER_LONG_def unat_word_ariths)
  have 2: "unat ((x + 1) * BITS_PER_LONG) = 64 * unat x + 64"
    using lt by (simp add: BITS_PER_LONG_def unat_word_ariths)
  have lh: "l = ucast (x * BITS_PER_LONG)" "h = ucast ((x + 1) * BITS_PER_LONG)"
    using assms(2) by (simp_all add: dr_buddy_get_seg_borders_def x_def)
  show "unat l = 64 * (unat seg div 64)" "unat h = 64 * (unat seg div 64) + 64"
    unfolding lh using lt 1 2 x by (simp_all add: unat_ucast_u32)
qed

lemma upper_bitmap_ok:
  assumes seg: "unat seg < 2 ^ 30" "unat seg < 64 * length (bits b ! n)"
    and len: "n < length (bits b)" "n < length (set_bit b)" "64 * length (bits b ! n) < 2 ^ 32"
    and up: "length (bits b ! n) \<le> 64 * length (set_bit b ! n)"
  shows "\<exists>s'. dr_buddy_update_upper_bitmap b seg n = Some (b\<lparr>set_bit := (set_bit b)[n := s']\<rparr>) \<and>
    length s' = length (set_bit b ! n) \<and>
    bits_of s' = (if bits_of (bits b ! n) \<inter> {64 * (unat seg div 64) ..< 64 * (unat seg div 64) + 64} = {}
      then bits_of (set_bit b ! n) - {unat seg div 64} else bits_of (set_bit b ! n))"
proof -
  obtain l h where lh: "dr_buddy_get_seg_borders seg = (l, h)" by fastforce
  note u = seg_borders [OF seg(1) lh]
  define q where "q = unat seg div 64"
  have q: "q < length (bits b ! n)" using seg(2) unfolding q_def by (simp add: div_less_iff_less_mult mult.commute)
  have hb: "unat h \<le> 64 * length (bits b ! n)" using q unfolding u(2) q_def [symmetric] by linarith
  have c64: "64 * length (bits b ! n) < 2 ^ 64" using len(3) by (rule less_trans) simp
  have le: "unat l \<le> unat h" using u by simp
  have cl: "unat (ucast l :: u64) = unat l" "unat (ucast h :: u64) = unat h" by simp_all
  obtain m where m: "bitmap_find_first_bit (bits b ! n) (ucast l) (ucast h) = Some m" "unat m \<le> unat h"
    using bm.first_ok [of "ucast l" "ucast h" "bits b ! n", unfolded cl, OF le hb c64] by blast
  have mh: "(ucast m :: u32) = h \<longleftrightarrow> m = ucast h"
    using m(2) len(3) hb by (simp add: word_unat_eq_iff unat_ucast_u32)
  have none: "m = ucast h \<longleftrightarrow> bits_of (bits b ! n) \<inter> {unat l ..< unat h} = {}"
    using bm.first_none [of "ucast l" "ucast h" "bits b ! n", unfolded cl, OF le hb c64] m(1) by simp
  have i: "unat (ucast seg div BITS_PER_LONG :: u64) = unat seg div 64"
    by (simp add: BITS_PER_LONG_def unat_div64)
  obtain s' where s': "bitmap_clear_bit (set_bit b ! n) (ucast seg div BITS_PER_LONG) = Some s'"
      "length s' = length (set_bit b ! n)" "bits_of s' = bits_of (set_bit b ! n) - {unat seg div 64}"
    using bm.clr_ok [of "ucast seg div BITS_PER_LONG" "set_bit b ! n", unfolded i] q up
    unfolding q_def [symmetric] by auto
  show ?thesis
  proof (cases "m = ucast h")
    case True
    with s' m mh none len lh u show ?thesis
      by (intro exI [of _ s']) (simp add: dr_buddy_update_upper_bitmap_def arr_get_def)
  next
    case False
    with m mh none len lh u show ?thesis
      by (intro exI [of _ "set_bit b ! n"]) (simp add: dr_buddy_update_upper_bitmap_def arr_get_def)
  qed
qed

text \<open>A change of one order keeps the shape when that order keeps it.\<close>

lemma rep_ok_update:
  assumes "rep_ok b" and n: "n \<le> max_order b" and "length bs = length (bits b ! n)"
    and "length s = length (set_bit b ! n)" and "bits_of bs \<subseteq> {..< 2 ^ (max_order b - n)}"
    and "bits_of s = (\<lambda>i. i div 64) ` bits_of bs" and "unat c = card (bits_of bs)"
  shows "rep_ok (b\<lparr>bits := (bits b)[n := bs], set_bit := (set_bit b)[n := s],
      num_free := (num_free b)[n := c]\<rparr>)"
    and "free_blocks (b\<lparr>bits := (bits b)[n := bs], set_bit := (set_bit b)[n := s],
      num_free := (num_free b)[n := c]\<rparr>) = (free_blocks b)(n := bits_of bs)"
proof -
  let ?b = "b\<lparr>bits := (bits b)[n := bs], set_bit := (set_bit b)[n := s], num_free := (num_free b)[n := c]\<rparr>"
  note D = rep_okD [OF assms(1)]
  show fb: "free_blocks ?b = (free_blocks b)(n := bits_of bs)"
    using D(1) [OF n] by (auto simp: free_blocks_def fun_eq_iff nth_list_update)
  show "rep_ok ?b"
    unfolding rep_ok_def
  proof (intro conjI allI impI, goal_cases)
    case (5 k)
    then show ?case using assms(3) D(6) [of k] D(1) [of k] by (cases "k = n") simp_all
  next
    case (6 k)
    then show ?case using assms(3,4) D(7) [of k] D(1,2) [of k] by (cases "k = n") simp_all
  next
    case (7 k)
    then show ?case using assms(4) D(8) [of k] D(2) [of k] by (cases "k = n") simp_all
  next
    case (8 k)
    then show ?case using assms(5) D(9) [of k] by (cases "k = n") (simp_all add: fb)
  next
    case (9 k)
    then show ?case using assms(6) D(10) [of k] D(2) [of k] by (cases "k = n") (simp_all add: fb)
  next
    case (10 k)
    then show ?case using assms(7) D(11) [of k] D(3) [of k] by (cases "k = n") (simp_all add: fb)
  qed (use assms(1) in \<open>simp_all add: rep_ok_def\<close>)
qed

lemma take_ok:
  assumes ok: "rep_ok b" "n \<le> max_order b" and seg: "unat seg \<in> free_blocks b n" "unat idx = unat seg"
  shows "\<exists>b'. buddy_take b idx seg n = Some b' \<and> rep_ok b' \<and> max_order b' = max_order b \<and>
    free_blocks b' = (free_blocks b)(n := free_blocks b n - {unat seg})"
proof -
  note D = rep_okD [OF ok]
  have lt: "unat seg < 2 ^ (max_order b - n)" using seg(1) D(9) by blast
  then have lt': "unat seg < 2 ^ 30" "unat seg < 64 * length (bits b ! n)" using D(5,13) by linarith+
  obtain bs where bs: "bitmap_clear_bit (bits b ! n) idx = Some bs" "length bs = length (bits b ! n)"
      "bits_of bs = free_blocks b n - {unat seg}"
    using bm.clr_ok [of idx "bits b ! n"] lt'(2) seg(2) by (auto simp: free_blocks_def)
  let ?b = "b\<lparr>bits := (bits b)[n := bs]\<rparr>"
  have sel: "bits ?b ! n = bs" "set_bit ?b = set_bit b" using D(1) by simp_all
  have nb: "n < length (bits ?b)" using D(1) by simp
  obtain s where s: "dr_buddy_update_upper_bitmap ?b seg n = Some (?b\<lparr>set_bit := (set_bit b)[n := s]\<rparr>)"
      "length s = length (set_bit b ! n)" "bits_of s = (\<lambda>i. i div 64) ` bits_of bs"
    using upper_bitmap_ok [OF lt'(1), of ?b n, unfolded sel bs(2,3), OF lt'(2) nb D(2,4,7),
        unfolded D(10) bs(3) [symmetric], unfolded summary_remove [OF seg(1), folded bs(3)]] by (elim exE conjE) rule
  define c where "c = num_free b ! n - 1"
  have "card (free_blocks b n) = Suc (card (bits_of bs))"
    using card.remove [OF D(12) seg(1)] by (simp only: bs(3))
  then have c: "unat c = card (bits_of bs)"
    unfolding c_def using D(11) by (subst unat_sub) (simp_all add: word_le_nat_alt)
  have sub: "bits_of bs \<subseteq> {..< 2 ^ (max_order b - n)}" using D(9) bs(3) by blast
  note R = rep_ok_update [OF ok bs(2) s(2) sub s(3) c]
  have "buddy_take b idx seg n = Some (b\<lparr>bits := (bits b)[n := bs],
      set_bit := (set_bit b)[n := s], num_free := (num_free b)[n := c]\<rparr>)"
    using D(1,2,3) bs(1) s(1) by (simp add: buddy_take_def arr_get_def arr_upd_def c_def)
  with R bs(3) show ?thesis by simp
qed

lemma put_ok:
  assumes ok: "rep_ok b" "n \<le> max_order b"
    and idx: "unat idx < 2 ^ (max_order b - n)" "unat idx \<notin> free_blocks b n"
  shows "\<exists>b'. buddy_put b idx n = Some b' \<and> rep_ok b' \<and> max_order b' = max_order b \<and>
    free_blocks b' = (free_blocks b)(n := insert (unat idx) (free_blocks b n))"
proof -
  note D = rep_okD [OF ok]
  have lt: "unat idx < 64 * length (bits b ! n)" using idx(1) D(5) by linarith
  obtain bs where bs: "bitmap_set_bit (bits b ! n) idx = Some bs" "length bs = length (bits b ! n)"
      "bits_of bs = insert (unat idx) (free_blocks b n)"
    using bm.put_ok [OF lt] by (auto simp: free_blocks_def)
  have q: "unat (idx div BITS_PER_LONG) = unat idx div 64" by (simp add: BITS_PER_LONG_def unat_div64)
  have "unat idx div 64 < length (bits b ! n)" using lt by (simp add: div_less_iff_less_mult mult.commute)
  then have "unat (idx div BITS_PER_LONG) < 64 * length (set_bit b ! n)" unfolding q using D(7) by linarith
  then obtain s where s: "bitmap_set_bit (set_bit b ! n) (idx div BITS_PER_LONG) = Some s"
      "length s = length (set_bit b ! n)" "bits_of s = (\<lambda>i. i div 64) ` bits_of bs"
    using bm.put_ok [of "idx div BITS_PER_LONG" "set_bit b ! n"] D(10) by (auto simp: q bs(3))
  define c where "c = num_free b ! n + 1"
  have sub: "bits_of bs \<subseteq> {..< 2 ^ (max_order b - n)}" using D(9) bs(3) idx(1) by simp
  have card: "card (bits_of bs) = Suc (card (free_blocks b n))"
    using idx(2) D(12) by (simp add: bs(3))
  have "card (bits_of bs) \<le> card {..< (2::nat) ^ (max_order b - n)}" by (rule card_mono) (use sub in auto)
  then have "card (bits_of bs) < 2 ^ 32" using D(13) by simp
  then have c: "unat c = card (bits_of bs)"
    unfolding c_def using D(11) card by (simp add: unat_word_ariths)
  note R = rep_ok_update [OF ok bs(2) s(2) sub s(3) c]
  have "buddy_put b idx n = Some (b\<lparr>bits := (bits b)[n := bs],
      set_bit := (set_bit b)[n := s], num_free := (num_free b)[n := c]\<rparr>)"
    using D(1,2,3) bs(1) s(1) by (simp add: buddy_put_def arr_get_def arr_upd_def c_def)
  with R bs(3) show ?thesis by simp
qed

lemma unat_xor_1: "unat (x XOR 1 :: 'a::len word) = sib (unat x)"
  by (simp add: unsigned_xor_eq xor_Suc_0_eq sib_def)

lemma unat_push_bit_u32: "unat (x :: u32) * 2 ^ k < 2 ^ 32 \<Longrightarrow> unat (push_bit k x) = unat x * 2 ^ k"
  by (simp only: unsigned_push_bit_eq) (simp add: push_bit_eq_mult take_bit_nat_eq_self)

lemma unat_int_shl1: "k < 31 \<Longrightarrow> unat (int_shl1 k) = 2 ^ k"
  using power_strict_increasing [of k 31 "2::nat"] unat_push_bit_u32 [of 1 k] by (simp add: int_shl1_def)

lemma sint_u32_nonneg:
  assumes "unat (x :: u32) < 2 ^ 31"
  shows "sint x = int (unat x)"
proof -
  have u: "uint x = int (unat x)" by simp
  have "signed_take_bit 31 (int (unat x)) = int (unat x)"
    using assms by (intro signed_take_bit_int_eq_self) (simp_all del: of_nat_unat int_eq_iff)
  then show ?thesis by (simp only: sint_uint u) simp
qed

lemma unat_int_to_ulong: "unat x < 2 ^ 31 \<Longrightarrow> unat (int_to_ulong x) = unat x"
  by (simp add: int_to_ulong_def scast_eq sint_u32_nonneg unat_of_nat del: of_nat_unat)

text \<open>The two level search finds the lowest free block of an order.\<close>

lemma dr_find_first_bit_ok:
  assumes ok: "rep_ok b" "n \<le> max_order b" and ne: "free_blocks b n \<noteq> {}"
  shows "\<exists>seg. dr_find_first_bit (set_bit b ! n) (bits b ! n) (int_shl1 (max_order b - n)) = Some seg \<and>
    unat seg \<in> free_blocks b n \<and> (\<forall>j \<in> free_blocks b n. unat seg \<le> j)"
proof -
  note D = rep_okD [OF ok]
  define sz where "sz = int_shl1 (max_order b - n)"
  define p :: nat where "p = 2 ^ (max_order b - n)"
  have p: "0 < p" "p \<le> 2 ^ 30" using D(13) by (simp_all add: p_def)
  have "max_order b - n < 31" using ok(1) unfolding rep_ok_def by linarith
  then have usz: "unat sz = p" unfolding sz_def p_def by (rule unat_int_shl1)
  define ss where "ss = (ucast ((ucast (sz - 1) :: u64) div BITS_PER_LONG + 1) :: u32)"
  have "1 \<le> sz" using usz p by (simp add: word_le_nat_alt)
  then have s1: "unat (sz - 1) = p - 1" using usz by (simp add: unat_sub_no_wrap)
  have "unat ((ucast (sz - 1) :: u64) div BITS_PER_LONG + 1) = (p - 1) div 64 + 1"
    using p by (simp add: unat_word_ariths BITS_PER_LONG_def unat_div64 s1)
  then have uss: "unat ss = (p - 1) div 64 + 1"
    unfolding ss_def using p by (subst unat_ucast_u32) simp_all
  have len: "length (bits b ! n) = (p - 1) div 64 + 1"
    unfolding D(6) p_def [symmetric] using p(1) by (cases p) simp_all
  obtain r where r: "bitmap_find_first_bit (set_bit b ! n) 0 (ucast ss) = Some r" "unat r \<le> unat ss"
      "\<forall>j. j < unat r \<longrightarrow> j \<notin> bits_of (set_bit b ! n)" "unat r < unat ss \<longrightarrow> unat r \<in> bits_of (set_bit b ! n)"
    using bm.first_ok [of 0 "ucast ss" "set_bit b ! n"] D(7,8) len uss by auto
  define x where "x = Min (free_blocks b n)"
  have x: "x \<in> free_blocks b n" "\<forall>j \<in> free_blocks b n. x \<le> j"
    unfolding x_def using D(12) ne by auto
  have xp: "x < p" using x(1) D(9) unfolding p_def by blast
  have mem: "x div 64 \<in> bits_of (set_bit b ! n)" using x(1) unfolding D(10) by blast
  have "x div 64 < unat ss" unfolding uss using xp by (simp add: less_Suc_eq_le div_le_mono)
  moreover have rle: "unat r \<le> x div 64" using r(3) mem not_le_imp_less by blast
  ultimately have "unat r \<in> bits_of (set_bit b ! n)" using r(4) by linarith
  then obtain y where "y \<in> free_blocks b n" "unat r = y div 64" unfolding D(10) by blast
  with x(2) rle have rx: "unat r = x div 64" by (simp add: div_le_mono le_antisym)
  have ur: "unat (r * BITS_PER_LONG) = 64 * (x div 64)"
    using xp p(2) rx by (simp add: BITS_PER_LONG_def unat_word_ariths)
  have le: "unat (r * BITS_PER_LONG) \<le> unat (ucast sz :: u64)" "unat (ucast sz :: u64) \<le> 64 * length (bits b ! n)"
    "64 * length (bits b ! n) < 2 ^ 64"
    unfolding ur using xp usz D(4,5) p_def by simp_all
  obtain q where q: "bitmap_find_first_bit (bits b ! n) (r * BITS_PER_LONG) (ucast sz) = Some q"
      "\<forall>j. 64 * (x div 64) \<le> j \<and> j < unat q \<longrightarrow> j \<notin> free_blocks b n" "unat q < p \<longrightarrow> unat q \<in> free_blocks b n"
    using bm.first_ok [OF le] unfolding ur free_blocks_def unat_ucast_u64 usz by blast
  have "64 * (x div 64) \<le> x" by simp
  with q(2) x(1) have "unat q \<le> x" by (meson not_le_imp_less)
  then have qx: "unat q = x" using q(3) x(2) xp by force
  have "unat (ucast q :: u32) = x" using qx xp p(2) by (subst unat_ucast_u32) simp_all
  moreover have "dr_find_first_bit (set_bit b ! n) (bits b ! n) sz = Some (ucast q)"
    using r(1) q(1) unfolding dr_find_first_bit_def ss_def by simp
  ultimately show ?thesis using x unfolding sz_def by auto
qed

lemma find_order_ok:
  assumes "rep_ok b"
  shows "(\<exists>k. find_order b n = Some (Some k) \<and> n \<le> k \<and> k \<le> max_order b \<and> free_blocks b k \<noteq> {} \<and>
       (\<forall>j. n \<le> j \<and> j < k \<longrightarrow> free_blocks b j = {})) \<or>
    (find_order b n = Some None \<and> (\<forall>j. n \<le> j \<and> j \<le> max_order b \<longrightarrow> free_blocks b j = {}))"
  using assms
proof (induction b n rule: find_order.induct)
  case (1 b n)
  show ?case
  proof (cases "n \<le> max_order b")
    case False
    then have "find_order b n = Some None" by (subst find_order.simps) simp
    with False show ?thesis by auto
  next
    case True
    note D = rep_okD [OF 1(2) True]
    have get: "arr_get (num_free b) n = Some (num_free b ! n)" using D(3) by (simp add: arr_get_def)
    have z: "num_free b ! n = 0 \<longleftrightarrow> free_blocks b n = {}"
      using card_0_eq [OF D(12)] D(11) by (metis unsigned_0 unsigned_eq_0_iff)
    show ?thesis
    proof (cases "free_blocks b n = {}")
      case False
      then have "find_order b n = Some (Some n)" using True get z by (subst find_order.simps) simp
      with False True show ?thesis by (intro disjI1 exI [of _ n]) auto
    next
      case em: True
      then have rec: "find_order b n = find_order b (Suc n)" using True get z by (subst find_order.simps) simp
      have "\<not> num_free b ! n \<noteq> 0" using em z by simp
      from 1(1) [OF True get this 1(2)] show ?thesis
        unfolding rec using em True by (metis Suc_leD Suc_leI le_neq_implies_less order_refl)
    qed
  qed
qed

text \<open>
  A block in hand: it belongs to the memory, and none of its units is free. The splitting
  loop keeps its left half in hand and frees the right one.
\<close>

definition in_hand :: "buddy_mem \<Rightarrow> nat \<Rightarrow> nat \<Rightarrow> bool" where
  "in_hand b n s \<longleftrightarrow> n \<le> max_order b \<and> s < 2 ^ (max_order b - n) \<and> blk n s \<inter> buddy_free b = {}"

lemma half_lt:
  assumes "n < M" "t < (2::nat) ^ (M - n)"
  shows "t div 2 < 2 ^ (M - Suc n)" "sib t < 2 ^ (M - n)"
proof -
  obtain d where d: "M - n = Suc d" "M - Suc n = d" using assms(1) by (metis Suc_diff_Suc)
  show "t div 2 < 2 ^ (M - Suc n)" using assms(2) unfolding d by (simp add: div_less_iff_less_mult)
  then have "sib t div 2 < 2 ^ (M - Suc n)" by (simp only: sib_div)
  then show "sib t < 2 ^ (M - n)" unfolding d by (simp add: div_less_iff_less_mult)
qed

lemma split_loop_ok:
  assumes "buddy_ok b" "in_hand b (order + d) (unat seg)"
  shows "\<exists>b' seg'. split_loop b seg order d = Some (b', seg') \<and> buddy_ok b' \<and> max_order b' = max_order b \<and>
    unat seg' = unat seg * 2 ^ d \<and> in_hand b' order (unat seg') \<and>
    buddy_free b' \<union> blk order (unat seg') = buddy_free b \<union> blk (order + d) (unat seg)"
  using assms
proof (induction d arbitrary: b seg)
  case 0
  then show ?case by simp
next
  case (Suc d)
  let ?M = "max_order b" and ?n = "order + d" and ?s = "2 * unat seg"
  have ok: "rep_ok b" "blocks_ok ?M (free_blocks b)" using Suc.prems(1) by (simp_all add: buddy_ok_def)
  have n: "?n < ?M" and s: "unat seg < 2 ^ (?M - Suc ?n)" and dis: "blk (Suc ?n) (unat seg) \<inter> buddy_free b = {}"
    using Suc.prems(2) by (simp_all add: in_hand_def)
  obtain e where e: "?M - ?n = Suc e" "?M - Suc ?n = e" using n by (metis Suc_diff_Suc)
  have s2: "?s < 2 ^ (?M - ?n)" using s unfolding e by simp
  have sib_s: "sib ?s = Suc ?s" by (simp add: sib_def)
  have lt: "sib ?s < 2 ^ (?M - ?n)" using half_lt(2) [OF n s2] .
  have par: "blk (Suc ?n) (unat seg) = blk ?n ?s \<union> blk ?n (sib ?s)" using blk_parent [of ?n ?s] by simp
  have b30: "(2::nat) ^ (?M - ?n) \<le> 2 ^ 30" using rep_okD(13) [OF ok(1), of ?n] n by simp
  have us: "unat (push_bit 1 seg) = ?s" using unat_push_bit_u32 [of seg 1] s2 b30 by simp
  have ui: "unat (int_to_ulong (push_bit 1 seg XOR 1)) = sib ?s"
    using unat_int_to_ulong [of "push_bit 1 seg XOR 1"] lt b30 unfolding unat_xor_1 us by simp
  have d2: "blk ?n (sib ?s) \<inter> buddy_free b = {}" "blk ?n ?s \<inter> buddy_free b = {}" using dis par by auto
  have nin: "?s \<notin> free_blocks b ?n" 
    using d2(2) n blk_nonempty [of ?s ?n] free_blk_sub [of ?n ?M ?s "free_blocks b"] by auto
  note P = put_blocks [OF ok(2) less_imp_le [OF n] lt d2(1), unfolded sib_sib, OF nin]
  obtain b1 where b1: "buddy_put b (int_to_ulong (push_bit 1 seg XOR 1)) ?n = Some b1" "rep_ok b1"
      "max_order b1 = ?M" "free_blocks b1 = (free_blocks b)(?n := insert (sib ?s) (free_blocks b ?n))"
    using put_ok [OF ok(1) less_imp_le [OF n], of "int_to_ulong (push_bit 1 seg XOR 1)"] lt P(3) unfolding ui by blast
  have fu: "buddy_free b1 = buddy_free b \<union> blk ?n (sib ?s)" unfolding b1(3,4) by (rule P(2))
  have "buddy_ok b1" using b1(2) P(1) by (simp add: buddy_ok_def b1(3,4))
  moreover have "in_hand b1 ?n (unat (push_bit 1 seg))"
    using n s2 d2(2) blk_disjoint [of ?s "sib ?s" ?n] sib_neq [of ?s] 
    unfolding in_hand_def us b1(3) fu [unfolded b1(3)] by auto
  ultimately obtain b' seg' where "split_loop b1 (push_bit 1 seg) order d = Some (b', seg')" "buddy_ok b'"
      "max_order b' = ?M" "unat seg' = ?s * 2 ^ d" "in_hand b' order (unat seg')"
      "buddy_free b' \<union> blk order (unat seg') = buddy_free b1 \<union> blk ?n ?s"
    using Suc.IH [of b1 "push_bit 1 seg"] unfolding us b1(3) by blast
  then show ?case using b1(1) par by (intro exI [of _ b'] exI [of _ seg']) (auto simp: fu)
qed

text \<open>The merging loop takes the buddy of the block in hand while it is free, and ends.\<close>

lemma merge_step:
  assumes b: "buddy_ok b" "in_hand b n (unat seg)" and t: "sib (unat seg) \<in> free_blocks b n"
  shows "n < max_order b" "\<exists>b'. buddy_take b (ucast (seg XOR 1)) (seg XOR 1) n = Some b' \<and> buddy_ok b' \<and>
    max_order b' = max_order b \<and> in_hand b' (Suc n) (unat (drop_bit 1 seg)) \<and>
    buddy_free b' \<union> blk (Suc n) (unat (drop_bit 1 seg)) = buddy_free b \<union> blk n (unat seg)"
proof -
  let ?M = "max_order b" and ?s = "unat seg"
  have ok: "rep_ok b" "blocks_ok ?M (free_blocks b)" using b(1) by (simp_all add: buddy_ok_def)
  have n: "n \<le> ?M" and s: "?s < 2 ^ (?M - n)" and dis: "blk n ?s \<inter> buddy_free b = {}"
    using b(2) by (simp_all add: in_hand_def)
  have "sib ?s < 2 ^ (?M - n)" using t rep_okD(9) [OF ok(1) n] by blast
  then show n': "n < ?M" using s n sib_neq [of ?s] by (cases "n = ?M") auto
  note T = take_blocks [OF ok(2) n t]
  obtain b' where b': "buddy_take b (ucast (seg XOR 1)) (seg XOR 1) n = Some b'" "rep_ok b'" "max_order b' = ?M"
      "free_blocks b' = (free_blocks b)(n := free_blocks b n - {sib ?s})"
    using take_ok [OF ok(1) n, of "seg XOR 1" "ucast (seg XOR 1)"] t unfolding unat_xor_1 unat_ucast_u64 by blast
  have fu: "buddy_free b' = buddy_free b - blk n (sib ?s)" unfolding b'(3,4) by (rule T(2))
  have ud: "unat (drop_bit 1 seg) = ?s div 2" by (simp add: drop_bit_eq_div unat_div_distrib)
  note par = blk_parent [of n ?s]
  note sub = free_blk_sub [of n ?M "sib ?s" "free_blocks b", OF n t]
  have "buddy_ok b'" using b'(2) T(1) by (simp add: buddy_ok_def b'(3,4))
  moreover have "in_hand b' (Suc n) (unat (drop_bit 1 seg))"
    using n' half_lt(1) [OF n' s] dis unfolding in_hand_def ud par b'(3) fu [unfolded b'(3)] by auto
  moreover have "buddy_free b' \<union> blk (Suc n) (unat (drop_bit 1 seg)) = buddy_free b \<union> blk n ?s"
    using sub unfolding ud par fu by blast
  ultimately show "\<exists>b'. buddy_take b (ucast (seg XOR 1)) (seg XOR 1) n = Some b' \<and> buddy_ok b' \<and>
    max_order b' = max_order b \<and> in_hand b' (Suc n) (unat (drop_bit 1 seg)) \<and>
    buddy_free b' \<union> blk (Suc n) (unat (drop_bit 1 seg)) = buddy_free b \<union> blk n (unat seg)"
    using b'(1,3) by blast
qed

lemma merge_test:
  fixes seg :: u32
  assumes "buddy_ok b" "in_hand b n (unat seg)"
  shows "n < length (bits b)"
    "bitmap_test_bit (bits b ! n) (ucast (seg XOR 1)) = Some (sib (unat seg) \<in> free_blocks b n)"
proof -
  have ok: "rep_ok b" and n: "n \<le> max_order b" and s: "unat seg < 2 ^ (max_order b - n)"
    using assms by (simp_all add: buddy_ok_def in_hand_def)
  note D = rep_okD [OF ok n]
  show "n < length (bits b)" by (rule D(1))
  have "sib (unat seg) < 64 * length (bits b ! n)"
  proof (cases "n = max_order b")
    case True
    with s D(6) show ?thesis by (simp add: sib_def)
  next
    case False
    with n s D(5) half_lt(2) [of n "max_order b" "unat seg"] show ?thesis by simp
  qed
  then show "bitmap_test_bit (bits b ! n) (ucast (seg XOR 1)) = Some (sib (unat seg) \<in> free_blocks b n)"
    using bm.test_ok [of "ucast (seg XOR 1)" "bits b ! n"] unfolding free_blocks_def unat_ucast_u64 unat_xor_1 by blast
qed

lemma merge_loop_ok:
  assumes "buddy_ok b" "in_hand b n (unat seg)"
  shows "\<exists>b' seg' k. merge_loop b seg n = Some (b', seg', k) \<and> buddy_ok b' \<and> max_order b' = max_order b \<and>
    in_hand b' k (unat seg') \<and> sib (unat seg') \<notin> free_blocks b' k \<and>
    buddy_free b' \<union> blk k (unat seg') = buddy_free b \<union> blk n (unat seg)"
  using assms
proof (induction "max_order b - n" arbitrary: b n seg rule: less_induct)
  case less
  note T = merge_test [OF less.prems]
  show ?case
  proof (cases "sib (unat seg) \<in> free_blocks b n")
    case False
    then have "merge_loop b seg n = Some (b, seg, n)"
      using T by (subst merge_loop.simps) (simp add: arr_get_def)
    with False less.prems show ?thesis by blast
  next
    case True
    note S = merge_step [OF less.prems True]
    obtain b1 where b1: "buddy_take b (ucast (seg XOR 1)) (seg XOR 1) n = Some b1" "buddy_ok b1"
      "max_order b1 = max_order b" "in_hand b1 (Suc n) (unat (drop_bit 1 seg))"
      "buddy_free b1 \<union> blk (Suc n) (unat (drop_bit 1 seg)) = buddy_free b \<union> blk n (unat seg)"
      using S(2) by blast
    have "merge_loop b seg n = merge_loop b1 (drop_bit 1 seg) (Suc n)"
      using T True b1(1) by (subst merge_loop.simps) (simp add: arr_get_def)
    moreover have "max_order b1 - Suc n < max_order b - n" using S(1) b1(3) by linarith
    ultimately show ?thesis using less.hyps [OF _ b1(2,4)]
      unfolding b1(3) b1(5) [unfolded b1(3)] by simp
  qed
qed

lemma in_hand_take:
  assumes "buddy_ok b" "n \<le> max_order b" "s \<in> free_blocks b n"
    and b': "max_order b' = max_order b" "free_blocks b' = (free_blocks b)(n := free_blocks b n - {s})" "rep_ok b'"
  shows "buddy_ok b'" "in_hand b' n s" "buddy_free b' = buddy_free b - blk n s" "blk n s \<subseteq> buddy_free b"
proof -
  have ok: "blocks_ok (max_order b) (free_blocks b)" using assms(1) by (simp add: buddy_ok_def)
  note T = take_blocks [OF ok assms(2,3)]
  show "buddy_ok b'" using T(1) b' by (simp add: buddy_ok_def)
  show fu: "buddy_free b' = buddy_free b - blk n s" unfolding b'(1,2) by (rule T(2))
  show "in_hand b' n s" using blocks_okD(1) [OF ok assms(2,3)] assms(2)
    unfolding in_hand_def fu b'(1) fu [unfolded b'(1)] by auto
  show "blk n s \<subseteq> buddy_free b" using assms(2,3) by (rule free_blk_sub)
qed

lemma dr_buddy_alloc_found:
  assumes b: "buddy_ok b" and fo: "find_order b order = Some (Some k)" "order \<le> k" "k \<le> max_order b"
    "free_blocks b k \<noteq> {}"
  shows "\<exists>b' r. dr_buddy_alloc_mem b order = Some (b', r) \<and> buddy_ok b' \<and> max_order b' = max_order b \<and>
    2 ^ order dvd unat r \<and> blk order (unat r div 2 ^ order) \<subseteq> buddy_free b \<and>
    buddy_free b' = buddy_free b - blk order (unat r div 2 ^ order)"
proof -
  let ?M = "max_order b"
  have rep: "rep_ok b" using b by (simp add: buddy_ok_def)
  note D = rep_okD [OF rep fo(3)]
  define m where "m = int_shl1 (?M - k)"
  have "?M - k < 31" using rep unfolding rep_ok_def by linarith
  then have um: "unat m = 2 ^ (?M - k)" unfolding m_def by (rule unat_int_shl1)
  obtain seg where seg: "dr_find_first_bit (set_bit b ! k) (bits b ! k) m = Some seg" "unat seg \<in> free_blocks b k"
    using dr_find_first_bit_ok [OF rep fo(3,4)] unfolding m_def by blast
  have lt: "unat seg < 2 ^ (?M - k)" using seg(2) D(9) by blast
  have "unat m < 2 ^ 31" "unat seg < 2 ^ 31" using lt D(13) um by simp_all
  then have cmp: "\<not> sint m \<le> sint seg" using lt um by (simp only: sint_u32_nonneg of_nat_le_iff not_le)
  have ui: "unat (int_to_ulong seg) = unat seg" using lt D(13) by (simp add: unat_int_to_ulong)
  obtain b1 where b1: "buddy_take b (int_to_ulong seg) seg k = Some b1" "rep_ok b1" "max_order b1 = ?M"
      "free_blocks b1 = (free_blocks b)(k := free_blocks b k - {unat seg})"
    using take_ok [OF rep fo(3) seg(2) ui] by blast
  note H = in_hand_take [OF b fo(3) seg(2) b1(3,4,2)]
  have kd: "order + (k - order) = k" using fo(2) by simp
  obtain b' seg' where b': "split_loop b1 seg order (k - order) = Some (b', seg')" "buddy_ok b'"
      "max_order b' = ?M" "in_hand b' order (unat seg')"
      "buddy_free b' \<union> blk order (unat seg') = buddy_free b1 \<union> blk k (unat seg)"
    using split_loop_ok [of b1 order "k - order" seg] H(1,2) unfolding kd b1(3) by blast
  have "unat seg' < 2 ^ (?M - order)" using b'(3,4) by (simp add: in_hand_def)
  then have "unat seg' * 2 ^ order < 2 ^ (?M - order) * 2 ^ order" by simp
  also have "\<dots> = 2 ^ ?M" using fo(2,3) by (simp flip: power_add)
  also have "(2::nat) ^ ?M \<le> 2 ^ 30" using rep by (intro power_increasing) (auto simp: rep_ok_def)
  finally have ur: "unat (push_bit order seg') = unat seg' * 2 ^ order"
    by (intro unat_push_bit_u32) simp
  have all: "buddy_free b' \<union> blk order (unat seg') = buddy_free b" using b'(5) H(3,4) by blast
  have "blk order (unat seg') \<inter> buddy_free b' = {}" using b'(4) by (simp add: in_hand_def)
  with all have fr: "buddy_free b' = buddy_free b - blk order (unat seg')" "blk order (unat seg') \<subseteq> buddy_free b"
    by blast+
  have "dr_buddy_alloc_mem b order = Some (b', push_bit order seg')"
    using cmp fo(1) D(1,2) seg(1) b1(1) b'(1)
    by (simp add: dr_buddy_alloc_mem_def arr_get_def c_assert_def m_def)
  with b'(2,3) fr ur show ?thesis by simp
qed

lemma dr_buddy_alloc_ok:
  assumes b: "buddy_ok b" "order \<le> max_order b"
  shows "if \<exists>s. blk order s \<subseteq> buddy_free b then
     \<exists>b' r. dr_buddy_alloc_mem b order = Some (b', r) \<and> buddy_ok b' \<and> max_order b' = max_order b \<and>
       2 ^ order dvd unat r \<and> blk order (unat r div 2 ^ order) \<subseteq> buddy_free b \<and>
       buddy_free b' = buddy_free b - blk order (unat r div 2 ^ order)
     else dr_buddy_alloc_mem b order = Some (b, - 1)"
proof -
  have rep: "rep_ok b" and ok: "blocks_ok (max_order b) (free_blocks b)" using b by (simp_all add: buddy_ok_def)
  from find_order_ok [OF rep, of order] show ?thesis
  proof (elim disjE exE conjE)
    fix k assume fo: "find_order b order = Some (Some k)" "order \<le> k" "k \<le> max_order b" "free_blocks b k \<noteq> {}"
    note A = dr_buddy_alloc_found [OF b(1) fo]
    then have "\<exists>s. blk order s \<subseteq> buddy_free b" by blast
    with A show ?thesis by simp
  next
    assume none: "find_order b order = Some None" "\<forall>j. order \<le> j \<and> j \<le> max_order b \<longrightarrow> free_blocks b j = {}"
    then have "\<not> (\<exists>s. blk order s \<subseteq> buddy_free b)"
      using aligned_block_in_free [OF ok _ b(2)] by blast
    with none(1) show ?thesis by (simp add: dr_buddy_alloc_mem_def)
  qed
qed

lemma dr_buddy_free_ok:
  assumes b: "buddy_ok b" "order \<le> max_order b"
    and seg: "unat seg < 2 ^ max_order b" "blk order (unat seg div 2 ^ order) \<inter> buddy_free b = {}"
  shows "\<exists>b'. dr_buddy_free_mem b seg order = Some b' \<and> buddy_ok b' \<and> max_order b' = max_order b \<and>
    buddy_free b' = buddy_free b \<union> blk order (unat seg div 2 ^ order)"
proof -
  let ?M = "max_order b"
  have ud: "unat (drop_bit order seg) = unat seg div 2 ^ order"
    unfolding unat_drop_bit_eq by (rule drop_bit_eq_div)
  have "(2::nat) ^ ?M = 2 ^ (?M - order) * 2 ^ order" using b(2) by (simp flip: power_add)
  then have "unat seg div 2 ^ order < 2 ^ (?M - order)" using seg(1) by (simp add: div_less_iff_less_mult)
  then have "in_hand b order (unat (drop_bit order seg))" using b(2) seg(2) by (simp add: in_hand_def ud)
  from merge_loop_ok [OF b(1) this] obtain b1 s k where m: "merge_loop b (drop_bit order seg) order = Some (b1, s, k)"
    "buddy_ok b1" "max_order b1 = ?M" "in_hand b1 k (unat s)" "sib (unat s) \<notin> free_blocks b1 k"
    "buddy_free b1 \<union> blk k (unat s) = buddy_free b \<union> blk order (unat seg div 2 ^ order)"
    unfolding ud by blast
  have ok: "rep_ok b1" "blocks_ok (max_order b1) (free_blocks b1)" using m(2) by (simp_all add: buddy_ok_def)
  have k: "k \<le> max_order b1" "unat s < 2 ^ (max_order b1 - k)" "blk k (unat s) \<inter> buddy_free b1 = {}"
    using m(4) by (simp_all add: in_hand_def)
  note P = put_blocks [OF ok(2) k m(5)]
  obtain b' where b': "buddy_put b1 (ucast s) k = Some b'" "rep_ok b'" "max_order b' = max_order b1"
      "free_blocks b' = (free_blocks b1)(k := insert (unat s) (free_blocks b1 k))"
    using put_ok [OF ok(1) k(1), of "ucast s"] k(2) P(3) unfolding unat_ucast_u64 by blast
  have "buddy_ok b'" using b'(2) P(1) by (simp add: buddy_ok_def b'(3,4))
  moreover have "buddy_free b' = buddy_free b1 \<union> blk k (unat s)" unfolding b'(3,4) by (rule P(2))
  ultimately show ?thesis using m b' by (simp add: dr_buddy_free_mem_def)
qed

text \<open>The initial allocator has one free block, the whole memory.\<close>

lemma alloc_bitmaps_eq:
  "length ss \<le> length oks \<Longrightarrow> alloc_bitmaps oks ss =
     (if \<forall>ok \<in> set (take (length ss) oks). ok
      then Some (drop (length ss) oks, map (\<lambda>s. replicate (unat (BITS_TO_LONGS s)) 0) ss) else None)"
proof (induction ss arbitrary: oks)
  case Nil
  then show ?case by simp
next
  case (Cons s ss)
  then obtain ok oks' where "oks = ok # oks'" by (cases oks) auto
  with Cons show ?case by (auto simp: bitmap_alloc0_def)
qed

lemma init_sizes:
  assumes "k < 31"
  shows "unat (int_to_ulong (int_shl1 k)) = 2 ^ k"
    "unat (BITS_TO_LONGS (int_to_ulong (int_shl1 k))) = (2 ^ k + 63) div 64"
    "unat (BITS_TO_LONGS (int_to_ulong (ucast (BITS_TO_LONGS (int_to_ulong (int_shl1 k)))))) =
       ((2 ^ k + 63) div 64 + 63) div 64"
proof -
  have p: "(2::nat) ^ k \<le> 2 ^ 30" using assms by (intro power_increasing) auto
  show 1: "unat (int_to_ulong (int_shl1 k)) = 2 ^ k"
    using p unat_int_shl1 [OF assms] by (subst unat_int_to_ulong) simp_all
  show 2: "unat (BITS_TO_LONGS (int_to_ulong (int_shl1 k))) = (2 ^ k + 63) div 64"
    using p by (subst unat_BITS_TO_LONGS) (simp_all add: 1)
  define q :: nat where "q = (2 ^ k + 63) div 64"
  have q: "q \<le> 2 ^ 25" using p by (simp add: q_def)
  have 3: "unat (ucast (BITS_TO_LONGS (int_to_ulong (int_shl1 k))) :: u32) = q"
    using q 2 by (subst unat_ucast_u32) (simp_all add: q_def)
  have 4: "unat (int_to_ulong (ucast (BITS_TO_LONGS (int_to_ulong (int_shl1 k))))) = q"
    using q 3 by (subst unat_int_to_ulong) simp_all
  then show "unat (BITS_TO_LONGS (int_to_ulong (ucast (BITS_TO_LONGS (int_to_ulong (int_shl1 k)))))) =
       ((2 ^ k + 63) div 64 + 63) div 64"
    unfolding q_def [symmetric] using q by (subst unat_BITS_TO_LONGS) simp_all
qed

definition initial_buddy :: "nat \<Rightarrow> buddy_mem" where
  "initial_buddy mo = \<lparr>
     bits = (map (\<lambda>i. replicate ((2 ^ (mo - i) + 63) div 64) 0) [0..<Suc mo])[mo := [1]],
     num_free = (replicate (Suc mo) 0)[mo := 1],
     set_bit = (map (\<lambda>i. replicate (((2 ^ (mo - i) + 63) div 64 + 63) div 64) 0) [0..<Suc mo])[mo := [1]],
     max_order = mo\<rparr>"

lemma set_first_bit: "bitmap_set_bit [0] 0 = Some [1]"
  by (simp add: bitmap_set_bit_def arr_upd_def BMP_WORD_INDEX_def BMP_WORD_OFFSET_def BITS_PER_LONG_def)

lemma dr_buddy_init_eq:
  assumes "mo < 31" "length oks = 3 + 2 * Suc mo"
  shows "dr_buddy_init oks mo =
    (if \<forall>ok \<in> set oks. ok then Some (Success, Some (initial_buddy mo)) else Some (ENOMEM, None))"
proof -
  obtain ok1 ok2 ok3 r where oks: "oks = ok1 # ok2 # ok3 # r" "length r = 2 * Suc mo"
    using assms(2) by (auto simp: length_Suc_conv numeral_eq_Suc)
  define r1 r2 where "r1 = take (Suc mo) r" and "r2 = drop (Suc mo) r"
  have r: "r = r1 @ r2" "length r1 = Suc mo" "length r2 = Suc mo" using oks(2) by (simp_all add: r1_def r2_def)
  let ?s1 = "\<lambda>i. int_to_ulong (int_shl1 (mo - i))"
  let ?s2 = "\<lambda>i. int_to_ulong (ucast (BITS_TO_LONGS (?s1 i)))"
  define B1 where "B1 = map (\<lambda>i. replicate ((2 ^ (mo - i) + 63) div 64) (0::u64)) [0..<Suc mo]"
  define B2 where "B2 = map (\<lambda>i. replicate (((2 ^ (mo - i) + 63) div 64 + 63) div 64) (0::u64)) [0..<Suc mo]"
  have B: "B1 ! mo = [0]" "B2 ! mo = [0]" by (simp_all add: B1_def B2_def nth_append)
  have "map (\<lambda>s. replicate (unat (BITS_TO_LONGS s)) 0) (map ?s1 [0..<Suc mo]) = B1"
    unfolding B1_def map_map o_def using assms(1)
    by (intro map_cong) (simp_all only: init_sizes less_imp_diff_less)
  then have a1: "alloc_bitmaps r (map ?s1 [0..<Suc mo]) = (if \<forall>ok \<in> set r1. ok then Some (r2, B1) else None)"
    using r by (subst alloc_bitmaps_eq) (simp_all del: upt_Suc map_map)
  have "map (\<lambda>s. replicate (unat (BITS_TO_LONGS s)) 0) (map ?s2 [0..<Suc mo]) = B2"
    unfolding B2_def map_map o_def using assms(1)
    by (intro map_cong) (simp_all only: init_sizes less_imp_diff_less)
  then have a2: "alloc_bitmaps r2 (map ?s2 [0..<Suc mo]) = (if \<forall>ok \<in> set r2. ok then Some ([], B2) else None)"
    using r by (subst alloc_bitmaps_eq) (simp_all del: upt_Suc map_map)
  have all: "(\<forall>ok \<in> set oks. ok) \<longleftrightarrow> ok1 \<and> ok2 \<and> ok3 \<and> (\<forall>ok \<in> set r1. ok) \<and> (\<forall>ok \<in> set r2. ok)"
    unfolding oks(1) r(1) by auto
  show ?thesis
    unfolding dr_buddy_init_def all initial_buddy_def B1_def [symmetric] B2_def [symmetric]
    by (simp only: oks(1) list.case a1) (auto simp: a2 B set_first_bit simp del: upt_Suc)
qed

lemma bits_of_one: "bits_of [1] = {0}"
  by (auto simp: in_bits_of_iff bit_1_iff)

lemma initial_free_blocks:
  "n \<le> mo \<Longrightarrow> free_blocks (initial_buddy mo) n = (if n = mo then {0} else {})"
  "n \<le> mo \<Longrightarrow> bits_of (set_bit (initial_buddy mo) ! n) = (if n = mo then {0} else {})"
  by (simp_all add: free_blocks_def initial_buddy_def bits_of_one bits_of_replicate_0 nth_append
      del: upt_Suc)

lemma initial_buddy_ok:
  assumes "mo < 31"
  shows "buddy_ok (initial_buddy mo)" "buddy_free (initial_buddy mo) = {..< 2 ^ mo}"
proof -
  let ?b = "initial_buddy mo"
  have mo: "max_order ?b = mo" by (simp add: initial_buddy_def)
  note F = initial_free_blocks [where mo = mo]
  have len: "length (bits ?b ! n) = (2 ^ (mo - n) + 63) div 64"
    "length (set_bit ?b ! n) = ((2 ^ (mo - n) + 63) div 64 + 63) div 64" if "n \<le> mo" for n
    using that by (simp_all add: initial_buddy_def nth_list_update nth_append del: upt_Suc)
  have sz: "q \<le> 64 * ((q + 63) div 64)" for q :: nat by simp
  have small: "64 * (((2 ^ (mo - n) + 63) div 64 + 63) div 64) < (2::nat) ^ 32" for n
  proof -
    have "(2::nat) ^ (mo - n) \<le> 2 ^ 30" using assms by (intro power_increasing) auto
    then show ?thesis by simp
  qed
  show "buddy_ok ?b"
    unfolding buddy_ok_def rep_ok_def blocks_ok_def mo
  proof (intro conjI allI impI ballI, goal_cases)
    case 4
    show ?case by (simp add: initial_buddy_def del: upt_Suc replicate_Suc)
  next
    case (6 n)
    then show ?case by (simp only: len sz)
  next
    case (7 n)
    then show ?case by (simp only: len small)
  next
    case (10 n)
    have "num_free ?b ! n = (if n = mo then 1 else 0)"
      unfolding initial_buddy_def using 10 by (simp add: nth_list_update del: upt_Suc replicate_Suc)
    then show ?case using F(1) [OF 10] by simp
  qed (use assms F len sib_neq in \<open>auto simp: initial_buddy_def split: if_splits simp del: upt_Suc\<close>)
  show "buddy_free ?b = {..< 2 ^ mo}"
    unfolding mo free_units_def using F(1) by (auto simp: blk_def split: if_splits)
qed

section \<open>Runs of the allocator\<close>

text \<open>
  The states a client reaches: it initialises the allocator, allocates, and frees blocks it
  holds. The last argument is the set of blocks handed out and not yet freed, as pairs of
  order and first unit.
\<close>

inductive buddy_run :: "nat \<Rightarrow> buddy_mem \<Rightarrow> (nat \<times> u32) set \<Rightarrow> bool" for mo where
  run_init: "length oks = 3 + 2 * Suc mo \<Longrightarrow> dr_buddy_init oks mo = Some (Success, Some b) \<Longrightarrow> buddy_run mo b {}"
| run_alloc: "buddy_run mo b L \<Longrightarrow> order \<le> mo \<Longrightarrow> dr_buddy_alloc_mem b order = Some (b', r) \<Longrightarrow> r \<noteq> - 1 \<Longrightarrow>
    buddy_run mo b' (insert (order, r) L)"
| run_full: "buddy_run mo b L \<Longrightarrow> order \<le> mo \<Longrightarrow> dr_buddy_alloc_mem b order = Some (b', - 1) \<Longrightarrow> buddy_run mo b' L"
| run_free: "buddy_run mo b L \<Longrightarrow> (order, r) \<in> L \<Longrightarrow> dr_buddy_free_mem b r order = Some b' \<Longrightarrow>
    buddy_run mo b' (L - {(order, r)})"

inductive_cases buddy_run_cases: "buddy_run mo b L"

definition held :: "nat \<times> u32 \<Rightarrow> nat set" where
  "held p = {unat (snd p) ..< unat (snd p) + 2 ^ fst p}"

text \<open>
  Held blocks are aligned blocks of the memory, pairwise disjoint, and together with the
  free units they make up the memory.
\<close>

definition run_ok :: "nat \<Rightarrow> buddy_mem \<Rightarrow> (nat \<times> u32) set \<Rightarrow> bool" where
  "run_ok mo b L \<longleftrightarrow> buddy_ok b \<and> max_order b = mo \<and>
     (\<forall>p \<in> L. fst p \<le> mo \<and> 2 ^ fst p dvd unat (snd p)) \<and>
     (\<forall>p \<in> L. \<forall>q \<in> L. p \<noteq> q \<longrightarrow> held p \<inter> held q = {}) \<and>
     buddy_free b \<inter> \<Union> (held ` L) = {} \<and> buddy_free b \<union> \<Union> (held ` L) = {..< 2 ^ mo}"

lemma run_okD:
  assumes "run_ok mo b L"
  shows "buddy_ok b" "max_order b = mo" "\<forall>p \<in> L. fst p \<le> mo \<and> 2 ^ fst p dvd unat (snd p)"
    "\<forall>p \<in> L. \<forall>q \<in> L. p \<noteq> q \<longrightarrow> held p \<inter> held q = {}"
    "buddy_free b \<inter> \<Union> (held ` L) = {}" "buddy_free b \<union> \<Union> (held ` L) = {..< 2 ^ mo}"
  using assms unfolding run_ok_def by - (elim conjE, assumption)+

lemma held_blk: "2 ^ n dvd unat r \<Longrightarrow> held (n, r) = blk n (unat r div 2 ^ n)"
  by (auto simp: held_def blk_def)

lemma held_first: "unat (snd p) \<in> held p"
  by (simp add: held_def)

lemma buddy_free_sub: "buddy_ok b \<Longrightarrow> buddy_free b \<subseteq> {..< 2 ^ max_order b}"
proof
  fix x assume ok: "buddy_ok b" and "x \<in> buddy_free b"
  then obtain n where n: "n \<le> max_order b" "x div 2 ^ n \<in> free_blocks b n" by (auto simp: in_free_iff)
  have "blocks_ok (max_order b) (free_blocks b)" using ok by (simp add: buddy_ok_def)
  then have "x div 2 ^ n < 2 ^ (max_order b - n)" by (rule blocks_okD(1)) (use n in auto)
  then have "x < 2 ^ (max_order b - n) * 2 ^ n" by (simp add: div_less_iff_less_mult)
  also have "\<dots> = 2 ^ max_order b" using n by (simp flip: power_add)
  finally show "x \<in> {..< 2 ^ max_order b}" by simp
qed

lemma run_ok_alloc:
  assumes run: "run_ok mo b L" and al: "order \<le> mo" "dr_buddy_alloc_mem b order = Some (b', r)" and mo: "mo < 31"
  shows "if r = - 1 then run_ok mo b' L \<and> \<not> (\<exists>s. blk order s \<subseteq> buddy_free b)
    else run_ok mo b' (insert (order, r) L) \<and> (order, r) \<notin> L"
proof -
  note R = run_okD [OF run]
  note ok = R(1,2)
  note A = dr_buddy_alloc_ok [OF ok(1), of order, unfolded ok(2), OF al(1)]
  show ?thesis
  proof (cases "\<exists>s. blk order s \<subseteq> buddy_free b")
    case False
    with A al(2) ok(2) run show ?thesis by auto
  next
    case True
    with A al(2) ok(2) have A': "buddy_ok b'" "max_order b' = mo" "2 ^ order dvd unat r"
      "blk order (unat r div 2 ^ order) \<subseteq> buddy_free b"
      "buddy_free b' = buddy_free b - blk order (unat r div 2 ^ order)" by auto
    note h = held_blk [OF A'(3)]
    have sub: "held (order, r) \<subseteq> buddy_free b" "buddy_free b' = buddy_free b - held (order, r)"
      using A'(4,5) h by simp_all
    have "unat r < 2 ^ mo" using sub(1) held_first [of "(order, r)"] buddy_free_sub [OF ok(1)] ok(2) by auto
    also have "\<dots> \<le> 2 ^ 30" using mo by (intro power_increasing) auto
    finally have "r \<noteq> - 1" by (auto simp: unsigned_minus_1_eq_mask mask_eq_exp_minus_1)
    moreover have dis: "held (order, r) \<inter> held q = {}" if "q \<in> L" for q
      using R(5) sub(1) that by blast
    then have "(order, r) \<notin> L" using held_first [of "(order, r)"] by blast
    moreover have "run_ok mo b' (insert (order, r) L)"
      unfolding run_ok_def
    proof (intro conjI)
      show "\<forall>p \<in> insert (order, r) L. fst p \<le> mo \<and> 2 ^ fst p dvd unat (snd p)" using R(3) al(1) A'(3) by simp
      show "\<forall>p \<in> insert (order, r) L. \<forall>q \<in> insert (order, r) L. p \<noteq> q \<longrightarrow> held p \<inter> held q = {}"
        using R(4) dis by (metis Int_commute insertE)
      show "buddy_free b' \<inter> \<Union> (held ` insert (order, r) L) = {}" unfolding sub(2) using R(5) by blast
      show "buddy_free b' \<union> \<Union> (held ` insert (order, r) L) = {..< 2 ^ mo}"
        unfolding sub(2) R(6) [symmetric] using sub(1) by blast
    qed (fact A')+
    ultimately show ?thesis by simp
  qed
qed

lemma run_ok_free:
  assumes run: "run_ok mo b L" and p: "(order, r) \<in> L"
  shows "\<exists>b'. dr_buddy_free_mem b r order = Some b' \<and> run_ok mo b' (L - {(order, r)})"
proof -
  note R = run_okD [OF run]
  note ok = R(1,2) and pw = R(4) and all = R(5,6)
  have al: "order \<le> mo" "2 ^ order dvd unat r" using R(3) p by force+
  note h = held_blk [OF al(2)]
  have dis: "held (order, r) \<inter> buddy_free b = {}" using all(1) p by blast
  have "unat r < 2 ^ mo" using all(2) p held_first [of "(order, r)"] by auto
  then obtain b' where b': "dr_buddy_free_mem b r order = Some b'" "buddy_ok b'" "max_order b' = mo"
      "buddy_free b' = buddy_free b \<union> held (order, r)"
    using dr_buddy_free_ok [OF ok(1), of order r] al(1) dis unfolding ok(2) h by blast
  have un: "\<Union> (held ` L) = held (order, r) \<union> \<Union> (held ` (L - {(order, r)}))" using p by blast
  have d2: "held (order, r) \<inter> \<Union> (held ` (L - {(order, r)})) = {}" using pw p by blast
  have "run_ok mo b' (L - {(order, r)})"
    unfolding run_ok_def
  proof (intro conjI)
    show "buddy_free b' \<inter> \<Union> (held ` (L - {(order, r)})) = {}" using all(1) un d2 b'(4) by blast
    show "buddy_free b' \<union> \<Union> (held ` (L - {(order, r)})) = {..< 2 ^ mo}"
      unfolding b'(4) all(2) [symmetric] un by blast
    show "\<forall>p \<in> L - {(order, r)}. fst p \<le> mo \<and> 2 ^ fst p dvd unat (snd p)" using R(3) by blast
    show "\<forall>p \<in> L - {(order, r)}. \<forall>q \<in> L - {(order, r)}. p \<noteq> q \<longrightarrow> held p \<inter> held q = {}" using pw by blast
  qed (fact b')+
  with b'(1) show ?thesis by blast
qed

lemma buddy_run_ok: "buddy_run mo b L \<Longrightarrow> mo < 31 \<Longrightarrow> run_ok mo b L"
proof (induction rule: buddy_run.induct)
  case (run_init oks b)
  then have "b = initial_buddy mo" by (auto simp: dr_buddy_init_eq split: if_splits)
  with initial_buddy_ok [OF run_init(3)] show ?case by (simp add: run_ok_def initial_buddy_def)
next
  case (run_alloc b L order b' r)
  with run_ok_alloc [of mo b L order b' r] show ?case by simp
next
  case (run_full b L order b')
  with run_ok_alloc [of mo b L order b' "- 1"] show ?case by simp
next
  case (run_free b L order r b')
  with run_ok_free [of mo b L order r] show ?case by simp
qed

section \<open>Properties\<close>

text \<open>
  Property C9. In every state a client can reach, the blocks it holds and the free units
  partition the memory of \<open>2 ^ mo\<close> units: held blocks are aligned to their size and do not
  overlap each other or free memory, so no unit is lost and none is handed out twice.
\<close>

theorem buddy_run_partition:
  assumes "mo < 31" "buddy_run mo b L"
  shows "(\<forall>p \<in> L. fst p \<le> mo \<and> 2 ^ fst p dvd unat (snd p)) \<and>
    (\<forall>p \<in> L. \<forall>q \<in> L. p \<noteq> q \<longrightarrow> held p \<inter> held q = {}) \<and>
    buddy_free b \<inter> \<Union> (held ` L) = {} \<and> buddy_free b \<union> \<Union> (held ` L) = {..< 2 ^ mo}"
  using run_okD(3-6) [OF buddy_run_ok [OF assms(2,1)]] by (intro conjI)

theorem buddy_run_partition_witness:
  "buddy_run 3 (initial_buddy 3) {} \<and> buddy_free (initial_buddy 3) = {..< 8}"
proof -
  have run: "buddy_run 3 (initial_buddy 3) {}"
    by (rule run_init [of "replicate 11 True"]) (simp_all add: dr_buddy_init_eq)
  from buddy_run_partition [OF _ this] run show ?thesis by simp
qed

text \<open>
  Property C11. Allocation never touches memory outside the bitmaps and never fails its
  assertion. It returns \<open>- 1\<close>, leaving the state alone, exactly when no aligned block of
  the order is free; otherwise it returns the first unit of an aligned free block, and
  that block is all that leaves the free memory.
\<close>

theorem dr_buddy_alloc_correct:
  assumes "buddy_ok b" "order \<le> max_order b"
  shows "if \<exists>s. blk order s \<subseteq> buddy_free b then
     \<exists>b' r. dr_buddy_alloc_mem b order = Some (b', r) \<and> buddy_ok b' \<and> max_order b' = max_order b \<and>
       2 ^ order dvd unat r \<and> blk order (unat r div 2 ^ order) \<subseteq> buddy_free b \<and>
       buddy_free b' = buddy_free b - blk order (unat r div 2 ^ order)
     else dr_buddy_alloc_mem b order = Some (b, - 1)"
  by (rule dr_buddy_alloc_ok [OF assms])

theorem dr_buddy_alloc_correct_witness:
  "\<exists>b' r. dr_buddy_alloc_mem (initial_buddy 3) 1 = Some (b', r) \<and> buddy_ok b' \<and> 2 ^ 1 dvd unat r"
proof -
  have "1 \<le> max_order (initial_buddy 3)" by (simp add: initial_buddy_def)
  note A = dr_buddy_alloc_correct [OF initial_buddy_ok(1) [of 3, simplified] this]
  have "blk 1 0 \<subseteq> buddy_free (initial_buddy 3)" 
    unfolding initial_buddy_ok(2) [of 3, simplified] by (auto simp: blk_def)
  then have "\<exists>s. blk 1 s \<subseteq> buddy_free (initial_buddy 3)" by blast
  from A [unfolded if_P [OF this]] show ?thesis by (elim exE conjE) (intro exI conjI)
qed

text \<open>
  Property C12. Freeing a held block adds exactly its units to the free memory, coalescing
  with free buddies until the state is coalesced again; the merging loop always ends.
\<close>

theorem dr_buddy_free_correct:
  assumes "buddy_ok b" "order \<le> max_order b" "unat seg < 2 ^ max_order b"
    "blk order (unat seg div 2 ^ order) \<inter> buddy_free b = {}"
  shows "\<exists>b'. dr_buddy_free_mem b seg order = Some b' \<and> buddy_ok b' \<and> max_order b' = max_order b \<and>
    buddy_free b' = buddy_free b \<union> blk order (unat seg div 2 ^ order)"
  by (rule dr_buddy_free_ok [OF assms])

theorem dr_buddy_free_correct_witness:
  "\<exists>b b'. buddy_ok b \<and> dr_buddy_free_mem b 0 0 = Some b' \<and> buddy_free b' = {0}"
proof -
  let ?b = "(initial_buddy 0)\<lparr>bits := [[0]], set_bit := [[0]], num_free := [0]\<rparr>"
  have z: "bits_of [0] = {}" using bits_of_replicate_0 [of 1] by simp
  have ok: "buddy_ok ?b" "max_order ?b = 0" "buddy_free ?b = {}"
    by (simp_all add: buddy_ok_def rep_ok_def blocks_ok_def free_units_def free_blocks_def initial_buddy_def z)
  have blk: "blk 0 (unat (0::u32) div 2 ^ 0) = {0}" by (auto simp: blk_def)
  have "\<exists>b'. dr_buddy_free_mem ?b 0 0 = Some b' \<and> buddy_ok b' \<and> max_order b' = 0 \<and> buddy_free b' = {} \<union> {0}"
    using dr_buddy_free_correct [OF ok(1), of 0 0] unfolding blk ok(2) ok(3) [unfolded ok(2)] by simp
  with ok(1) show ?thesis by (metis sup_bot_left)
qed

text \<open>
  Property C34. Initialisation reports ENOMEM exactly when one of its allocations fails;
  otherwise the state is well formed and the whole memory is free.
\<close>

theorem dr_buddy_init_correct:
  assumes "mo < 31" "length oks = 3 + 2 * Suc mo"
  shows "if \<forall>ok \<in> set oks. ok
    then \<exists>b. dr_buddy_init oks mo = Some (Success, Some b) \<and> buddy_ok b \<and> max_order b = mo \<and>
      buddy_free b = {..< 2 ^ mo}
    else dr_buddy_init oks mo = Some (ENOMEM, None)"
  using dr_buddy_init_eq [OF assms] initial_buddy_ok [OF assms(1)] by (simp add: initial_buddy_def)

theorem dr_buddy_init_correct_witness:
  "(\<exists>b. dr_buddy_init (replicate 9 True) 2 = Some (Success, Some b) \<and> buddy_free b = {..< 4}) \<and>
   dr_buddy_init (replicate 8 True @ [False]) 2 = Some (ENOMEM, None)"
  using dr_buddy_init_correct [of 2 "replicate 9 True"] dr_buddy_init_correct [of 2 "replicate 8 True @ [False]"]
  by auto

end
