(* ===== verification/Dr_Crc32.thy ===== *)
theory Dr_Crc32
  imports Fusa_Prelude
begin

text \<open>
  The checksum of the steering entries, \<open>providers/mlx5/dr_crc32.c\<close>: eight lookup tables that
  \<open>dr_crc32_init_table\<close> fills, and \<open>dr_crc32_slice8_calc\<close>, which takes eight bytes of the data
  at a time. The lemmas show that the tables hold powers of one linear function of the remainder,
  and that the eight-byte step is therefore eight steps of the bitwise definition of the checksum.

  The data are a list of bytes, \<open>None\<close> for the null pointer; the host is little-endian.
\<close>

section \<open>The tables\<close>

definition DR_STE_CRC_POLY :: u32 where
  "DR_STE_CRC_POLY = 0xEDB88320"

text \<open>One round of the inner loop: the remainder after one bit.\<close>

definition crc_bit :: "u32 \<Rightarrow> u32" where
  "crc_bit crc = (if crc AND 1 \<noteq> 0 then drop_bit 1 crc XOR DR_STE_CRC_POLY else drop_bit 1 crc)"

text \<open>\<open>tbl[k][x & 0xff]\<close>\<close>

definition tab :: "u32 list list \<Rightarrow> nat \<Rightarrow> u32 \<Rightarrow> u32 option" where
  "tab tbl k x = do { row \<leftarrow> arr_get tbl k; arr_get row (unat (x AND 0xff)) }"

definition tab_set :: "u32 list list \<Rightarrow> nat \<Rightarrow> nat \<Rightarrow> u32 \<Rightarrow> u32 list list option" where
  "tab_set tbl k j v = do { row \<leftarrow> arr_get tbl k; row \<leftarrow> arr_set row j v; arr_set tbl k row }"

definition dr_crc32_calc_lookup_entry :: "u32 list list \<Rightarrow> nat \<Rightarrow> nat \<Rightarrow> u32 list list option" where
  "dr_crc32_calc_lookup_entry tbl i j = do {
     c_assert (i \<noteq> 0);
     row \<leftarrow> arr_get tbl (i - 1);
     v \<leftarrow> arr_get row j;
     w \<leftarrow> tab tbl 0 v;
     tab_set tbl i j (drop_bit 8 v XOR w)
   }"

definition dr_crc32_init_table :: "u32 list list \<Rightarrow> u32 list list option" where
  "dr_crc32_init_table tbl = do {
     tbl \<leftarrow> for_loop 0 256 (\<lambda>i tbl. do {
       crc \<leftarrow> for_loop 0 8 (\<lambda>_ crc. Some (crc_bit crc)) (of_nat i);
       tab_set tbl 0 i crc
     }) tbl;
     for_loop 0 256 (\<lambda>i tbl. do {
       tbl \<leftarrow> dr_crc32_calc_lookup_entry tbl 1 i;
       tbl \<leftarrow> dr_crc32_calc_lookup_entry tbl 2 i;
       tbl \<leftarrow> dr_crc32_calc_lookup_entry tbl 3 i;
       tbl \<leftarrow> dr_crc32_calc_lookup_entry tbl 4 i;
       tbl \<leftarrow> dr_crc32_calc_lookup_entry tbl 5 i;
       tbl \<leftarrow> dr_crc32_calc_lookup_entry tbl 6 i;
       dr_crc32_calc_lookup_entry tbl 7 i
     }) tbl
   }"

section \<open>The checksum\<close>

text \<open>\<open>*current++\<close> for a pointer to a 32-bit word.\<close>

definition load32 :: "u8 list \<Rightarrow> u32 option" where
  "load32 bs = (case bs of
     b0 # b1 # b2 # b3 # _ \<Rightarrow>
       Some (ucast b0 OR push_bit 8 (ucast b1) OR push_bit 16 (ucast b2) OR push_bit 24 (ucast b3))
   | _ \<Rightarrow> None)"

definition slice8_step :: "u32 list list \<Rightarrow> u32 \<Rightarrow> u32 \<Rightarrow> u32 option" where
  "slice8_step t one two = do {
     a0 \<leftarrow> tab t 0 (drop_bit 24 two);
     a1 \<leftarrow> tab t 1 (drop_bit 16 two);
     a2 \<leftarrow> tab t 2 (drop_bit 8 two);
     a3 \<leftarrow> tab t 3 two;
     a4 \<leftarrow> tab t 4 (drop_bit 24 one);
     a5 \<leftarrow> tab t 5 (drop_bit 16 one);
     a6 \<leftarrow> tab t 6 (drop_bit 8 one);
     a7 \<leftarrow> tab t 7 one;
     Some (a0 XOR a1 XOR a2 XOR a3 XOR a4 XOR a5 XOR a6 XOR a7)
   }"

text \<open>\<open>while (length-- != 0)\<close>, on the data that the pointer still has before it.\<close>

fun tail_loop :: "u32 list list \<Rightarrow> nat \<Rightarrow> u8 list \<Rightarrow> u32 \<Rightarrow> u32 option" where
  "tail_loop t 0 data crc = Some crc"
| "tail_loop t (Suc n) [] crc = None"
| "tail_loop t (Suc n) (b # data) crc = do {
     v \<leftarrow> tab t 0 ((crc AND 0xff) XOR ucast b);
     tail_loop t n data (drop_bit 8 crc XOR v)
   }"

text \<open>\<open>while (length >= 8)\<close>, with the second loop after it.\<close>

function slice8_loop :: "u32 list list \<Rightarrow> nat \<Rightarrow> u8 list \<Rightarrow> u32 \<Rightarrow> u32 option" where
  "slice8_loop t len data crc =
     (if 8 \<le> len then do {
        w \<leftarrow> load32 data;
        let one = w XOR crc;
        two \<leftarrow> load32 (drop 4 data);
        crc \<leftarrow> slice8_step t one two;
        slice8_loop t (len - 8) (drop 8 data) crc
      } else tail_loop t len data crc)"
  by pat_completeness auto
termination by (relation "measure (\<lambda>(_, len, _, _). len)") auto

declare slice8_loop.simps [simp del]

definition dr_crc32_slice8_calc :: "u32 list list \<Rightarrow> u8 list option \<Rightarrow> nat \<Rightarrow> u32 option" where
  "dr_crc32_slice8_calc t input_data len =
     (case input_data of
        None \<Rightarrow> Some 0
      | Some data \<Rightarrow> do {
          crc \<leftarrow> slice8_loop t len data 0;
          Some ((drop_bit 24 crc AND 0xff) OR (push_bit 8 crc AND 0xff0000) OR
            (drop_bit 8 crc AND 0xff00) OR (push_bit 24 crc AND 0xff000000))
        })"

section \<open>The bitwise checksum\<close>

text \<open>Eight rounds, and the checksum of a list of bytes by its definition.\<close>

definition crc8 :: "u32 \<Rightarrow> u32" where
  "crc8 = crc_bit ^^ 8"

definition crc32_bitwise :: "u8 list \<Rightarrow> u32 \<Rightarrow> u32" where
  "crc32_bitwise data crc = fold (\<lambda>b c. crc8 (c XOR ucast b)) data crc"

section \<open>The step is linear\<close>

lemma crc_bit_alt: "crc_bit c = drop_bit 1 c XOR (if bit c 0 then DR_STE_CRC_POLY else 0)"
proof -
  have "c AND 1 \<noteq> 0 \<longleftrightarrow> bit c 0" by (simp add: and_one_eq bit_0 odd_iff_mod_2_eq_one)
  then show ?thesis by (simp add: crc_bit_def)
qed

lemma crc_bit_linear: "crc_bit (a XOR b) = crc_bit a XOR crc_bit b"
  by (cases "bit a 0"; cases "bit b 0") (simp_all add: crc_bit_alt bit_xor_iff ac_simps)

lemma funpow_linear:
  fixes f :: "u32 \<Rightarrow> u32"
  assumes "\<And>a b. f (a XOR b) = f a XOR f b"
  shows "(f ^^ n) (a XOR b) = (f ^^ n) a XOR (f ^^ n) b"
  by (induction n) (simp_all add: assms)

lemma crc8_linear: "crc8 (a XOR b) = crc8 a XOR crc8 b"
  unfolding crc8_def by (rule funpow_linear) (rule crc_bit_linear)

lemma crc_bits_zero: "(\<And>j. j < n \<Longrightarrow> \<not> bit c j) \<Longrightarrow> (crc_bit ^^ n) c = drop_bit n c"
proof (induction n arbitrary: c)
  case (Suc n)
  have "(crc_bit ^^ Suc n) c = (crc_bit ^^ n) (crc_bit c)" by (simp add: funpow_swap1)
  moreover have "crc_bit c = drop_bit 1 c" using Suc.prems [of 0] by (simp add: crc_bit_alt)
  moreover have "(crc_bit ^^ n) (drop_bit 1 c) = drop_bit n (drop_bit 1 c)"
    by (rule Suc.IH) (use Suc.prems in \<open>simp add: bit_drop_bit_eq\<close>)
  ultimately show ?case by (simp add: drop_bit_drop_bit)
qed simp

text \<open>The table-driven step.\<close>

lemma crc8_split: "crc8 c = drop_bit 8 c XOR crc8 (c AND 0xff)"
proof -
  have "c = (c AND NOT 0xff) XOR (c AND 0xff)"
    by (rule bit_word_eqI) (simp only: bit_xor_iff bit_and_iff bit_not_iff bit_ff, auto)
  then have "crc8 c = crc8 (c AND NOT 0xff) XOR crc8 (c AND 0xff)" by (metis crc8_linear)
  moreover have "crc8 (c AND NOT 0xff) = drop_bit 8 (c AND NOT 0xff)"
    unfolding crc8_def by (rule crc_bits_zero) (simp only: bit_and_iff bit_not_iff bit_ff, simp)
  moreover have "drop_bit 8 (c AND NOT 0xff) = drop_bit 8 c"
    by (rule bit_word_eqI) (simp only: bit_drop_bit_eq comp_apply bit_and_iff bit_not_iff bit_ff, auto dest: bit_imp_le_length)
  ultimately show ?thesis by simp
qed

lemmas bit_rules = bit_xor_iff bit_or_iff bit_and_iff bit_not_iff bit_push_bit_iff bit_drop_bit_eq
  comp_apply bit_unsigned_iff bit_ff

text \<open>A byte that is shifted up comes down again before it is processed.\<close>

lemma crc8_push:
  assumes "k \<le> 2"
  shows "crc8 (push_bit (8 * Suc k) (b AND 0xff)) = push_bit (8 * k) (b AND 0xff)"
proof -
  have "crc8 (push_bit (8 * Suc k) (b AND 0xff)) = drop_bit 8 (push_bit (8 * Suc k) (b AND 0xff))"
    unfolding crc8_def by (rule crc_bits_zero) (simp only: bit_rules, simp)
  also have "\<dots> = push_bit (8 * k) (b AND 0xff)"
    by (rule bit_word_eqI) (use assms in \<open>simp only: bit_rules, auto\<close>)
  finally show ?thesis .
qed

lemma crc8s_push:
  assumes "k \<le> 3" "k \<le> n"
  shows "(crc8 ^^ n) (push_bit (8 * k) (b AND 0xff)) = (crc8 ^^ (n - k)) (b AND 0xff)"
  using assms
proof (induction k arbitrary: n)
  case (Suc k)
  then obtain m where n: "n = Suc m" by (cases n) auto
  have "(crc8 ^^ n) (push_bit (8 * Suc k) (b AND 0xff)) = (crc8 ^^ m) (crc8 (push_bit (8 * Suc k) (b AND 0xff)))"
    by (simp only: n funpow_Suc_right comp_apply)
  also have "\<dots> = (crc8 ^^ m) (push_bit (8 * k) (b AND 0xff))" using crc8_push [of k b] Suc.prems by simp
  also have "\<dots> = (crc8 ^^ (m - k)) (b AND 0xff)" by (rule Suc.IH) (use Suc.prems n in simp_all)
  finally show ?case by (simp add: n)
qed simp

lemma word_bytes:
  "w = (w AND 0xff) XOR push_bit (8 * 1) (drop_bit 8 w AND 0xff) XOR push_bit (8 * 2) (drop_bit 16 w AND 0xff)
     XOR push_bit (8 * 3) (drop_bit 24 w AND 0xff)" for w :: u32
proof (rule bit_word_eqI)
  fix n assume "n < LENGTH(32)"
  then consider "n < 8" | "8 \<le> n" "n < 16" | "16 \<le> n" "n < 24" | "24 \<le> n" "n < 32" by fastforce
  then show "bit w n = bit ((w AND 0xff) XOR push_bit (8 * 1) (drop_bit 8 w AND 0xff) XOR
      push_bit (8 * 2) (drop_bit 16 w AND 0xff) XOR push_bit (8 * 3) (drop_bit 24 w AND 0xff)) n"
    by cases (simp_all only: bit_rules, auto)
qed

lemma crc8s_word:
  assumes "3 \<le> n"
  shows "(crc8 ^^ n) w = (crc8 ^^ n) (w AND 0xff) XOR (crc8 ^^ (n - 1)) (drop_bit 8 w AND 0xff)
    XOR (crc8 ^^ (n - 2)) (drop_bit 16 w AND 0xff) XOR (crc8 ^^ (n - 3)) (drop_bit 24 w AND 0xff)"
proof -
  note lin = funpow_linear [of crc8, OF crc8_linear]
  have "(crc8 ^^ n) w = (crc8 ^^ n) (w AND 0xff) XOR (crc8 ^^ n) (push_bit (8 * 1) (drop_bit 8 w AND 0xff))
    XOR (crc8 ^^ n) (push_bit (8 * 2) (drop_bit 16 w AND 0xff))
    XOR (crc8 ^^ n) (push_bit (8 * 3) (drop_bit 24 w AND 0xff))"
    by (subst word_bytes [of w]) (simp only: lin)
  then show ?thesis using crc8s_push [of 1 n] crc8s_push [of 2 n] crc8s_push [of 3 n] assms by simp
qed

section \<open>What the tables hold\<close>

definition shape :: "u32 list list \<Rightarrow> bool" where
  "shape t \<longleftrightarrow> length t = 8 \<and> (\<forall>k < 8. length (t ! k) = 256)"

definition filled :: "u32 list list \<Rightarrow> nat \<Rightarrow> nat \<Rightarrow> bool" where
  "filled t k j \<longleftrightarrow> t ! k ! j = (crc8 ^^ Suc k) (of_nat j)"

definition table_ok :: "u32 list list \<Rightarrow> bool" where
  "table_ok t \<longleftrightarrow> shape t \<and> (\<forall>k < 8. \<forall>j < 256. filled t k j)"

lemma tab_set_ok:
  assumes "shape t" "k < 8" "j < 256"
  shows "tab_set t k j v = Some (t[k := (t ! k)[j := v]])" "shape (t[k := (t ! k)[j := v]])"
  using assms by (auto simp: tab_set_def shape_def c_access nth_list_update)

lemma filled_upd:
  assumes "shape t" "k < 8" "j < 256"
  shows "filled (t[k := (t ! k)[j := v]]) k' j' \<longleftrightarrow>
    (if k' = k \<and> j' = j then v = (crc8 ^^ Suc k) (of_nat j) else filled t k' j')"
  using assms by (auto simp: filled_def shape_def nth_list_update)

lemma byte_lt: "unat (x AND 0xff :: u32) < 256"
proof -
  have "x AND 0xff \<le> (0xff :: u32)" by (simp add: word_and_le1)
  then show ?thesis by (simp add: word_le_nat_alt)
qed

lemma tab_ok:
  assumes "shape t" "\<forall>j < 256. filled t k j" "k < 8"
  shows "tab t k x = Some ((crc8 ^^ Suc k) (x AND 0xff))"
  using assms byte_lt [of x] by (simp add: tab_def shape_def c_access filled_def)

lemma bits_loop: "for_loop 0 n (\<lambda>_ crc. Some (crc_bit crc)) c = Some ((crc_bit ^^ n) c)"
proof -
  have "\<exists>s'. for_loop 0 n (\<lambda>_ crc. Some (crc_bit crc)) c = Some s' \<and> s' = (crc_bit ^^ n) c"
    by (rule for_loop_inv [where I = "\<lambda>i s. s = (crc_bit ^^ i) c"]) auto
  then show ?thesis by simp
qed

lemma calc_ok:
  assumes "shape t" "\<forall>j < 256. filled t 0 j" "Suc k < 8" "j < 256" "filled t k j"
  shows "dr_crc32_calc_lookup_entry t (Suc k) j =
    Some (t[Suc k := (t ! Suc k)[j := (crc8 ^^ Suc (Suc k)) (of_nat j)]])"
proof -
  define v where "v = (crc8 ^^ Suc k) (of_nat j)"
  have v: "t ! k ! j = v" using assms(5) by (simp add: filled_def v_def)
  have "tab t 0 v = Some (crc8 (v AND 0xff))" using tab_ok [OF assms(1,2)] by simp
  moreover have "drop_bit 8 v XOR crc8 (v AND 0xff) = crc8 v" using crc8_split [of v] by simp
  moreover have "length t = 8" "length (t ! k) = 256" using assms(1,3) by (simp_all add: shape_def)
  ultimately show ?thesis using assms(3,4) tab_set_ok(1) [OF assms(1,3,4)] v
    by (simp add: dr_crc32_calc_lookup_entry_def c_access) (simp add: v_def)
qed

text \<open>The column \<open>j\<close> is filled up to row \<open>k\<close>, and the columns before it and row 0 are complete.\<close>

definition column_upto :: "nat \<Rightarrow> nat \<Rightarrow> u32 list list \<Rightarrow> bool" where
  "column_upto k j t \<longleftrightarrow> shape t \<and> (\<forall>j < 256. filled t 0 j) \<and> (\<forall>i < j. \<forall>k < 8. filled t k i) \<and> (\<forall>k' \<le> k. filled t k' j)"

lemma calc_upto:
  assumes "column_upto k j t" "Suc k < 8" "j < 256"
  shows "\<exists>t'. dr_crc32_calc_lookup_entry t (Suc k) j = Some t' \<and> column_upto (Suc k) j t'"
proof -
  have t: "shape t" "\<forall>j < 256. filled t 0 j" "filled t k j" using assms(1) by (simp_all add: column_upto_def)
  let ?t = "t[Suc k := (t ! Suc k)[j := (crc8 ^^ Suc (Suc k)) (of_nat j)]]"
  have "column_upto (Suc k) j ?t"
    using assms(1) tab_set_ok(2) [OF t(1) assms(2,3)] filled_upd [OF t(1) assms(2,3)]
    by (auto simp: column_upto_def le_Suc_eq simp del: funpow.simps)
  then show ?thesis using calc_ok [OF t(1,2) assms(2,3) t(3)] by blast
qed

lemma column_ok:
  assumes "shape t" "\<forall>j < 256. filled t 0 j" "\<forall>i < j. \<forall>k < 8. filled t k i" "j < 256"
  shows "\<exists>t'. do {
       tbl \<leftarrow> dr_crc32_calc_lookup_entry t 1 j;
       tbl \<leftarrow> dr_crc32_calc_lookup_entry tbl 2 j;
       tbl \<leftarrow> dr_crc32_calc_lookup_entry tbl 3 j;
       tbl \<leftarrow> dr_crc32_calc_lookup_entry tbl 4 j;
       tbl \<leftarrow> dr_crc32_calc_lookup_entry tbl 5 j;
       tbl \<leftarrow> dr_crc32_calc_lookup_entry tbl 6 j;
       dr_crc32_calc_lookup_entry tbl 7 j
     } = Some t' \<and> column_upto 7 j t'"
proof -
  note c = calc_upto [of _ j, OF _ _ assms(4), simplified]
  have "column_upto 0 j t" using assms by (simp add: column_upto_def)
  then obtain t1 where t1: "dr_crc32_calc_lookup_entry t 1 j = Some t1" "column_upto 1 j t1" using c [of 0 t] by auto
  then obtain t2 where t2: "dr_crc32_calc_lookup_entry t1 2 j = Some t2" "column_upto 2 j t2"
    using c [of 1 t1] by (auto simp: numeral_2_eq_2)
  then obtain t3 where t3: "dr_crc32_calc_lookup_entry t2 3 j = Some t3" "column_upto 3 j t3"
    using c [of 2 t2] by auto
  then obtain t4 where t4: "dr_crc32_calc_lookup_entry t3 4 j = Some t4" "column_upto 4 j t4"
    using c [of 3 t3] by auto
  then obtain t5 where t5: "dr_crc32_calc_lookup_entry t4 5 j = Some t5" "column_upto 5 j t5"
    using c [of 4 t4] by auto
  then obtain t6 where t6: "dr_crc32_calc_lookup_entry t5 6 j = Some t6" "column_upto 6 j t6"
    using c [of 5 t5] by auto
  then obtain t7 where "dr_crc32_calc_lookup_entry t6 7 j = Some t7" "column_upto 7 j t7"
    using c [of 6 t6] by auto
  then show ?thesis using t1 t2 t3 t4 t5 t6 by simp
qed

lemma init_table_ok:
  assumes "shape t"
  shows "\<exists>t'. dr_crc32_init_table t = Some t' \<and> table_ok t'"
proof -
  let ?f = "\<lambda>i tbl. do {
       crc \<leftarrow> for_loop 0 8 (\<lambda>_ crc. Some (crc_bit crc)) (of_nat i);
       tab_set tbl 0 i crc
     }"
  have "\<exists>t'. for_loop 0 256 ?f t = Some t' \<and> shape t' \<and> (\<forall>j < 256. filled t' 0 j)"
  proof (rule for_loop_inv [where I = "\<lambda>i t. shape t \<and> (\<forall>j < i. filled t 0 j)"])
    fix i t assume i: "i < (256::nat)" and t: "shape t \<and> (\<forall>j < i. filled t 0 j)"
    show "\<exists>t'. ?f i t = Some t' \<and> shape t' \<and> (\<forall>j < Suc i. filled t' 0 j)"
      using tab_set_ok [of t 0 i "crc8 (of_nat i)"] filled_upd [of t 0 i "crc8 (of_nat i)" 0] i t
      by (auto simp: bits_loop crc8_def [symmetric] less_Suc_eq)
  qed (use assms in auto)
  then obtain t1 where t1: "for_loop 0 256 ?f t = Some t1" "shape t1" "\<forall>j < 256. filled t1 0 j" by blast
  let ?g = "\<lambda>i tbl. do {
       tbl \<leftarrow> dr_crc32_calc_lookup_entry tbl 1 i;
       tbl \<leftarrow> dr_crc32_calc_lookup_entry tbl 2 i;
       tbl \<leftarrow> dr_crc32_calc_lookup_entry tbl 3 i;
       tbl \<leftarrow> dr_crc32_calc_lookup_entry tbl 4 i;
       tbl \<leftarrow> dr_crc32_calc_lookup_entry tbl 5 i;
       tbl \<leftarrow> dr_crc32_calc_lookup_entry tbl 6 i;
       dr_crc32_calc_lookup_entry tbl 7 i
     }"
  have "\<exists>t'. for_loop 0 256 ?g t1 = Some t' \<and>
      shape t' \<and> (\<forall>j < 256. filled t' 0 j) \<and> (\<forall>i < 256. \<forall>k < 8. filled t' k i)"
  proof (rule for_loop_inv [where I = "\<lambda>n t. shape t \<and> (\<forall>j < 256. filled t 0 j) \<and> (\<forall>i < n. \<forall>k < 8. filled t k i)"])
    fix i t assume "i < (256::nat)" "shape t \<and> (\<forall>j < 256. filled t 0 j) \<and> (\<forall>j < i. \<forall>k < 8. filled t k j)"
    then obtain t' where "?g i t = Some t'" "column_upto 7 i t'" using column_ok [of t i] by blast
    then show "\<exists>t'. ?g i t = Some t' \<and> shape t' \<and> (\<forall>j < 256. filled t' 0 j) \<and> (\<forall>j < Suc i. \<forall>k < 8. filled t' k j)"
      by (intro exI [of _ t']) (auto simp: column_upto_def less_Suc_eq)
  qed (use t1 in auto)
  then show ?thesis using t1(1) by (auto simp: dr_crc32_init_table_def table_ok_def)
qed

section \<open>Eight bytes at a time\<close>

lemma slice8_step_ok:
  assumes "table_ok t"
  shows "slice8_step t one two = Some ((crc8 ^^ 8) one XOR (crc8 ^^ 4) two)"
proof -
  have tb: "tab t k x = Some ((crc8 ^^ (k + 1)) (x AND 0xff))" if "k < 8" for k x
    using tab_ok [of t k x] assms that by (simp add: table_ok_def)
  have "(crc8 ^^ 8) one = (crc8 ^^ 8) (one AND 0xff) XOR (crc8 ^^ 7) (drop_bit 8 one AND 0xff)
      XOR (crc8 ^^ 6) (drop_bit 16 one AND 0xff) XOR (crc8 ^^ 5) (drop_bit 24 one AND 0xff)"
    using crc8s_word [of 8 one] by simp
  moreover have "(crc8 ^^ 4) two = (crc8 ^^ 4) (two AND 0xff) XOR (crc8 ^^ 3) (drop_bit 8 two AND 0xff)
      XOR (crc8 ^^ 2) (drop_bit 16 two AND 0xff) XOR (crc8 ^^ 1) (drop_bit 24 two AND 0xff)"
    using crc8s_word [of 4 two] by simp
  moreover have "slice8_step t one two = Some ((crc8 ^^ 1) (drop_bit 24 two AND 0xff) XOR
      (crc8 ^^ 2) (drop_bit 16 two AND 0xff) XOR (crc8 ^^ 3) (drop_bit 8 two AND 0xff) XOR
      (crc8 ^^ 4) (two AND 0xff) XOR (crc8 ^^ 5) (drop_bit 24 one AND 0xff) XOR
      (crc8 ^^ 6) (drop_bit 16 one AND 0xff) XOR (crc8 ^^ 7) (drop_bit 8 one AND 0xff) XOR
      (crc8 ^^ 8) (one AND 0xff))"
    by (simp add: slice8_step_def tb del: funpow.simps One_nat_def)
  ultimately show ?thesis by (simp only: ac_simps)
qed

lemma load32_bytes:
  assumes "load32 (b0 # b1 # b2 # b3 # bs) = Some w"
  shows "w AND 0xff = ucast b0" "drop_bit 8 w AND 0xff = ucast b1"
    "drop_bit 16 w AND 0xff = ucast b2" "drop_bit 24 w AND 0xff = ucast b3"
proof -
  have w: "w = ucast b0 OR push_bit 8 (ucast b1) OR push_bit 16 (ucast b2) OR push_bit 24 (ucast b3)"
    using assms by (simp add: load32_def)
  show "w AND 0xff = ucast b0" "drop_bit 8 w AND 0xff = ucast b1"
    "drop_bit 16 w AND 0xff = ucast b2" "drop_bit 24 w AND 0xff = ucast b3"
    unfolding w by ((rule bit_word_eqI, simp only: bit_rules, auto dest: bit_imp_le_length)[1])+
qed

lemma four_bytes:
  assumes "load32 (b0 # b1 # b2 # b3 # bs) = Some w"
  shows "crc32_bitwise (b0 # b1 # b2 # b3 # bs) crc = crc32_bitwise bs ((crc8 ^^ 4) (w XOR crc))"
proof -
  have "(crc8 ^^ 4) w = (crc8 ^^ 4) (ucast b0) XOR (crc8 ^^ 3) (ucast b1) XOR (crc8 ^^ 2) (ucast b2) XOR (crc8 ^^ 1) (ucast b3)"
    using crc8s_word [of 4 w] by (simp add: load32_bytes [OF assms])
  then have "(crc8 ^^ 4) (w XOR crc) =
      crc8 (crc8 (crc8 (crc8 (crc XOR ucast b0) XOR ucast b1) XOR ucast b2) XOR ucast b3)"
    by (simp add: funpow_linear [of crc8, OF crc8_linear] crc8_linear numeral_eq_Suc ac_simps)
  then show ?thesis by (simp add: crc32_bitwise_def)
qed

lemma tail_loop_ok:
  assumes "table_ok t" "n \<le> length data"
  shows "tail_loop t n data crc = Some (crc32_bitwise (take n data) crc)"
  using assms(2)
proof (induction n arbitrary: data crc)
  case (Suc n)
  then obtain b bs where data: "data = b # bs" by (cases data) auto
  have ff: "((crc AND 0xff) XOR ucast b) AND 0xff = (crc XOR ucast b) AND 0xff"
    by (rule bit_word_eqI) (simp only: bit_rules, auto)
  have "drop_bit 8 (crc XOR ucast b) = drop_bit 8 crc"
    by (rule bit_word_eqI) (simp only: bit_rules, auto dest: bit_imp_le_length)
  then have "drop_bit 8 crc XOR crc8 ((crc XOR ucast b) AND 0xff) = crc8 (crc XOR ucast b)"
    using crc8_split [of "crc XOR ucast b"] by simp
  moreover have "tab t 0 ((crc AND 0xff) XOR ucast b) = Some (crc8 ((crc XOR ucast b) AND 0xff))"
    using tab_ok [of t 0] assms(1) by (simp add: table_ok_def ff)
  ultimately show ?case using Suc by (simp add: data crc32_bitwise_def)
qed (simp add: crc32_bitwise_def)

lemma eight_bytes:
  "8 \<le> length xs \<Longrightarrow> \<exists>b0 b1 b2 b3 b4 b5 b6 b7 bs. xs = b0 # b1 # b2 # b3 # b4 # b5 # b6 # b7 # bs"
  by (simp add: numeral_eq_Suc Suc_le_length_iff) blast

lemma slice8_loop_ok:
  assumes "table_ok t" "len \<le> length data"
  shows "slice8_loop t len data crc = Some (crc32_bitwise (take len data) crc)"
  using assms(2)
proof (induction len arbitrary: data crc rule: less_induct)
  case (less len)
  show ?case
  proof (cases "8 \<le> len")
    case True
    then obtain b0 b1 b2 b3 b4 b5 b6 b7 bs
      where data: "data = b0 # b1 # b2 # b3 # b4 # b5 # b6 # b7 # bs"
      using eight_bytes [of data] less.prems by auto
    obtain w1 w2 where w: "load32 data = Some w1" "load32 (drop 4 data) = Some w2"
      by (simp add: data load32_def)
    have len: "take len data = b0 # b1 # b2 # b3 # b4 # b5 # b6 # b7 # take (len - 8) bs"
      using True by (simp add: data take_Cons' numeral_eq_Suc)
    have w': "load32 (b0 # b1 # b2 # b3 # b4 # b5 # b6 # b7 # take (len - 8) bs) = Some w1"
      "load32 (b4 # b5 # b6 # b7 # take (len - 8) bs) = Some w2"
      using w by (simp_all add: data load32_def)
    have "crc32_bitwise (take len data) crc =
        crc32_bitwise (take (len - 8) bs) ((crc8 ^^ 4) (w2 XOR (crc8 ^^ 4) (w1 XOR crc)))"
      by (simp only: len four_bytes [OF w'(1)] four_bytes [OF w'(2)])
    moreover have "(crc8 ^^ 4) (w2 XOR (crc8 ^^ 4) (w1 XOR crc)) = (crc8 ^^ 8) (w1 XOR crc) XOR (crc8 ^^ 4) w2"
    proof -
      have "(crc8 ^^ 4) ((crc8 ^^ 4) x) = (crc8 ^^ 8) x" for x
        using funpow_add [of 4 4 crc8] by simp
      then show ?thesis by (simp only: funpow_linear [of crc8, OF crc8_linear] ac_simps)
    qed
    moreover have "slice8_loop t (len - 8) bs c = Some (crc32_bitwise (take (len - 8) bs) c)" for c
      by (rule less.IH) (use True less.prems data in auto)
    ultimately show ?thesis using True w
      by (simp add: slice8_loop.simps [of t len] slice8_step_ok [OF assms(1)] data)
  next
    case False
    then show ?thesis using tail_loop_ok [OF assms(1) less.prems] by (simp add: slice8_loop.simps [of t len])
  qed
qed

text \<open>The bytes of the remainder in reverse order.\<close>

definition swapped :: "u32 \<Rightarrow> u32" where
  "swapped crc = (drop_bit 24 crc AND 0xff) OR (push_bit 8 crc AND 0xff0000) OR
     (drop_bit 8 crc AND 0xff00) OR (push_bit 24 crc AND 0xff000000)"

lemma bit_byte:
  "bit (0xff00 :: u32) j \<longleftrightarrow> 8 \<le> j \<and> j < 16" "bit (0xff0000 :: u32) j \<longleftrightarrow> 16 \<le> j \<and> j < 24"
  "bit (0xff000000 :: u32) j \<longleftrightarrow> 24 \<le> j \<and> j < 32"
proof -
  have e: "(0xff00 :: u32) = push_bit 8 0xff" "(0xff0000 :: u32) = push_bit 16 0xff"
    "(0xff000000 :: u32) = push_bit 24 0xff"
    by simp_all
  show "bit (0xff00 :: u32) j \<longleftrightarrow> 8 \<le> j \<and> j < 16" unfolding e(1) by (simp only: bit_rules) auto
  show "bit (0xff0000 :: u32) j \<longleftrightarrow> 16 \<le> j \<and> j < 24" unfolding e(2) by (simp only: bit_rules) auto
  show "bit (0xff000000 :: u32) j \<longleftrightarrow> 24 \<le> j \<and> j < 32" unfolding e(3) by (simp only: bit_rules) auto
qed

lemma swapped_bytes:
  assumes "i < 4"
  shows "drop_bit (8 * i) (swapped crc) AND 0xff = drop_bit (8 * (3 - i)) crc AND 0xff"
proof -
  consider "i = 0" | "i = 1" | "i = 2" | "i = 3" using assms by linarith
  then show ?thesis
    by cases ((rule bit_word_eqI, simp only: swapped_def bit_rules bit_byte, auto)[1])+
qed

section \<open>Properties\<close>

text \<open>
  Property C13. The eight-byte algorithm is the bitwise checksum: whatever the tables held before,
  \<open>dr_crc32_init_table\<close> fills them without leaving their bounds, and for any data
  \<open>dr_crc32_slice8_calc\<close> then returns the remainder of the bitwise definition with its four bytes
  reversed, reading nothing behind the data; the null pointer gives 0.
\<close>

theorem slice8_is_crc32:
  assumes "length tbl = 8" "\<forall>row \<in> set tbl. length row = 256"
  shows "\<exists>t. dr_crc32_init_table tbl = Some t \<and> dr_crc32_slice8_calc t None len = Some 0 \<and>
    (\<forall>data. \<exists>r. dr_crc32_slice8_calc t (Some data) (length data) = Some r \<and>
       (\<forall>i < 4. drop_bit (8 * i) r AND 0xff = drop_bit (8 * (3 - i)) (crc32_bitwise data 0) AND 0xff))"
proof -
  have "shape tbl" using assms by (simp add: shape_def)
  then obtain t where t: "dr_crc32_init_table tbl = Some t" "table_ok t" using init_table_ok by blast
  have "dr_crc32_slice8_calc t (Some data) (length data) = Some (swapped (crc32_bitwise data 0))" for data
    using slice8_loop_ok [OF t(2) order_refl, of data 0] by (simp add: dr_crc32_slice8_calc_def swapped_def)
  then show ?thesis using t(1) swapped_bytes by (auto simp: dr_crc32_slice8_calc_def)
qed

theorem slice8_is_crc32_witness:
  "\<exists>t. dr_crc32_init_table (replicate 8 (replicate 256 0)) = Some t \<and> dr_crc32_slice8_calc t None 0 = Some 0 \<and>
     (\<exists>r. dr_crc32_slice8_calc t (Some (replicate 9 1)) 9 = Some r \<and>
        r AND 0xff = drop_bit 24 (crc32_bitwise (replicate 9 1) 0) AND 0xff)"
proof -
  obtain t where t: "dr_crc32_init_table (replicate 8 (replicate 256 0)) = Some t" "dr_crc32_slice8_calc t None 0 = Some 0"
    "\<forall>data. \<exists>r. dr_crc32_slice8_calc t (Some data) (length data) = Some r \<and>
       (\<forall>i < 4. drop_bit (8 * i) r AND 0xff = drop_bit (8 * (3 - i)) (crc32_bitwise data 0) AND 0xff)"
    using slice8_is_crc32 [of "replicate 8 (replicate 256 0)" 0] by auto
  have "\<exists>r. dr_crc32_slice8_calc t (Some (replicate 9 1)) 9 = Some r \<and>
       (\<forall>i < 4. drop_bit (8 * i) r AND 0xff = drop_bit (8 * (3 - i)) (crc32_bitwise (replicate 9 1) 0) AND 0xff)"
    using t(3) [rule_format, of "replicate 9 1"] by (simp only: length_replicate)
  then show ?thesis using t(1,2) by fastforce
qed

end
