(* ===== verification/Recorder.thy ===== *)
theory Recorder
  imports Fusa_Prelude "HOL-Library.Multiset"
begin

text \<open>
  The memory shared by the mlx5 driver and the Fusa agent,
  \<^verbatim>\<open>providers/mlx5/recorder.h\<close> and \<^verbatim>\<open>recorder.c\<close> (the agent's copy of the
  types is \<^verbatim>\<open>fusioncas/include/smart/rpc_common.h\<close>): one record of operation
  counters per queue pair, the strategy table of the server, the RPC regions, and the two
  hashed tables (a counting Bloom filter and a lock table). Here are the types, the search
  for the record of a queue pair, and the hashed tables with their lemmas.
\<close>

section \<open>Types and constants\<close>

definition MAX_COUNTER_NUM :: nat where
  "MAX_COUNTER_NUM = 512"

definition MAX_RECORDER_NUM :: nat where
  "MAX_RECORDER_NUM = 32"

definition SLOT_GRANULARITY :: nat where
  "SLOT_GRANULARITY = 16"

abbreviation COUNTER_TOTAL :: nat where
  "COUNTER_TOTAL \<equiv> MAX_COUNTER_NUM * SLOT_GRANULARITY"

definition BLOOM_ROWS :: nat where
  "BLOOM_ROWS = 256"

definition BLOOM_COLS :: nat where
  "BLOOM_COLS = 256"

text \<open>One record per queue pair; the number 0 marks a record that is not in use.\<close>

record recorder =
  rec_qpn :: u64
  rec_counters :: "u64 list"
  rec_c_counters :: "u64 list"

record rpc_meta =
  rm_machine_num :: u64
  rm_machine_id :: u64
  rm_rkey :: u64
  rm_rpc_addr :: u64
  rm_length :: u64
  rm_crc :: u64

record local_rpc_meta =
  lm_machine_num :: u64
  lm_machine_id :: u64
  lm_lkey :: u64
  lm_rpc_addr :: u64
  lm_s_buf_length :: u64
  lm_r_buf_length :: u64

record sh_local_region =
  strag_credit :: "u16 list"
  records :: "recorder list"
  rmeta :: rpc_meta
  lmeta :: local_rpc_meta
  remote_off :: "u32 list"
  local_off :: "u32 list"
  running :: "u64 list"
  epoch :: "u64 list"
  inflight :: "u64 list"
  hotness_bloom :: "u32 list list"
  local_lock_table :: "u64 list list"

text \<open>Compare-and-swap and fetch-and-add on a 64-bit cell: the value found, and the new one.\<close>

definition CAS_cell :: "u64 \<Rightarrow> u64 \<Rightarrow> u64 \<Rightarrow> u64 \<times> u64" where
  "CAS_cell cell cmp v = (if cell = cmp then (cmp, v) else (cell, cell))"

section \<open>From queue pair numbers to records\<close>

text \<open>
  The two searches of \<open>map_qpn_to_idx\<close>. Their last argument counts the iterations left.
  The search for a free record wraps around, the search for a number does not: \<open>records[i]\<close>
  with \<open>i\<close> past the array is \<open>None\<close>. Running out of iterations is \<open>None\<close> too, since control
  then reaches the end of a function that has to return a value.
\<close>

fun find_free_record :: "recorder list \<Rightarrow> nat \<Rightarrow> nat \<Rightarrow> nat option" where
  "find_free_record rs i 0 = None"
| "find_free_record rs i (Suc n) =
     (case arr_get rs (i mod MAX_RECORDER_NUM) of
        None \<Rightarrow> None
      | Some r \<Rightarrow> if rec_qpn r = 0 then Some (i mod MAX_RECORDER_NUM) else find_free_record rs (Suc i) n)"

fun find_record :: "recorder list \<Rightarrow> u64 \<Rightarrow> nat \<Rightarrow> nat \<Rightarrow> nat option" where
  "find_record rs qpn i 0 = None"
| "find_record rs qpn i (Suc n) =
     (case arr_get rs i of
        None \<Rightarrow> None
      | Some r \<Rightarrow> if rec_qpn r = qpn then Some i else find_record rs qpn (Suc i) n)"

definition map_qpn_to_idx :: "recorder list \<Rightarrow> u64 \<Rightarrow> bool \<Rightarrow> nat option" where
  "map_qpn_to_idx rs qpn ins = do {
     let first_idx = unat qpn mod MAX_RECORDER_NUM;
     r \<leftarrow> arr_get rs first_idx;
     if ins then
       if rec_qpn r = 0 then Some first_idx
       else find_free_record rs (first_idx + 1) (MAX_RECORDER_NUM - 1)
     else find_record rs qpn first_idx MAX_RECORDER_NUM
   }"

section \<open>The hash function and the hashed tables\<close>

definition hash_mult :: u64 where
  "hash_mult = 0x9e3779b97f4a7c15"

text \<open>The buffer is given as its complete 64-bit blocks and the bytes that follow them.\<close>

fun hash_blocks :: "u64 list \<Rightarrow> u64 \<Rightarrow> u64" where
  "hash_blocks [] h = h"
| "hash_blocks (d # ds) h = hash_blocks ds ((h XOR d) * hash_mult)"

fun hash_tail :: "u8 list \<Rightarrow> nat \<Rightarrow> u64 \<Rightarrow> u64" where
  "hash_tail [] i h = h"
| "hash_tail (b # bs) i h = hash_tail bs (Suc i) ((h XOR push_bit (i * 8) (ucast b)) * hash_mult)"

definition MyCityHash64WithSeed :: "u64 list \<Rightarrow> u8 list \<Rightarrow> u64 \<Rightarrow> u64" where
  "MyCityHash64WithSeed data tail seed =
     hash_tail tail 0 (hash_blocks data (seed XOR of_nat (8 * length data + length tail)))"

definition f_seed :: u64 where
  "f_seed = 0xc70697"

definition s_seed :: u64 where
  "s_seed = 0xc63548"

definition hash_row :: "u64 \<Rightarrow> u32" where
  "hash_row key = ucast (MyCityHash64WithSeed [key] [] f_seed mod of_nat BLOOM_ROWS)"

definition hash_col :: "u64 \<Rightarrow> u32" where
  "hash_col key = ucast (MyCityHash64WithSeed [key] [] s_seed mod of_nat BLOOM_COLS)"

text \<open>Access to the cell of a key in a table of rows.\<close>

definition cell_get :: "'a list list \<Rightarrow> u64 \<Rightarrow> 'a option" where
  "cell_get t key = do { row \<leftarrow> arr_get t (unat (hash_row key)); arr_get row (unat (hash_col key)) }"

definition cell_upd :: "'a list list \<Rightarrow> u64 \<Rightarrow> ('a \<Rightarrow> 'a) \<Rightarrow> 'a list list option" where
  "cell_upd t key f = do {
     row \<leftarrow> arr_get t (unat (hash_row key));
     row' \<leftarrow> arr_upd row (unat (hash_col key)) f;
     arr_set t (unat (hash_row key)) row'
   }"

definition bloom2D_init :: "u32 list list" where
  "bloom2D_init = replicate BLOOM_ROWS (replicate BLOOM_COLS 0)"

definition local_lock_table_init :: "u64 list list" where
  "local_lock_table_init = replicate BLOOM_ROWS (replicate BLOOM_COLS 0)"

definition bloom2D_query :: "u32 list list \<Rightarrow> u64 \<Rightarrow> u32 option" where
  "bloom2D_query bloom key = cell_get bloom key"

definition bloom2D_insert :: "u32 list list \<Rightarrow> u64 \<Rightarrow> (u64 \<times> u32 list list) option" where
  "bloom2D_insert bloom key = do {
     bloom \<leftarrow> cell_upd bloom key (\<lambda>c. c + 1);
     c \<leftarrow> cell_get bloom key;
     Some (ucast c, bloom)
   }"

definition bloom2D_decre :: "u32 list list \<Rightarrow> u64 \<Rightarrow> u32 list list option" where
  "bloom2D_decre bloom key = cell_upd bloom key (\<lambda>c. c - 1)"

text \<open>
  Acquiring and releasing spin on a compare-and-swap. Run alone, a loop whose first
  attempt fails never ends; not returning is \<open>None\<close>.
\<close>

partial_function (option) locking_local_table :: "u64 list list \<Rightarrow> u64 \<Rightarrow> u64 list list option" where
  "locking_local_table table key = do {
     c \<leftarrow> cell_get table key;
     let (cmp, c') = CAS_cell c 0 1;
     table \<leftarrow> cell_upd table key (\<lambda>_. c');
     if cmp \<noteq> 0 then locking_local_table table key else Some table
   }"

partial_function (option) unlock_local_table :: "u64 list list \<Rightarrow> u64 \<Rightarrow> u64 list list option" where
  "unlock_local_table table key = do {
     c \<leftarrow> cell_get table key;
     let (cmp, c') = CAS_cell c 1 0;
     table \<leftarrow> cell_upd table key (\<lambda>_. c');
     if cmp \<noteq> 1 then unlock_local_table table key else Some table
   }"

section \<open>Searching records\<close>

definition qpns :: "recorder list \<Rightarrow> u64 list" where
  "qpns rs = map rec_qpn rs"

lemma find_free_record_cases:
  assumes "length rs = MAX_RECORDER_NUM"
  shows "(\<exists>d < n. find_free_record rs i n = Some ((i + d) mod MAX_RECORDER_NUM) \<and>
       rec_qpn (rs ! ((i + d) mod MAX_RECORDER_NUM)) = 0) \<or>
    (find_free_record rs i n = None \<and> (\<forall>d < n. rec_qpn (rs ! ((i + d) mod MAX_RECORDER_NUM)) \<noteq> 0))"
proof (induction n arbitrary: i)
  case 0
  then show ?case by simp
next
  case (Suc n)
  have i: "i mod MAX_RECORDER_NUM < length rs" using assms by (simp add: MAX_RECORDER_NUM_def)
  show ?case
  proof (cases "rec_qpn (rs ! (i mod MAX_RECORDER_NUM)) = 0")
    case True
    with i show ?thesis by (intro disjI1 exI [of _ 0]) (simp add: arr_get_def)
  next
    case False
    then have rec: "find_free_record rs i (Suc n) = find_free_record rs (Suc i) n" using i by (simp add: arr_get_def)
    from Suc [of "Suc i"] show ?thesis
    proof
      assume "\<exists>d < n. find_free_record rs (Suc i) n = Some ((Suc i + d) mod MAX_RECORDER_NUM) \<and>
        rec_qpn (rs ! ((Suc i + d) mod MAX_RECORDER_NUM)) = 0"
      then obtain d where "d < n" "find_free_record rs (Suc i) n = Some ((i + Suc d) mod MAX_RECORDER_NUM)"
        "rec_qpn (rs ! ((i + Suc d) mod MAX_RECORDER_NUM)) = 0" by auto
      with rec show ?thesis by (intro disjI1 exI [of _ "Suc d"]) simp
    next
      assume none: "find_free_record rs (Suc i) n = None \<and>
        (\<forall>d < n. rec_qpn (rs ! ((Suc i + d) mod MAX_RECORDER_NUM)) \<noteq> 0)"
      have "rec_qpn (rs ! ((i + d) mod MAX_RECORDER_NUM)) \<noteq> 0" if "d < Suc n" for d
        using that none False by (cases d) auto
      with none rec show ?thesis by auto
    qed
  qed
qed

lemma map_qpn_insert_cases:
  assumes len: "length rs = MAX_RECORDER_NUM"
  shows "if 0 \<in> set (qpns rs)
    then \<exists>k < MAX_RECORDER_NUM. map_qpn_to_idx rs qpn True = Some k \<and> rec_qpn (rs ! k) = 0
    else map_qpn_to_idx rs qpn True = None"
proof -
  define f where "f = unat qpn mod MAX_RECORDER_NUM"
  have f: "f < length rs" using len by (simp add: f_def MAX_RECORDER_NUM_def)
  have eq: "map_qpn_to_idx rs qpn True =
      (if rec_qpn (rs ! f) = 0 then Some f else find_free_record rs (f + 1) (MAX_RECORDER_NUM - 1))"
    using f by (simp add: map_qpn_to_idx_def arr_get_def f_def)
  have mem: "0 \<in> set (qpns rs) \<longleftrightarrow> (\<exists>k < MAX_RECORDER_NUM. rec_qpn (rs ! k) = 0)"
    unfolding qpns_def set_map using len by (auto simp: in_set_conv_nth image_iff) (metis nth_mem)
  have all: "\<exists>d < MAX_RECORDER_NUM - 1. k = (f + 1 + d) mod MAX_RECORDER_NUM" if "k < MAX_RECORDER_NUM" "k \<noteq> f" for k
  proof (cases "f < k")
    case True
    then show ?thesis using that by (intro exI [of _ "k - f - 1"]) auto
  next
    case False
    then show ?thesis using that f len by (intro exI [of _ "k + MAX_RECORDER_NUM - f - 1"]) auto
  qed
  from find_free_record_cases [OF len, of "MAX_RECORDER_NUM - 1" "f + 1"] show ?thesis
  proof (elim disjE exE conjE)
    fix d assume d: "find_free_record rs (f + 1) (MAX_RECORDER_NUM - 1) = Some ((f + 1 + d) mod MAX_RECORDER_NUM)"
      "rec_qpn (rs ! ((f + 1 + d) mod MAX_RECORDER_NUM)) = 0"
    have "(f + 1 + d) mod MAX_RECORDER_NUM < MAX_RECORDER_NUM" by (simp add: MAX_RECORDER_NUM_def)
    with d mem f len eq show ?thesis by (cases "rec_qpn (rs ! f) = 0") auto
  next
    assume none: "find_free_record rs (f + 1) (MAX_RECORDER_NUM - 1) = None"
      "\<forall>d < MAX_RECORDER_NUM - 1. rec_qpn (rs ! ((f + 1 + d) mod MAX_RECORDER_NUM)) \<noteq> 0"
    show ?thesis
    proof (cases "rec_qpn (rs ! f) = 0")
      case True
      with mem f len eq show ?thesis by auto
    next
      case False
      then have "0 \<notin> set (qpns rs)" unfolding mem using none(2) all by metis
      with False none(1) eq show ?thesis by simp
    qed
  qed
qed

lemma find_record_Some_iff:
  "i + n \<ge> length rs \<Longrightarrow> find_record rs qpn i n = Some k \<longleftrightarrow>
     i \<le> k \<and> k < length rs \<and> rec_qpn (rs ! k) = qpn \<and> (\<forall>j. i \<le> j \<and> j < k \<longrightarrow> rec_qpn (rs ! j) \<noteq> qpn)"
proof (induction n arbitrary: i)
  case 0
  then show ?case by auto
next
  case (Suc n)
  show ?case
  proof (cases "i < length rs \<and> rec_qpn (rs ! i) \<noteq> qpn")
    case True
    then have rec: "find_record rs qpn i (Suc n) = find_record rs qpn (Suc i) n" by (simp add: arr_get_def)
    have "(\<forall>j. i \<le> j \<and> j < k \<longrightarrow> rec_qpn (rs ! j) \<noteq> qpn) \<longleftrightarrow>
        (\<forall>j. Suc i \<le> j \<and> j < k \<longrightarrow> rec_qpn (rs ! j) \<noteq> qpn)"
      using True by (metis Suc_leD le_antisym not_less_eq_eq)
    moreover have "k \<noteq> i" if "rec_qpn (rs ! k) = qpn" using that True by auto
    ultimately show ?thesis unfolding rec using Suc by (auto simp: Suc_le_eq)
  next
    case False
    then show ?thesis by (auto simp: arr_get_def not_le [symmetric] dest: leD)
  qed
qed

lemma map_qpn_lookup_iff:
  assumes len: "length rs = MAX_RECORDER_NUM"
  shows "map_qpn_to_idx rs qpn False = Some k \<longleftrightarrow>
    unat qpn mod MAX_RECORDER_NUM \<le> k \<and> k < MAX_RECORDER_NUM \<and> rec_qpn (rs ! k) = qpn \<and>
    (\<forall>j. unat qpn mod MAX_RECORDER_NUM \<le> j \<and> j < k \<longrightarrow> rec_qpn (rs ! j) \<noteq> qpn)"
proof -
  define f where "f = unat qpn mod MAX_RECORDER_NUM"
  have "f < length rs" using len by (simp add: f_def MAX_RECORDER_NUM_def)
  then have "map_qpn_to_idx rs qpn False = find_record rs qpn f MAX_RECORDER_NUM"
    by (simp add: map_qpn_to_idx_def arr_get_def f_def)
  then show ?thesis using find_record_Some_iff [of rs f MAX_RECORDER_NUM qpn k] len
    unfolding f_def [symmetric] by simp
qed

text \<open>Entering a number in the record found for it, and looking it up afterwards.\<close>

lemma lookup_after_insert:
  assumes len: "length rs = MAX_RECORDER_NUM" and new: "qpn \<notin> set (qpns rs)"
    and ins: "map_qpn_to_idx rs qpn True = Some k"
  shows "map_qpn_to_idx (rs[k := (rs ! k)\<lparr>rec_qpn := qpn\<rparr>]) qpn False =
    (if unat qpn mod MAX_RECORDER_NUM \<le> k then Some k else None)"
proof -
  let ?rs = "rs[k := (rs ! k)\<lparr>rec_qpn := qpn\<rparr>]"
  have k: "k < MAX_RECORDER_NUM"
    using map_qpn_insert_cases [OF len, of qpn] ins by (auto split: if_splits)
  have len': "length ?rs = MAX_RECORDER_NUM" using len by simp
  have other: "rec_qpn (?rs ! j) \<noteq> qpn" if "j < MAX_RECORDER_NUM" "j \<noteq> k" for j
    using that new len by (auto simp: qpns_def image_iff)
  have here: "rec_qpn (?rs ! k) = qpn" using k len by simp
  show ?thesis
  proof (cases "unat qpn mod MAX_RECORDER_NUM \<le> k")
    case True
    have "rec_qpn (?rs ! j) \<noteq> qpn" if "j < k" for j using other [of j] that k by simp
    then have "map_qpn_to_idx ?rs qpn False = Some k"
      unfolding map_qpn_lookup_iff [OF len'] using True k here by blast
    with True show ?thesis by simp
  next
    case False
    have "map_qpn_to_idx ?rs qpn False \<noteq> Some j" for j
      unfolding map_qpn_lookup_iff [OF len'] using False k other by metis
    with False show ?thesis by (cases "map_qpn_to_idx ?rs qpn False") auto
  qed
qed

section \<open>The hash function\<close>

text \<open>The multiplier is odd, so each round is a bijection of the 64-bit words.\<close>

lemma hash_mult_inverse: "hash_mult * 0xf1de83e19937733d = 1"
  by (simp add: hash_mult_def)

lemma hash_mult_cancel: "x * hash_mult = y * hash_mult \<longleftrightarrow> x = y"
proof
  assume "x * hash_mult = y * hash_mult"
  then have "x * (hash_mult * 0xf1de83e19937733d) = y * (hash_mult * 0xf1de83e19937733d)" by (simp only: mult.assoc [symmetric])
  then show "x = y" by (simp only: hash_mult_inverse mult_1_right)
qed simp

lemma xor_cancel_left: "h XOR x = h XOR y \<longleftrightarrow> x = (y :: u64)"
  by (auto simp: bit_eq_iff bit_xor_iff)

lemma hash_one_word_inj: "MyCityHash64WithSeed [x] [] seed = MyCityHash64WithSeed [y] [] seed \<longleftrightarrow> x = y"
  by (simp add: MyCityHash64WithSeed_def hash_mult_cancel xor_cancel_left)

section \<open>The hashed tables\<close>

definition cell :: "u64 \<Rightarrow> nat \<times> nat" where
  "cell key = (unat (hash_row key), unat (hash_col key))"

definition table_ok :: "'a list list \<Rightarrow> bool" where
  "table_ok t \<longleftrightarrow> length t = BLOOM_ROWS \<and> (\<forall>row \<in> set t. length row = BLOOM_COLS)"

definition cell_val :: "'a list list \<Rightarrow> nat \<times> nat \<Rightarrow> 'a" where
  "cell_val t p = t ! fst p ! snd p"

lemma mod_256_lt: "unat (ucast (x mod 256 :: u64) :: u32) < 256"
proof -
  have "unat (x mod 256) < 256" by (simp add: unat_mod)
  then show ?thesis by (simp add: unsigned_ucast_eq take_bit_nat_eq_self)
qed

lemma hash_row_lt: "unat (hash_row key) < BLOOM_ROWS"
  using mod_256_lt by (simp add: hash_row_def BLOOM_ROWS_def)

lemma hash_col_lt: "unat (hash_col key) < BLOOM_COLS"
  using mod_256_lt by (simp add: hash_col_def BLOOM_COLS_def)

lemma cell_get_eq: "table_ok t \<Longrightarrow> cell_get t key = Some (cell_val t (cell key))"
  using hash_row_lt [of key] hash_col_lt [of key]
  by (simp add: cell_get_def table_ok_def arr_get_def cell_val_def cell_def)

lemma cell_upd_ok:
  assumes "table_ok t"
  shows "\<exists>t'. cell_upd t key f = Some t' \<and> table_ok t' \<and>
    (\<forall>k. cell_val t' (cell k) = (if cell k = cell key then f (cell_val t (cell key)) else cell_val t (cell k)))"
proof -
  let ?r = "unat (hash_row key)" and ?c = "unat (hash_col key)"
  let ?t = "t[?r := (t ! ?r)[?c := f (t ! ?r ! ?c)]]"
  have r: "?r < length t" using hash_row_lt assms by (simp add: table_ok_def)
  then have c: "?c < length (t ! ?r)" using hash_col_lt assms by (simp add: table_ok_def)
  have "cell_upd t key f = Some ?t" using r c by (simp add: cell_upd_def arr_get_def arr_upd_def)
  moreover have "table_ok ?t"
    using assms r c set_update_subset_insert [of t ?r "(t ! ?r)[?c := f (t ! ?r ! ?c)]"]
    by (auto simp: table_ok_def)
  moreover have "cell_val ?t (cell k) = (if cell k = cell key then f (cell_val t (cell key)) else cell_val t (cell k))"
    for k using r c by (auto simp: cell_val_def cell_def nth_list_update)
  ultimately show ?thesis by blast
qed

text \<open>The filter holds the multiset \<open>M\<close> of keys: each cell counts the keys that hash to it.\<close>

definition bloom_holds :: "u32 list list \<Rightarrow> u64 multiset \<Rightarrow> bool" where
  "bloom_holds b M \<longleftrightarrow> table_ok b \<and>
     (\<forall>k. cell_val b (cell k) = of_nat (size (filter_mset (\<lambda>x. cell x = cell k) M)))"

lemma bloom2D_init_holds: "bloom_holds bloom2D_init {#}"
  using hash_row_lt hash_col_lt
  by (auto simp: bloom_holds_def table_ok_def bloom2D_init_def cell_val_def cell_def)

lemma bloom2D_insert_holds:
  assumes "bloom_holds b M"
  shows "\<exists>c b'. bloom2D_insert b key = Some (c, b') \<and> bloom_holds b' (add_mset key M) \<and>
    c = ucast (cell_val b' (cell key))"
proof -
  have ok: "table_ok b" using assms by (simp add: bloom_holds_def)
  obtain b' where b': "cell_upd b key (\<lambda>c. c + 1) = Some b'" "table_ok b'"
    "\<forall>k. cell_val b' (cell k) = (if cell k = cell key then cell_val b (cell key) + 1 else cell_val b (cell k))"
    using cell_upd_ok [OF ok, of key "\<lambda>c. c + 1"] by blast
  have "bloom_holds b' (add_mset key M)"
    using assms b'(2,3) by (auto simp: bloom_holds_def add.commute)
  with b' show ?thesis by (simp add: bloom2D_insert_def cell_get_eq)
qed

lemma bloom2D_decre_holds:
  assumes "bloom_holds b (add_mset key M)"
  shows "\<exists>b'. bloom2D_decre b key = Some b' \<and> bloom_holds b' M"
proof -
  have ok: "table_ok b" using assms by (simp add: bloom_holds_def)
  obtain b' where b': "cell_upd b key (\<lambda>c. c - 1) = Some b'" "table_ok b'"
    "\<forall>k. cell_val b' (cell k) = (if cell k = cell key then cell_val b (cell key) - 1 else cell_val b (cell k))"
    using cell_upd_ok [OF ok, of key "\<lambda>c. c - 1"] by blast
  have "bloom_holds b' M" using assms b'(2,3) by (auto simp: bloom_holds_def)
  with b' show ?thesis by (simp add: bloom2D_decre_def)
qed

lemma bloom2D_query_bound:
  assumes "bloom_holds b M" "size M < 2 ^ 32"
  shows "\<exists>c. bloom2D_query b key = Some c \<and> count M key \<le> unat c \<and> unat c \<le> size M"
proof -
  let ?S = "filter_mset (\<lambda>x. cell x = cell key) M"
  have q: "bloom2D_query b key = Some (of_nat (size ?S))"
    using assms(1) by (simp add: bloom2D_query_def bloom_holds_def cell_get_eq)
  have le: "size ?S \<le> size M" by (rule size_filter_mset_lesseq)
  then have "size ?S < 2 ^ 32" using assms(2) by linarith
  then have u: "unat (of_nat (size ?S) :: u32) = size ?S" by (simp add: unat_of_nat)
  have "count M key = count ?S key" by simp
  also have "\<dots> \<le> size ?S" by (rule count_le_size)
  finally show ?thesis using q u le by simp
qed

lemma locking_returns:
  "locking_local_table t key = Some t' \<Longrightarrow> table_ok t \<Longrightarrow> cell_val t (cell key) = 0"
proof (induction rule: locking_local_table.raw_induct [rotated, consumes 1])
  case (1 f t key t')
  show ?case
  proof (rule ccontr)
    assume nz: "cell_val t (cell key) \<noteq> 0"
    obtain u where u: "cell_upd t key (\<lambda>_. cell_val t (cell key)) = Some u" "table_ok u"
      "cell_val u (cell key) = cell_val t (cell key)"
      using cell_upd_ok [OF 1(3), of key "\<lambda>_. cell_val t (cell key)"] by auto
    then have "f u key = Some t'" using 1(2,3) nz by (simp add: cell_get_eq CAS_cell_def)
    with 1(1) u nz show False by metis
  qed
qed

lemma locking_ok:
  assumes "table_ok t"
  shows "if cell_val t (cell key) = 0
    then \<exists>t'. locking_local_table t key = Some t' \<and> table_ok t' \<and>
      (\<forall>k. cell_val t' (cell k) = (if cell k = cell key then 1 else cell_val t (cell k)))
    else locking_local_table t key = None"
proof (cases "cell_val t (cell key) = 0")
  case True
  obtain u where u: "cell_upd t key (\<lambda>_. 1) = Some u" "table_ok u"
    "\<forall>k. cell_val u (cell k) = (if cell k = cell key then 1 else cell_val t (cell k))"
    using cell_upd_ok [OF assms, of key "\<lambda>_. 1"] by blast
  then have "locking_local_table t key = Some u"
    using True assms by (subst locking_local_table.simps) (simp add: cell_get_eq CAS_cell_def)
  with True u show ?thesis by simp
next
  case False
  with locking_returns [OF _ assms] show ?thesis by (cases "locking_local_table t key") auto
qed

lemma unlock_ok:
  assumes "table_ok t" "cell_val t (cell key) = 1"
  shows "\<exists>t'. unlock_local_table t key = Some t' \<and> table_ok t' \<and>
    (\<forall>k. cell_val t' (cell k) = (if cell k = cell key then 0 else cell_val t (cell k)))"
proof -
  obtain u where u: "cell_upd t key (\<lambda>_. 0) = Some u" "table_ok u"
    "\<forall>k. cell_val u (cell k) = (if cell k = cell key then 0 else cell_val t (cell k))"
    using cell_upd_ok [OF assms(1), of key "\<lambda>_. 0"] by blast
  then have "unlock_local_table t key = Some u"
    using assms by (subst unlock_local_table.simps) (simp add: cell_get_eq CAS_cell_def)
  with u show ?thesis by blast
qed

section \<open>Properties\<close>

text \<open>
  Property C29. A queue pair is entered in a record that is free, whenever one is. With all
  records in use the search runs off the end of the function.
\<close>

theorem map_qpn_insert_free:
  assumes "length rs = MAX_RECORDER_NUM"
  shows "if 0 \<in> set (qpns rs)
    then \<exists>k < MAX_RECORDER_NUM. map_qpn_to_idx rs qpn True = Some k \<and> rec_qpn (rs ! k) = 0
    else map_qpn_to_idx rs qpn True = None"
  by (rule map_qpn_insert_cases [OF assms])

abbreviation free_record :: recorder where
  "free_record \<equiv> \<lparr>rec_qpn = 0, rec_counters = [], rec_c_counters = []\<rparr>"

theorem map_qpn_insert_free_witness:
  "\<exists>k < MAX_RECORDER_NUM. map_qpn_to_idx (replicate MAX_RECORDER_NUM free_record) 7 True = Some k"
  using map_qpn_insert_free [of "replicate MAX_RECORDER_NUM free_record" 7]
  by (simp add: qpns_def MAX_RECORDER_NUM_def split: if_splits) blast

text \<open>
  Property C30. The lookup finds a queue pair that has just been entered exactly when the search
  for its record did not wrap around; otherwise it reads past the array of records.
\<close>

theorem map_qpn_lookup_after_insert:
  assumes "length rs = MAX_RECORDER_NUM" "qpn \<notin> set (qpns rs)" "map_qpn_to_idx rs qpn True = Some k"
  shows "map_qpn_to_idx (rs[k := (rs ! k)\<lparr>rec_qpn := qpn\<rparr>]) qpn False =
    (if unat qpn mod MAX_RECORDER_NUM \<le> k then Some k else None)"
  by (rule lookup_after_insert [OF assms])

text \<open>With the number 31 entered, the number 63 goes to record 0 and cannot be looked up.\<close>

theorem map_qpn_lookup_after_insert_witness:
  "let rs = (replicate 32 free_record)[31 := free_record\<lparr>rec_qpn := 31\<rparr>] in
     map_qpn_to_idx rs 63 True = Some 0 \<and>
     map_qpn_to_idx (rs[0 := (rs ! 0)\<lparr>rec_qpn := 63\<rparr>]) 63 False = None"
proof -
  let ?rs = "(replicate 32 free_record)[31 := free_record\<lparr>rec_qpn := 31\<rparr>]"
  have len: "length ?rs = MAX_RECORDER_NUM" by (simp add: MAX_RECORDER_NUM_def)
  have ins: "map_qpn_to_idx ?rs 63 True = Some 0"
    using find_free_record.simps(2) [of ?rs 32 30] by (simp add: map_qpn_to_idx_def arr_get_def MAX_RECORDER_NUM_def)
  have "qpns ?rs = (replicate 32 0)[31 := 31]" by (simp add: qpns_def map_update)
  then have "63 \<notin> set (qpns ?rs)" using set_update_subset_insert [of "replicate 32 (0::u64)" 31 31] by auto
  from map_qpn_lookup_after_insert [OF len this ins] ins show ?thesis
    unfolding Let_def by (simp add: MAX_RECORDER_NUM_def)
qed

text \<open>
  Property C31. The counting filter never underestimates: after any insertions and removals
  of present keys a query returns at least the number of times the key is present, and at
  most the number of keys, as long as fewer than \<open>2 ^ 32\<close> keys are present.
\<close>

theorem bloom2D_never_underestimates:
  assumes "bloom_holds b M" "size M < 2 ^ 32"
  shows "(\<exists>c. bloom2D_query b key = Some c \<and> count M key \<le> unat c \<and> unat c \<le> size M) \<and>
    (\<exists>c b'. bloom2D_insert b k = Some (c, b') \<and> bloom_holds b' (add_mset k M)) \<and>
    (k \<in># M \<longrightarrow> (\<exists>b'. bloom2D_decre b k = Some b' \<and> bloom_holds b' (M - {#k#})))"
  using bloom2D_query_bound [OF assms] bloom2D_insert_holds [OF assms(1), of k]
    bloom2D_decre_holds [of b k "M - {#k#}"] assms(1) by (metis insert_DiffM)

theorem bloom2D_never_underestimates_witness:
  "\<exists>c. bloom2D_query bloom2D_init 4096 = Some c \<and> unat c = 0"
  using bloom2D_never_underestimates [OF bloom2D_init_holds, of 4096 4096] by auto

text \<open>
  The lock of a key is taken exactly when its cell is 0, marks that cell and no
  other, and releasing it restores the table's cells; taking a lock that is held, by anyone
  whose key shares the cell, never returns.
\<close>

lemma local_lock_exclusive:
  assumes "table_ok t"
  shows "(cell_val t (cell key) \<noteq> 0 \<longrightarrow> locking_local_table t key = None) \<and>
    (cell_val t (cell key) = 0 \<longrightarrow>
       (\<exists>t'. locking_local_table t key = Some t' \<and>
         (\<forall>k. cell k = cell key \<longrightarrow> locking_local_table t' k = None) \<and>
         (\<exists>t''. unlock_local_table t' key = Some t'' \<and> (\<forall>k. cell_val t'' (cell k) = cell_val t (cell k)))))"
proof (intro conjI impI)
  assume "cell_val t (cell key) \<noteq> 0"
  with locking_ok [OF assms, of key] show "locking_local_table t key = None" by simp
next
  assume z: "cell_val t (cell key) = 0"
  with locking_ok [OF assms, of key] obtain t' where t': "locking_local_table t key = Some t'" "table_ok t'"
    "\<forall>k. cell_val t' (cell k) = (if cell k = cell key then 1 else cell_val t (cell k))" by auto
  have "locking_local_table t' k = None" if "cell k = cell key" for k
    using locking_ok [OF t'(2), of k] t'(3) that by auto
  moreover obtain t'' where "unlock_local_table t' key = Some t''"
    "\<forall>k. cell_val t'' (cell k) = (if cell k = cell key then 0 else cell_val t' (cell k))"
    using unlock_ok [OF t'(2), of key] t'(3) by auto
  then have "\<exists>t''. unlock_local_table t' key = Some t'' \<and> (\<forall>k. cell_val t'' (cell k) = cell_val t (cell k))"
    using t'(3) z by auto
  ultimately show "\<exists>t'. locking_local_table t key = Some t' \<and>
      (\<forall>k. cell k = cell key \<longrightarrow> locking_local_table t' k = None) \<and>
      (\<exists>t''. unlock_local_table t' key = Some t'' \<and> (\<forall>k. cell_val t'' (cell k) = cell_val t (cell k)))"
    using t'(1) by blast
qed

end
