(* ===== verification/Fusa_Driver.thy ===== *)
theory Fusa_Driver
  imports Recorder
begin

text \<open>
  The hooks of Fusa in the mlx5 driver: \<open>mlx5_create_qp\<close>
  (\<^verbatim>\<open>providers/mlx5/verbs.c\<close>), which gives every queue pair a record in the shared
  memory, and \<open>mlx5_post_send\<close> (\<^verbatim>\<open>providers/mlx5/qp.c\<close>), which leaves an atomic
  operation to the network card or, when the strategy table says so, rewrites it to an RPC
  to the server's CPU. The calls that reach the card are recorded with their arguments, and
  what \<open>_mlx5_post_send\<close> returns is a parameter.
\<close>

section \<open>Work requests and the state\<close>

datatype ibv_wr_opcode =
    IBV_WR_RDMA_WRITE | IBV_WR_RDMA_WRITE_WITH_IMM | IBV_WR_SEND | IBV_WR_SEND_WITH_IMM
  | IBV_WR_RDMA_READ | IBV_WR_ATOMIC_CMP_AND_SWP | IBV_WR_ATOMIC_FETCH_AND_ADD | IBV_WR_LOCAL_INV
  | IBV_WR_BIND_MW | IBV_WR_SEND_WITH_INV | IBV_WR_TSO | IBV_WR_DRIVER1 | IBV_WR_FLUSH
  | IBV_WR_ATOMIC_WRITE

record ibv_sge =
  sge_addr :: u64
  sge_length :: u32
  sge_lkey :: u32

text \<open>
  The fields of a send request that the hook reads or writes. The union \<open>wr\<close> is its four
  words: \<open>remote_addr\<close> is shared by \<open>rdma\<close> and \<open>atomic\<close>, and \<open>rdma.rkey\<close> is the low half
  of \<open>atomic.compare_add\<close>.
\<close>

record ibv_send_wr =
  wr_id :: u64
  sg_list :: "ibv_sge list"
  opcode :: ibv_wr_opcode
  send_flags :: u32
  wr_remote_addr :: u64
  wr_compare_add :: u64
  wr_swap :: u64
  wr_atomic_rkey :: u32

definition rdma_rkey :: "ibv_send_wr \<Rightarrow> u32" where
  "rdma_rkey wr = ucast (wr_compare_add wr)"

definition set_rdma_rkey :: "u32 \<Rightarrow> ibv_send_wr \<Rightarrow> ibv_send_wr" where
  "set_rdma_rkey v wr = wr\<lparr>wr_compare_add := (wr_compare_add wr AND NOT (mask 32)) OR ucast v\<rparr>"

record rpc_op =
  op_remote_addr :: u64
  op_swap :: u64
  op_cmp :: u64
  op_resp_addr :: u64
  op_qpn :: u64
  op_opcode :: u64
  op_comp :: u64
  op_crc :: u64

definition sizeof_rpc_op :: u64 where
  "sizeof_rpc_op = 64"

definition CAS_OP_CODE :: u64 where
  "CAS_OP_CODE = 1"

definition FAA_OP_CODE :: u64 where
  "FAA_OP_CODE = 977"

definition CRC_CHECK_MAGIC :: u64 where
  "CRC_CHECK_MAGIC = 888"

definition QP_OFF :: u64 where
  "QP_OFF = 100000"

text \<open>
  The state: the shared memory, the RPC messages in the local buffers by their address, and
  the calls made so far.
\<close>

datatype nic_call =
    PostRecv u32 u64 ibv_sge
  | PostSend u32 ibv_send_wr

record driver_state =
  shm :: sh_local_region
  rpc_mem :: "u64 \<Rightarrow> rpc_op"
  calls :: "nic_call list"

section \<open>Creating a queue pair\<close>

definition zero_recorder :: recorder where
  "zero_recorder = \<lparr>rec_qpn = 0, rec_counters = replicate COUNTER_TOTAL 0, rec_c_counters = replicate COUNTER_TOTAL 0\<rparr>"

definition zero_region :: sh_local_region where
  "zero_region = \<lparr>
     strag_credit = replicate COUNTER_TOTAL 0,
     records = replicate MAX_RECORDER_NUM zero_recorder,
     rmeta = \<lparr>rm_machine_num = 0, rm_machine_id = 0, rm_rkey = 0, rm_rpc_addr = 0, rm_length = 0, rm_crc = 0\<rparr>,
     lmeta = \<lparr>lm_machine_num = 0, lm_machine_id = 0, lm_lkey = 0, lm_rpc_addr = 0, lm_s_buf_length = 0,
       lm_r_buf_length = 0\<rparr>,
     remote_off = replicate MAX_RECORDER_NUM 0, local_off = replicate MAX_RECORDER_NUM 0,
     running = replicate MAX_RECORDER_NUM 0, epoch = replicate MAX_RECORDER_NUM 0,
     inflight = replicate MAX_RECORDER_NUM 0,
     hotness_bloom = replicate BLOOM_ROWS (replicate BLOOM_COLS 0),
     local_lock_table = replicate BLOOM_ROWS (replicate BLOOM_COLS 0)\<rparr>"

text \<open>
  The part of \<open>mlx5_create_qp\<close> after the queue pair has been made: \<open>qp\<close> is its number, or
  \<open>None\<close> for the null pointer, which the code dereferences; the region is \<open>None\<close> before the
  first call, which maps the shared memory and clears it.
\<close>

definition mlx5_create_qp :: "u32 option \<Rightarrow> sh_local_region option \<Rightarrow> sh_local_region option" where
  "mlx5_create_qp qp shm_ptr = do {
     let shm = (case shm_ptr of None \<Rightarrow> zero_region | Some s \<Rightarrow> s);
     qp_num \<leftarrow> qp;
     idx \<leftarrow> map_qpn_to_idx (records shm) (ucast qp_num) True;
     rs \<leftarrow> arr_upd (records shm) idx (\<lambda>r. r\<lparr>rec_qpn := ucast qp_num\<rparr>);
     Some (shm\<lparr>records := rs\<rparr>)
   }"

section \<open>Posting a send request\<close>

text \<open>Marking the queue pair as running and counting the epoch.\<close>

definition post_mark :: "nat \<Rightarrow> sh_local_region \<Rightarrow> sh_local_region option" where
  "post_mark idx s = do {
     run \<leftarrow> arr_upd (running s) idx (\<lambda>c. snd (CAS_cell c 0 1));
     Some (s\<lparr>running := run\<rparr>)
   }"

definition post_epoch :: "nat \<Rightarrow> sh_local_region \<Rightarrow> sh_local_region option" where
  "post_epoch idx s = do {
     ep \<leftarrow> arr_upd (epoch s) idx (\<lambda>c. c + 1);
     Some (s\<lparr>epoch := ep\<rparr>)
   }"

definition post_clear :: "nat \<Rightarrow> sh_local_region \<Rightarrow> sh_local_region option" where
  "post_clear idx s = do {
     run \<leftarrow> arr_upd (running s) idx (\<lambda>c. snd (CAS_cell c 1 0));
     Some (s\<lparr>running := run\<rparr>)
   }"

text \<open>The entry of an address in the strategy table.\<close>

definition counter_idx :: "u64 \<Rightarrow> nat" where
  "counter_idx addr = unat (addr mod of_nat (COUNTER_TOTAL * 8) div 8)"

definition count_rnic :: "nat \<Rightarrow> nat \<Rightarrow> sh_local_region \<Rightarrow> sh_local_region option" where
  "count_rnic idx ci s = do {
     r \<leftarrow> arr_get (records s) idx;
     cs \<leftarrow> arr_upd (rec_counters r) ci (\<lambda>c. c + 1);
     Some (s\<lparr>records := (records s)[idx := r\<lparr>rec_counters := cs\<rparr>]\<rparr>)
   }"

definition count_cpu :: "nat \<Rightarrow> nat \<Rightarrow> sh_local_region \<Rightarrow> sh_local_region option" where
  "count_cpu idx ci s = do {
     r \<leftarrow> arr_get (records s) idx;
     cs \<leftarrow> arr_upd (rec_c_counters r) ci (\<lambda>c. c + 1);
     Some (s\<lparr>records := (records s)[idx := r\<lparr>rec_c_counters := cs\<rparr>]\<rparr>)
   }"

text \<open>C division and remainder: a zero divisor is undefined.\<close>

definition c_div :: "u64 \<Rightarrow> u64 \<Rightarrow> u64 option" where
  "c_div a b = (if b = 0 then None else Some (a div b))"

definition c_mod :: "u64 \<Rightarrow> u64 \<Rightarrow> u64 option" where
  "c_mod a b = (if b = 0 then None else Some (a mod b))"

text \<open>
  The place of the next request in the server's memory, and the message and answer buffers
  in local memory; both ring positions advance.
\<close>

definition rpc_remote_slot :: "nat \<Rightarrow> sh_local_region \<Rightarrow> (u64 \<times> sh_local_region) option" where
  "rpc_remote_slot idx s = do {
     let rpc_off = lm_machine_id (lmeta s) * of_nat MAX_RECORDER_NUM + of_nat idx;
     rpc_chunk \<leftarrow> c_div (rm_length (rmeta s)) (rm_machine_num (rmeta s) * of_nat MAX_RECORDER_NUM);
     let max_rpc_num = rpc_chunk div sizeof_rpc_op;
     off \<leftarrow> arr_get (remote_off s) idx;
     next_off \<leftarrow> c_mod (ucast (off + 1)) max_rpc_num;
     let s = s\<lparr>remote_off := (remote_off s)[idx := ucast next_off]\<rparr>;
     Some (rm_rpc_addr (rmeta s) + rpc_chunk * rpc_off + sizeof_rpc_op * ucast off, s)
   }"

definition rpc_local_slot :: "nat \<Rightarrow> sh_local_region \<Rightarrow> (u64 \<times> u64 \<times> sh_local_region) option" where
  "rpc_local_slot idx s = do {
     let buf_chunk = lm_r_buf_length (lmeta s) div of_nat MAX_RECORDER_NUM;
     let max_rpc_num = buf_chunk div sizeof_rpc_op;
     off \<leftarrow> arr_get (local_off s) idx;
     next_off \<leftarrow> c_mod (ucast (off + 1)) max_rpc_num;
     let s = s\<lparr>local_off := (local_off s)[idx := ucast next_off]\<rparr>;
     let recv_buf = lm_rpc_addr (lmeta s) + lm_s_buf_length (lmeta s) + buf_chunk * of_nat idx +
       sizeof_rpc_op * ucast off;
     let send_buf = lm_rpc_addr (lmeta s) + buf_chunk * of_nat idx + sizeof_rpc_op * ucast off;
     Some (recv_buf, send_buf, s)
   }"

text \<open>The RPC message and the request rewritten to an unsignalled RDMA write of it.\<close>

definition rpc_message :: "u32 \<Rightarrow> sh_local_region \<Rightarrow> ibv_send_wr \<Rightarrow> u64 \<Rightarrow> rpc_op \<Rightarrow> rpc_op" where
  "rpc_message qpn s wr recv_buf m = m\<lparr>
     op_opcode := (if opcode wr = IBV_WR_ATOMIC_CMP_AND_SWP then CAS_OP_CODE
       else if opcode wr = IBV_WR_ATOMIC_FETCH_AND_ADD then FAA_OP_CODE else op_opcode m),
     op_cmp := wr_compare_add wr,
     op_swap := wr_swap wr,
     op_qpn := ucast qpn + lm_machine_id (lmeta s) * QP_OFF,
     op_remote_addr := wr_remote_addr wr,
     op_resp_addr := recv_buf,
     op_crc := CRC_CHECK_MAGIC\<rparr>"

definition rpc_request :: "sh_local_region \<Rightarrow> ibv_sge \<Rightarrow> ibv_send_wr \<Rightarrow> u64 \<Rightarrow> u64 \<Rightarrow> ibv_send_wr" where
  "rpc_request s sge wr send_buf remote_addr =
     (set_rdma_rkey (ucast (rm_rkey (rmeta s)))
       (wr\<lparr>sg_list := sge\<lparr>sge_lkey := ucast (lm_lkey (lmeta s)), sge_addr := send_buf,
             sge_length := ucast sizeof_rpc_op\<rparr> # tl (sg_list wr),
           wr_remote_addr := remote_addr\<rparr>))
       \<lparr>opcode := IBV_WR_RDMA_WRITE, send_flags := 0\<rparr>"

definition post_rpc :: "(u32 \<Rightarrow> ibv_send_wr \<Rightarrow> int) \<Rightarrow> u32 \<Rightarrow> nat \<Rightarrow> nat \<Rightarrow> ibv_send_wr \<Rightarrow> driver_state \<Rightarrow>
    (int \<times> ibv_send_wr \<times> driver_state) option" where
  "post_rpc nic qp idx ci wr d = do {
     sge \<leftarrow> arr_get (sg_list wr) 0;
     s \<leftarrow> count_cpu idx ci (shm d);
     (remote_addr, s) \<leftarrow> rpc_remote_slot idx s;
     (recv_buf, send_buf, s) \<leftarrow> rpc_local_slot idx s;
     let m = rpc_message qp s wr recv_buf (rpc_mem d send_buf);
     let wr' = rpc_request s sge wr send_buf remote_addr;
     let d = d\<lparr>rpc_mem := (rpc_mem d)(send_buf := m),
       calls := calls d @ [PostRecv qp (wr_id wr) sge, PostSend qp wr']\<rparr>;
     s \<leftarrow> post_clear idx s;
     Some (nic qp wr', wr', d\<lparr>shm := s\<rparr>)
   }"

definition is_atomic :: "ibv_wr_opcode \<Rightarrow> bool" where
  "is_atomic op \<longleftrightarrow> op = IBV_WR_ATOMIC_CMP_AND_SWP \<or> op = IBV_WR_ATOMIC_FETCH_AND_ADD"

definition mlx5_post_send :: "(u32 \<Rightarrow> ibv_send_wr \<Rightarrow> int) \<Rightarrow> u32 \<Rightarrow> ibv_send_wr \<Rightarrow> driver_state \<Rightarrow>
    (int \<times> ibv_send_wr \<times> driver_state) option" where
  "mlx5_post_send nic qp wr d =
     (if is_atomic (opcode wr) then do {
        idx \<leftarrow> map_qpn_to_idx (records (shm d)) (ucast qp) False;
        s \<leftarrow> post_mark idx (shm d);
        s \<leftarrow> post_epoch idx s;
        let ci = counter_idx (wr_remote_addr wr);
        credit \<leftarrow> arr_get (strag_credit s) ci;
        if credit = 0 then do {
          s \<leftarrow> count_rnic idx ci s;
          Some (nic qp wr, wr, d\<lparr>shm := s, calls := calls d @ [PostSend qp wr]\<rparr>)
        }
        else post_rpc nic qp idx ci wr (d\<lparr>shm := s\<rparr>)
      }
      else Some (nic qp wr, wr, d\<lparr>calls := calls d @ [PostSend qp wr]\<rparr>))"

section \<open>Well-formed shared memory\<close>

text \<open>The arrays have the lengths of the C types.\<close>

definition shm_ok :: "sh_local_region \<Rightarrow> bool" where
  "shm_ok s \<longleftrightarrow> length (strag_credit s) = COUNTER_TOTAL \<and> length (records s) = MAX_RECORDER_NUM \<and>
     (\<forall>r \<in> set (records s). length (rec_counters r) = COUNTER_TOTAL \<and> length (rec_c_counters r) = COUNTER_TOTAL) \<and>
     length (remote_off s) = MAX_RECORDER_NUM \<and> length (local_off s) = MAX_RECORDER_NUM \<and>
     length (running s) = MAX_RECORDER_NUM \<and> length (epoch s) = MAX_RECORDER_NUM"

text \<open>
  The regions are configured: each queue pair of each machine has at least one message of
  room on the server, each queue pair one in local memory, no region wraps around, and the
  ring positions are within their chunks.
\<close>

definition rpc_chunk :: "sh_local_region \<Rightarrow> nat" where
  "rpc_chunk s = unat (rm_length (rmeta s)) div (unat (rm_machine_num (rmeta s)) * MAX_RECORDER_NUM)"

definition buf_chunk :: "sh_local_region \<Rightarrow> nat" where
  "buf_chunk s = unat (lm_r_buf_length (lmeta s)) div MAX_RECORDER_NUM"

definition rpc_ok :: "sh_local_region \<Rightarrow> bool" where
  "rpc_ok s \<longleftrightarrow>
     unat (rm_machine_num (rmeta s)) * MAX_RECORDER_NUM < 2 ^ 64 \<and>
     lm_machine_id (lmeta s) < rm_machine_num (rmeta s) \<and> 64 \<le> rpc_chunk s \<and> rpc_chunk s < 2 ^ 32 \<and>
     unat (rm_rpc_addr (rmeta s)) + unat (rm_length (rmeta s)) < 2 ^ 64 \<and>
     64 \<le> buf_chunk s \<and> buf_chunk s < 2 ^ 32 \<and>
     lm_r_buf_length (lmeta s) \<le> lm_s_buf_length (lmeta s) \<and>
     unat (lm_rpc_addr (lmeta s)) + unat (lm_s_buf_length (lmeta s)) + unat (lm_r_buf_length (lmeta s)) < 2 ^ 64 \<and>
     (\<forall>i < MAX_RECORDER_NUM. unat (remote_off s ! i) < rpc_chunk s div 64 \<and> unat (local_off s ! i) < buf_chunk s div 64)"

lemma shm_okD:
  assumes "shm_ok s" "idx < MAX_RECORDER_NUM"
  shows "idx < length (records s)" "idx < length (remote_off s)" "idx < length (local_off s)"
    "idx < length (running s)" "idx < length (epoch s)" "length (strag_credit s) = COUNTER_TOTAL"
    "length (rec_counters (records s ! idx)) = COUNTER_TOTAL"
    "length (rec_c_counters (records s ! idx)) = COUNTER_TOTAL" "length (records s) = MAX_RECORDER_NUM"
  using assms by (simp_all add: shm_ok_def)

lemma counter_idx_lt: "counter_idx a < COUNTER_TOTAL"
proof -
  have "unat (a mod 65536) < 65536" by (simp add: unat_mod)
  then show ?thesis
    by (simp add: counter_idx_def MAX_COUNTER_NUM_def SLOT_GRANULARITY_def unat_div div_less_iff_less_mult)
qed

text \<open>The counter of a queue pair for an entry of the strategy table.\<close>

definition rnic_count :: "sh_local_region \<Rightarrow> nat \<Rightarrow> nat \<Rightarrow> u64" where
  "rnic_count s i j = rec_counters (records s ! i) ! j"

definition cpu_count :: "sh_local_region \<Rightarrow> nat \<Rightarrow> nat \<Rightarrow> u64" where
  "cpu_count s i j = rec_c_counters (records s ! i) ! j"

lemma count_rnic_ok:
  assumes "shm_ok s" "idx < MAX_RECORDER_NUM" "ci < COUNTER_TOTAL"
  shows "\<exists>rs. count_rnic idx ci s = Some (s\<lparr>records := rs\<rparr>) \<and> shm_ok (s\<lparr>records := rs\<rparr>) \<and> qpns rs = qpns (records s) \<and>
    (\<forall>i j. rnic_count (s\<lparr>records := rs\<rparr>) i j = rnic_count s i j + (if i = idx \<and> j = ci then 1 else 0)) \<and>
    cpu_count (s\<lparr>records := rs\<rparr>) = cpu_count s"
proof -
  note D = shm_okD [OF assms(1,2)]
  let ?r = "records s ! idx"
  let ?rs = "(records s)[idx := ?r\<lparr>rec_counters := (rec_counters ?r)[ci := rec_counters ?r ! ci + 1]\<rparr>]"
  have "count_rnic idx ci s = Some (s\<lparr>records := ?rs\<rparr>)"
    using D assms(3) by (simp add: count_rnic_def c_access)
  moreover have "qpns ?rs = qpns (records s)"
    using D(1) by (simp add: qpns_def map_update) (simp add: map_update [symmetric])
  moreover have "shm_ok (s\<lparr>records := ?rs\<rparr>)"
    using assms(1) D set_update_subset_insert [of "records s" idx]
    by (auto simp: shm_ok_def dest!: subsetD [OF set_update_subset_insert])
  moreover have "rnic_count (s\<lparr>records := ?rs\<rparr>) i j = rnic_count s i j + (if i = idx \<and> j = ci then 1 else 0)" for i j
    using D(1,7) assms(3) by (auto simp: rnic_count_def nth_list_update)
  moreover have "cpu_count (s\<lparr>records := ?rs\<rparr>) = cpu_count s"
    using D(1) by (auto simp: cpu_count_def nth_list_update fun_eq_iff)
  ultimately show ?thesis by blast
qed

lemma count_cpu_ok:
  assumes "shm_ok s" "idx < MAX_RECORDER_NUM" "ci < COUNTER_TOTAL"
  shows "\<exists>rs. count_cpu idx ci s = Some (s\<lparr>records := rs\<rparr>) \<and> shm_ok (s\<lparr>records := rs\<rparr>) \<and> qpns rs = qpns (records s) \<and>
    (\<forall>i j. cpu_count (s\<lparr>records := rs\<rparr>) i j = cpu_count s i j + (if i = idx \<and> j = ci then 1 else 0)) \<and>
    rnic_count (s\<lparr>records := rs\<rparr>) = rnic_count s"
proof -
  note D = shm_okD [OF assms(1,2)]
  let ?r = "records s ! idx"
  let ?rs = "(records s)[idx := ?r\<lparr>rec_c_counters := (rec_c_counters ?r)[ci := rec_c_counters ?r ! ci + 1]\<rparr>]"
  have "count_cpu idx ci s = Some (s\<lparr>records := ?rs\<rparr>)"
    using D assms(3) by (simp add: count_cpu_def c_access)
  moreover have "qpns ?rs = qpns (records s)"
    using D(1) by (simp add: qpns_def map_update) (simp add: map_update [symmetric])
  moreover have "shm_ok (s\<lparr>records := ?rs\<rparr>)"
    using assms(1) D by (auto simp: shm_ok_def dest!: subsetD [OF set_update_subset_insert])
  moreover have "cpu_count (s\<lparr>records := ?rs\<rparr>) i j = cpu_count s i j + (if i = idx \<and> j = ci then 1 else 0)" for i j
    using D(1,8) assms(3) by (auto simp: cpu_count_def nth_list_update)
  moreover have "rnic_count (s\<lparr>records := ?rs\<rparr>) = rnic_count s"
    using D(1) by (auto simp: rnic_count_def nth_list_update fun_eq_iff)
  ultimately show ?thesis by blast
qed

lemma ring_next:
  fixes off :: u32 and n :: u64
  assumes "unat off < unat n" "unat n < 2 ^ 32"
  shows "\<exists>w. c_mod (ucast (off + 1)) n = Some w \<and> unat (ucast w :: u32) = (unat off + 1) mod unat n"
proof -
  have n: "n \<noteq> 0" using assms(1) by auto
  have "unat (off + 1) = unat off + 1" using assms by (simp add: unat_word_ariths)
  then have u: "unat (ucast (off + 1) :: u64) = unat off + 1"
    using unsigned_less [of "off + 1", where 'a = nat] by (simp add: unsigned_ucast_eq take_bit_nat_eq_self)
  have "unat (ucast (off + 1) mod n) = (unat off + 1) mod unat n" by (simp only: unat_mod u)
  moreover have "(unat off + 1) mod unat n < 2 ^ 32"
    using mod_less_divisor [of "unat n" "unat off + 1"] assms by linarith
  ultimately show ?thesis using n by (simp add: c_mod_def unsigned_ucast_eq take_bit_nat_eq_self)
qed

lemma chunk_fits: "q < k \<Longrightarrow> n div k * q + n div k \<le> (n::nat)"
proof -
  assume "q < k"
  then have "n div k * Suc q \<le> n div k * k" by (intro mult_le_mono2) simp
  also have "\<dots> \<le> n" by simp
  finally show ?thesis by simp
qed

lemma unat_ucast_u32_u64 [simp]: "unat (ucast (x :: u32) :: u64) = unat x"
  using unsigned_less [of x, where 'a = nat] by (simp add: unsigned_ucast_eq take_bit_nat_eq_self)

lemma ring_place:
  assumes "o1 < c div 64" shows "64 * o1 + 64 \<le> (c::nat)"
proof -
  have "64 * Suc o1 \<le> 64 * (c div 64)" using assms by (intro mult_le_mono2) simp
  also have "\<dots> \<le> c" by simp
  finally show ?thesis by simp
qed

lemma rpc_place:
  assumes "rpc_ok s" "idx < MAX_RECORDER_NUM"
  defines "q \<equiv> unat (lm_machine_id (lmeta s)) * MAX_RECORDER_NUM + idx"
  shows "q < unat (rm_machine_num (rmeta s)) * MAX_RECORDER_NUM"
    "rpc_chunk s * q + rpc_chunk s \<le> unat (rm_length (rmeta s))"
    "64 * unat (remote_off s ! idx) + 64 \<le> rpc_chunk s"
proof -
  have "Suc (unat (lm_machine_id (lmeta s))) * MAX_RECORDER_NUM \<le> unat (rm_machine_num (rmeta s)) * MAX_RECORDER_NUM"
    using assms(1) by (intro mult_le_mono1) (simp add: rpc_ok_def word_less_nat_alt)
  then show q: "q < unat (rm_machine_num (rmeta s)) * MAX_RECORDER_NUM"
    unfolding q_def using assms(2) by simp
  show "rpc_chunk s * q + rpc_chunk s \<le> unat (rm_length (rmeta s))"
    unfolding rpc_chunk_def by (rule chunk_fits [OF q])
  show "64 * unat (remote_off s ! idx) + 64 \<le> rpc_chunk s"
    using assms(1,2) by (intro ring_place) (simp add: rpc_ok_def)
qed

lemma rpc_remote_slot_ok:
  assumes "shm_ok s" "rpc_ok s" "idx < MAX_RECORDER_NUM"
  shows "\<exists>a off'. rpc_remote_slot idx s = Some (a, s\<lparr>remote_off := (remote_off s)[idx := off']\<rparr>) \<and>
    unat a = unat (rm_rpc_addr (rmeta s)) +
      rpc_chunk s * (unat (lm_machine_id (lmeta s)) * MAX_RECORDER_NUM + idx) + 64 * unat (remote_off s ! idx) \<and>
    unat off' = (unat (remote_off s ! idx) + 1) mod (rpc_chunk s div 64)"
proof -
  let ?q = "unat (lm_machine_id (lmeta s)) * MAX_RECORDER_NUM + idx" and ?c = "rpc_chunk s"
  let ?m = "rm_machine_num (rmeta s)" and ?off = "remote_off s ! idx"
  have R: "unat ?m * MAX_RECORDER_NUM < 2 ^ 64" "?c < 2 ^ 32" "unat ?off < ?c div 64"
    "unat (rm_rpc_addr (rmeta s)) + unat (rm_length (rmeta s)) < 2 ^ 64" "64 \<le> ?c"
    using assms(2,3) by (simp_all add: rpc_ok_def)
  note P = rpc_place [OF assms(2,3)]
  define d where "d = ?m * of_nat MAX_RECORDER_NUM"
  have d: "unat d = unat ?m * MAX_RECORDER_NUM"
    unfolding d_def using R(1) by (simp add: unat_word_ariths MAX_RECORDER_NUM_def)
  have c: "unat (of_nat ?c :: u64) = ?c" using R(2) by (simp add: unat_of_nat)
  have "d \<noteq> 0" using P(1) d by auto
  moreover have "rm_length (rmeta s) div d = of_nat ?c"
    unfolding word_unat_eq_iff c unat_div d by (simp add: rpc_chunk_def)
  ultimately have div: "c_div (rm_length (rmeta s)) (?m * of_nat MAX_RECORDER_NUM) = Some (of_nat ?c)"
    unfolding d_def [symmetric] by (simp add: c_div_def)
  have mx: "unat (of_nat ?c div sizeof_rpc_op :: u64) = ?c div 64" by (simp add: unat_div sizeof_rpc_op_def c)
  obtain w where w: "c_mod (ucast (?off + 1)) (of_nat ?c div sizeof_rpc_op) = Some w"
      "unat (ucast w :: u32) = (unat ?off + 1) mod (?c div 64)"
    using ring_next [of ?off "of_nat ?c div sizeof_rpc_op"] R(2,3) unfolding mx by fastforce
  have "?q < 2 ^ 64" using P(1) R(1) by linarith
  define W :: u64 where "W = lm_machine_id (lmeta s) * of_nat MAX_RECORDER_NUM + of_nat idx"
  have W: "unat W = ?q"
    unfolding W_def using \<open>?q < 2 ^ 64\<close> assms(3) by (simp add: unat_word_ariths unat_of_nat MAX_RECORDER_NUM_def)
  have sum: "unat (rm_rpc_addr (rmeta s)) + ?c * unat W + 64 * unat ?off < 2 ^ 64" "?c * unat W < 2 ^ 64"
    using P(2,3) R(4) unfolding W by linarith+
  have a: "unat (rm_rpc_addr (rmeta s) + of_nat ?c * W + sizeof_rpc_op * ucast ?off) =
      unat (rm_rpc_addr (rmeta s)) + ?c * ?q + 64 * unat ?off"
    using sum unfolding W [symmetric] by (simp add: unat_word_ariths sizeof_rpc_op_def c)
  show ?thesis
    using shm_okD(2) [OF assms(1,3)] div w a unfolding W_def
    by (intro exI conjI) (simp_all add: rpc_remote_slot_def c_access)
qed

lemma buf_place:
  assumes "rpc_ok s" "idx < MAX_RECORDER_NUM"
  shows "buf_chunk s * idx + buf_chunk s \<le> unat (lm_r_buf_length (lmeta s))"
    "64 * unat (local_off s ! idx) + 64 \<le> buf_chunk s"
  using assms chunk_fits [OF assms(2)] by (simp_all add: buf_chunk_def rpc_ok_def ring_place)

lemma rpc_local_slot_ok:
  assumes "shm_ok s" "rpc_ok s" "idx < MAX_RECORDER_NUM"
  shows "\<exists>rb sb off'. rpc_local_slot idx s = Some (rb, sb, s\<lparr>local_off := (local_off s)[idx := off']\<rparr>) \<and>
    unat sb = unat (lm_rpc_addr (lmeta s)) + buf_chunk s * idx + 64 * unat (local_off s ! idx) \<and>
    unat rb = unat (lm_rpc_addr (lmeta s)) + unat (lm_s_buf_length (lmeta s)) + buf_chunk s * idx +
      64 * unat (local_off s ! idx) \<and>
    unat off' = (unat (local_off s ! idx) + 1) mod (buf_chunk s div 64)"
proof -
  let ?c = "buf_chunk s" and ?off = "local_off s ! idx" and ?l = "lmeta s"
  have R: "?c < 2 ^ 32" "unat ?off < ?c div 64" "64 \<le> ?c"
    "unat (lm_rpc_addr ?l) + unat (lm_s_buf_length ?l) + unat (lm_r_buf_length ?l) < 2 ^ 64"
    "lm_r_buf_length ?l \<le> lm_s_buf_length ?l"
    using assms(2,3) by (simp_all add: rpc_ok_def)
  note P = buf_place [OF assms(2,3)]
  define C :: u64 where "C = lm_r_buf_length ?l div of_nat MAX_RECORDER_NUM"
  have c: "unat C = ?c" unfolding C_def by (simp add: unat_div buf_chunk_def unat_of_nat MAX_RECORDER_NUM_def)
  have mx: "unat (C div sizeof_rpc_op) = ?c div 64" by (simp add: unat_div sizeof_rpc_op_def c)
  obtain w where w: "c_mod (ucast (?off + 1)) (C div sizeof_rpc_op) = Some w"
      "unat (ucast w :: u32) = (unat ?off + 1) mod (?c div 64)"
    using ring_next [of ?off "C div sizeof_rpc_op"] R(1,2) unfolding mx by fastforce
  define I :: u64 where "I = of_nat idx"
  have I: "unat I = idx" unfolding I_def using assms(3) by (simp add: unat_of_nat MAX_RECORDER_NUM_def)
  have le: "unat (lm_r_buf_length ?l) \<le> unat (lm_s_buf_length ?l)" using R(5) by (simp add: word_le_nat_alt)
  have sum: "?c * unat I < 2 ^ 64" "unat (lm_rpc_addr ?l) + unat (lm_s_buf_length ?l) + ?c * unat I + 64 * unat ?off < 2 ^ 64"
    using P R(4) le unfolding I by linarith+
  have sb: "unat (lm_rpc_addr ?l + C * I + sizeof_rpc_op * ucast ?off) =
      unat (lm_rpc_addr ?l) + ?c * idx + 64 * unat ?off"
    using sum unfolding I [symmetric] by (simp add: unat_word_ariths sizeof_rpc_op_def c)
  have rb: "unat (lm_rpc_addr ?l + lm_s_buf_length ?l + C * I + sizeof_rpc_op * ucast ?off) =
      unat (lm_rpc_addr ?l) + unat (lm_s_buf_length ?l) + ?c * idx + 64 * unat ?off"
    using sum unfolding I [symmetric] by (simp add: unat_word_ariths sizeof_rpc_op_def c)
  show ?thesis
    using shm_okD(3) [OF assms(1,3)] w sb rb unfolding C_def I_def
    by (intro exI conjI) (simp_all add: rpc_local_slot_def c_access Let_def)
qed

lemma rpc_meta_only:
  assumes "rmeta s' = rmeta s" "lmeta s' = lmeta s"
  shows "rpc_request s' = rpc_request s" "rpc_message qp s' = rpc_message qp s"
    "rpc_chunk s' = rpc_chunk s" "buf_chunk s' = buf_chunk s"
  using assms by (simp_all add: fun_eq_iff rpc_request_def rpc_message_def rpc_chunk_def buf_chunk_def)

lemma rpc_ok_cong:
  assumes "rmeta s' = rmeta s" "lmeta s' = lmeta s" "remote_off s' = remote_off s" "local_off s' = local_off s"
  shows "rpc_ok s' = rpc_ok s"
  unfolding rpc_ok_def rpc_meta_only [OF assms(1,2)] assms by (rule refl)

section \<open>The two paths of an atomic operation\<close>

lemma lookup_lt: "shm_ok s \<Longrightarrow> map_qpn_to_idx (records s) q False = Some idx \<Longrightarrow> idx < MAX_RECORDER_NUM"
  by (simp add: shm_ok_def map_qpn_lookup_iff)

lemma lookup_cong:
  assumes "length rs = MAX_RECORDER_NUM" "length rs' = MAX_RECORDER_NUM" "qpns rs' = qpns rs"
  shows "map_qpn_to_idx rs q False = Some k \<longleftrightarrow> map_qpn_to_idx rs' q False = Some k"
proof -
  have "rec_qpn (rs' ! j) = rec_qpn (rs ! j)" if "j < MAX_RECORDER_NUM" for j
    using assms that nth_map [of j rs rec_qpn] nth_map [of j rs' rec_qpn] by (simp add: qpns_def)
  then show ?thesis unfolding map_qpn_lookup_iff [OF assms(1)] map_qpn_lookup_iff [OF assms(2)]
    by (auto simp: dest: less_trans)
qed

definition marked :: "nat \<Rightarrow> sh_local_region \<Rightarrow> sh_local_region" where
  "marked idx s = s\<lparr>running := (running s)[idx := if running s ! idx = 0 then 1 else running s ! idx],
     epoch := (epoch s)[idx := epoch s ! idx + 1]\<rparr>"

lemma marked_simps [simp]:
  "strag_credit (marked idx s) = strag_credit s" "records (marked idx s) = records s"
  "rmeta (marked idx s) = rmeta s" "lmeta (marked idx s) = lmeta s"
  "remote_off (marked idx s) = remote_off s" "local_off (marked idx s) = local_off s"
  "running (marked idx s) = (running s)[idx := if running s ! idx = 0 then 1 else running s ! idx]"
  "epoch (marked idx s) = (epoch s)[idx := epoch s ! idx + 1]"
  by (simp_all add: marked_def)

lemma mark_epoch_eq:
  assumes "shm_ok s" "idx < MAX_RECORDER_NUM"
  shows "Option.bind (post_mark idx s) (post_epoch idx) = Some (marked idx s)" "shm_ok (marked idx s)"
proof -
  note D = shm_okD [OF assms]
  show "Option.bind (post_mark idx s) (post_epoch idx) = Some (marked idx s)"
    unfolding marked_def post_mark_def post_epoch_def CAS_cell_def using D(4,5)
    by (simp add: c_access)
  show "shm_ok (marked idx s)" using assms(1) by (simp add: shm_ok_def)
qed

lemma post_clear_eq:
  assumes "shm_ok s" "idx < MAX_RECORDER_NUM"
  shows "post_clear idx s =
    Some (s\<lparr>running := (running s)[idx := if running s ! idx = 1 then 0 else running s ! idx]\<rparr>)"
  using shm_okD [OF assms] by (simp add: post_clear_def c_access CAS_cell_def)

lemma post_send_atomic_eq:
  assumes ok: "shm_ok (shm d)" and at: "is_atomic (opcode wr)"
    and idx: "map_qpn_to_idx (records (shm d)) (ucast qp) False = Some idx"
  defines "ci \<equiv> counter_idx (wr_remote_addr wr)"
  shows "mlx5_post_send nic qp wr d =
    (if strag_credit (shm d) ! ci = 0 then do {
        s \<leftarrow> count_rnic idx ci (marked idx (shm d));
        Some (nic qp wr, wr, d\<lparr>shm := s, calls := calls d @ [PostSend qp wr]\<rparr>)
      } else post_rpc nic qp idx ci wr (d\<lparr>shm := marked idx (shm d)\<rparr>))"
proof -
  have lt: "idx < MAX_RECORDER_NUM" by (rule lookup_lt [OF ok idx])
  have ci: "ci < length (strag_credit (shm d))"
    using shm_okD(6) [OF ok lt] counter_idx_lt by (simp add: ci_def)
  have "mlx5_post_send nic qp wr d = do {
      s \<leftarrow> Option.bind (post_mark idx (shm d)) (post_epoch idx);
      credit \<leftarrow> arr_get (strag_credit s) ci;
      if credit = 0 then do {
        s \<leftarrow> count_rnic idx ci s;
        Some (nic qp wr, wr, d\<lparr>shm := s, calls := calls d @ [PostSend qp wr]\<rparr>)
      } else post_rpc nic qp idx ci wr (d\<lparr>shm := s\<rparr>)
    }"
    unfolding ci_def mlx5_post_send_def Let_def bind_assoc using at idx by simp
  then show ?thesis unfolding mark_epoch_eq(1) [OF ok lt] using ci by (simp add: c_access)
qed

lemma post_send_rnic:
  assumes ok: "shm_ok (shm d)" and at: "is_atomic (opcode wr)"
    and idx: "map_qpn_to_idx (records (shm d)) (ucast qp) False = Some idx"
    and z: "strag_credit (shm d) ! counter_idx (wr_remote_addr wr) = 0"
  shows "\<exists>d'. mlx5_post_send nic qp wr d = Some (nic qp wr, wr, d') \<and>
    calls d' = calls d @ [PostSend qp wr] \<and> rpc_mem d' = rpc_mem d \<and> shm_ok (shm d') \<and>
    (\<forall>i j. rnic_count (shm d') i j = rnic_count (shm d) i j +
       (if i = idx \<and> j = counter_idx (wr_remote_addr wr) then 1 else 0)) \<and>
    cpu_count (shm d') = cpu_count (shm d) \<and> epoch (shm d') = (epoch (shm d))[idx := epoch (shm d) ! idx + 1] \<and>
    running (shm d') = (running (shm d))[idx := if running (shm d) ! idx = 0 then 1 else running (shm d) ! idx] \<and>
    qpns (records (shm d')) = qpns (records (shm d)) \<and> rpc_ok (shm d') = rpc_ok (shm d)"
proof -
  let ?s = "marked idx (shm d)" and ?ci = "counter_idx (wr_remote_addr wr)"
  have lt: "idx < MAX_RECORDER_NUM" by (rule lookup_lt [OF ok idx])
  have same: "rnic_count ?s = rnic_count (shm d)" "cpu_count ?s = cpu_count (shm d)"
    by (simp_all add: rnic_count_def cpu_count_def fun_eq_iff)
  obtain rs where rs: "count_rnic idx ?ci ?s = Some (?s\<lparr>records := rs\<rparr>)" "shm_ok (?s\<lparr>records := rs\<rparr>)"
    "qpns rs = qpns (records (shm d))"
    "\<forall>i j. rnic_count (?s\<lparr>records := rs\<rparr>) i j = rnic_count (shm d) i j + (if i = idx \<and> j = ?ci then 1 else 0)"
    "cpu_count (?s\<lparr>records := rs\<rparr>) = cpu_count (shm d)"
    using count_rnic_ok [OF mark_epoch_eq(2) [OF ok lt] lt counter_idx_lt, of "wr_remote_addr wr"]
    unfolding same marked_simps by (elim exE conjE) (rule that)
  have rok: "rpc_ok (?s\<lparr>records := rs\<rparr>) = rpc_ok (shm d)" by (rule rpc_ok_cong) simp_all
  have "mlx5_post_send nic qp wr d =
      Some (nic qp wr, wr, d\<lparr>shm := ?s\<lparr>records := rs\<rparr>, calls := calls d @ [PostSend qp wr]\<rparr>)"
    using post_send_atomic_eq [OF ok at idx] z rs(1) by simp
  with rs(2-5) rok show ?thesis
    by (intro exI [of _ "d\<lparr>shm := ?s\<lparr>records := rs\<rparr>, calls := calls d @ [PostSend qp wr]\<rparr>"]) simp
qed

lemma rpc_ok_advance:
  assumes "rpc_ok s" "shm_ok s" "idx < MAX_RECORDER_NUM"
  shows "unat off < rpc_chunk s div 64 \<Longrightarrow> rpc_ok (s\<lparr>remote_off := (remote_off s)[idx := off]\<rparr>)"
    "unat off < buf_chunk s div 64 \<Longrightarrow> rpc_ok (s\<lparr>local_off := (local_off s)[idx := off]\<rparr>)"
    "shm_ok (s\<lparr>remote_off := (remote_off s)[idx := off]\<rparr>)" "shm_ok (s\<lparr>local_off := (local_off s)[idx := off]\<rparr>)"
proof -
  have c: "rpc_chunk (s\<lparr>remote_off := x\<rparr>) = rpc_chunk s" "buf_chunk (s\<lparr>remote_off := x\<rparr>) = buf_chunk s"
    "rpc_chunk (s\<lparr>local_off := x\<rparr>) = rpc_chunk s" "buf_chunk (s\<lparr>local_off := x\<rparr>) = buf_chunk s" for x
    by (simp_all add: rpc_chunk_def buf_chunk_def)
  have len: "length (remote_off s) = MAX_RECORDER_NUM" "length (local_off s) = MAX_RECORDER_NUM"
    using assms(2) by (simp_all add: shm_ok_def)
  show "unat off < rpc_chunk s div 64 \<Longrightarrow> rpc_ok (s\<lparr>remote_off := (remote_off s)[idx := off]\<rparr>)"
    "unat off < buf_chunk s div 64 \<Longrightarrow> rpc_ok (s\<lparr>local_off := (local_off s)[idx := off]\<rparr>)"
    using assms(1,3) len unfolding rpc_ok_def c by (simp_all add: nth_list_update)
qed (use assms(2) in \<open>simp_all add: shm_ok_def\<close>)

lemma ring_mod_lt: "64 \<le> c \<Longrightarrow> (x::nat) mod (c div 64) < c div 64"
  by (simp add: div_greater_zero_iff)

text \<open>The state after an RPC: the counters, the two ring positions and the running flag.\<close>

definition after_rpc :: "nat \<Rightarrow> recorder list \<Rightarrow> u32 \<Rightarrow> u32 \<Rightarrow> sh_local_region \<Rightarrow> sh_local_region" where
  "after_rpc idx rs roff loff s = (marked idx s)\<lparr>records := rs,
     remote_off := (remote_off s)[idx := roff], local_off := (local_off s)[idx := loff],
     running := (running s)[idx := if running s ! idx = 0 \<or> running s ! idx = 1 then 0 else running s ! idx]\<rparr>"

lemma post_send_rpc:
  assumes ok: "shm_ok (shm d)" "rpc_ok (shm d)" and at: "is_atomic (opcode wr)"
    and idx: "map_qpn_to_idx (records (shm d)) (ucast qp) False = Some idx"
    and z: "strag_credit (shm d) ! counter_idx (wr_remote_addr wr) \<noteq> 0" and sg: "sg_list wr = sge # sges"
  shows "\<exists>a rb sb rs roff loff. mlx5_post_send nic qp wr d =
      Some (nic qp (rpc_request (shm d) sge wr sb a), rpc_request (shm d) sge wr sb a,
        d\<lparr>shm := after_rpc idx rs roff loff (shm d),
          rpc_mem := (rpc_mem d)(sb := rpc_message qp (shm d) wr rb (rpc_mem d sb)),
          calls := calls d @ [PostRecv qp (wr_id wr) sge, PostSend qp (rpc_request (shm d) sge wr sb a)]\<rparr>) \<and>
    unat a = unat (rm_rpc_addr (rmeta (shm d))) + rpc_chunk (shm d) *
      (unat (lm_machine_id (lmeta (shm d))) * MAX_RECORDER_NUM + idx) + 64 * unat (remote_off (shm d) ! idx) \<and>
    unat sb = unat (lm_rpc_addr (lmeta (shm d))) + buf_chunk (shm d) * idx + 64 * unat (local_off (shm d) ! idx) \<and>
    unat roff = (unat (remote_off (shm d) ! idx) + 1) mod (rpc_chunk (shm d) div 64) \<and>
    unat loff = (unat (local_off (shm d) ! idx) + 1) mod (buf_chunk (shm d) div 64) \<and>
    qpns rs = qpns (records (shm d)) \<and> shm_ok ((shm d)\<lparr>records := rs\<rparr>) \<and>
    (\<forall>i j. cpu_count ((shm d)\<lparr>records := rs\<rparr>) i j = cpu_count (shm d) i j +
       (if i = idx \<and> j = counter_idx (wr_remote_addr wr) then 1 else 0)) \<and>
    rnic_count ((shm d)\<lparr>records := rs\<rparr>) = rnic_count (shm d)"
proof -
  let ?ci = "counter_idx (wr_remote_addr wr)" and ?s = "marked idx (shm d)"
  have lt: "idx < MAX_RECORDER_NUM" by (rule lookup_lt [OF ok(1) idx])
  have ok1: "shm_ok ?s" by (rule mark_epoch_eq(2) [OF ok(1) lt])
  have same: "rnic_count (?s\<lparr>records := rs\<rparr>) = rnic_count ((shm d)\<lparr>records := rs\<rparr>)"
    "cpu_count (?s\<lparr>records := rs\<rparr>) = cpu_count ((shm d)\<lparr>records := rs\<rparr>)"
    "rnic_count ?s = rnic_count (shm d)" "cpu_count ?s = cpu_count (shm d)" for rs
    by (simp_all add: rnic_count_def cpu_count_def fun_eq_iff)
  obtain rs where rs: "count_cpu idx ?ci ?s = Some (?s\<lparr>records := rs\<rparr>)" "shm_ok (?s\<lparr>records := rs\<rparr>)"
    "qpns rs = qpns (records (shm d))"
    "\<forall>i j. cpu_count ((shm d)\<lparr>records := rs\<rparr>) i j = cpu_count (shm d) i j + (if i = idx \<and> j = ?ci then 1 else 0)"
    "rnic_count ((shm d)\<lparr>records := rs\<rparr>) = rnic_count (shm d)"
    using count_cpu_ok [OF ok1 lt counter_idx_lt, of "wr_remote_addr wr"]
    unfolding same marked_simps by (elim exE conjE) (rule that)
  let ?s1 = "?s\<lparr>records := rs\<rparr>"
  have rok1: "rpc_ok ?s1" using ok(2) by (subst rpc_ok_cong [where s = "shm d"]) simp_all
  note cong1 = rpc_meta_only [where s = "shm d" and s' = ?s1, simplified]
  obtain a roff where a: "rpc_remote_slot idx ?s1 = Some (a, ?s1\<lparr>remote_off := (remote_off (shm d))[idx := roff]\<rparr>)"
    "unat a = unat (rm_rpc_addr (rmeta (shm d))) + rpc_chunk (shm d) *
      (unat (lm_machine_id (lmeta (shm d))) * MAX_RECORDER_NUM + idx) + 64 * unat (remote_off (shm d) ! idx)"
    "unat roff = (unat (remote_off (shm d) ! idx) + 1) mod (rpc_chunk (shm d) div 64)"
    using rpc_remote_slot_ok [OF rs(2) rok1 lt] cong1 by auto
  let ?s2 = "?s1\<lparr>remote_off := (remote_off (shm d))[idx := roff]\<rparr>"
  have c64: "64 \<le> rpc_chunk (shm d)" "64 \<le> buf_chunk (shm d)" using ok(2) by (simp_all add: rpc_ok_def)
  have roff: "unat roff < rpc_chunk ?s1 div 64" unfolding a(3) cong1 by (rule ring_mod_lt [OF c64(1)])
  have ok2: "rpc_ok ?s2" "shm_ok ?s2" using rpc_ok_advance(1,3) [OF rok1 rs(2) lt, of roff] roff by simp_all
  obtain rb sb loff where b: "rpc_local_slot idx ?s2 = Some (rb, sb, ?s2\<lparr>local_off := (local_off (shm d))[idx := loff]\<rparr>)"
    "unat sb = unat (lm_rpc_addr (lmeta (shm d))) + buf_chunk (shm d) * idx + 64 * unat (local_off (shm d) ! idx)"
    "unat loff = (unat (local_off (shm d) ! idx) + 1) mod (buf_chunk (shm d) div 64)"
    using rpc_local_slot_ok [OF ok2(2,1) lt] rpc_meta_only(4) [where s = "shm d" and s' = ?s2, simplified] by auto
  let ?s3 = "?s2\<lparr>local_off := (local_off (shm d))[idx := loff]\<rparr>"
  have ok3: "shm_ok ?s3" using rpc_ok_advance(4) [OF ok2 lt, of loff] by simp
  have "post_clear idx ?s3 = Some (after_rpc idx rs roff loff (shm d))"
    using shm_okD(4) [OF ok(1) lt] unfolding post_clear_eq [OF ok3 lt] after_rpc_def by simp
  moreover have "rpc_request ?s3 = rpc_request (shm d)" "rpc_message qp ?s3 = rpc_message qp (shm d)"
    by (rule rpc_meta_only; simp)+
  ultimately have "mlx5_post_send nic qp wr d =
      Some (nic qp (rpc_request (shm d) sge wr sb a), rpc_request (shm d) sge wr sb a,
        d\<lparr>shm := after_rpc idx rs roff loff (shm d),
          rpc_mem := (rpc_mem d)(sb := rpc_message qp (shm d) wr rb (rpc_mem d sb)),
          calls := calls d @ [PostRecv qp (wr_id wr) sge, PostSend qp (rpc_request (shm d) sge wr sb a)]\<rparr>)"
    using z sg rs(1) a(1) b(1) unfolding post_send_atomic_eq [OF ok(1) at idx] post_rpc_def
    by (simp add: arr_get_def Let_def)
  moreover have "shm_ok ((shm d)\<lparr>records := rs\<rparr>)" using rs(2) ok(1) by (simp add: shm_ok_def)
  ultimately show ?thesis using a(2,3) b(2,3) rs(3-5) by blast
qed

lemma after_rpc_ok:
  assumes ok: "shm_ok s" "rpc_ok s" "idx < MAX_RECORDER_NUM" and rs: "shm_ok (s\<lparr>records := rs\<rparr>)"
    and off: "unat roff < rpc_chunk s div 64" "unat loff < buf_chunk s div 64"
  shows "shm_ok (after_rpc idx rs roff loff s)" "rpc_ok (after_rpc idx rs roff loff s)"
proof -
  show "shm_ok (after_rpc idx rs roff loff s)" using ok(1) rs by (simp add: shm_ok_def after_rpc_def)
  let ?s = "s\<lparr>remote_off := (remote_off s)[idx := roff], local_off := (local_off s)[idx := loff]\<rparr>"
  have b: "buf_chunk (s\<lparr>remote_off := (remote_off s)[idx := roff]\<rparr>) = buf_chunk s" by (simp add: buf_chunk_def)
  have "rpc_ok ?s"
    using rpc_ok_advance(2) [OF rpc_ok_advance(1) [OF ok(2,1,3) off(1)] rpc_ok_advance(3) [OF ok(2,1,3)] ok(3), of loff]
      off(2) unfolding b by simp
  then show "rpc_ok (after_rpc idx rs roff loff s)"
    by (subst rpc_ok_cong [where s = ?s]) (simp_all add: after_rpc_def)
qed

lemma rdma_rkey_set [simp]: "rdma_rkey (set_rdma_rkey v wr) = v"
proof -
  have "bit (ucast ((x AND NOT (mask 32)) OR ucast v :: u64) :: u32) n = bit v n" for x n
    by (cases "n < 32") (auto simp: bit_simps dest: bit_imp_le_length)
  then show ?thesis by (simp add: rdma_rkey_def set_rdma_rkey_def bit_eq_iff)
qed

lemma set_rdma_rkey_sel [simp]:
  "sg_list (set_rdma_rkey v wr) = sg_list wr" "wr_remote_addr (set_rdma_rkey v wr) = wr_remote_addr wr"
  "wr_id (set_rdma_rkey v wr) = wr_id wr"
  by (simp_all add: set_rdma_rkey_def)

lemma rpc_request_sel [simp]:
  "opcode (rpc_request s sge wr sb a) = IBV_WR_RDMA_WRITE" "send_flags (rpc_request s sge wr sb a) = 0"
  "wr_remote_addr (rpc_request s sge wr sb a) = a" "wr_id (rpc_request s sge wr sb a) = wr_id wr"
  "rdma_rkey (rpc_request s sge wr sb a) = ucast (rm_rkey (rmeta s))"
  "sg_list (rpc_request s sge wr sb a) =
     \<lparr>sge_addr = sb, sge_length = 64, sge_lkey = ucast (lm_lkey (lmeta s))\<rparr> # tl (sg_list wr)"
  using rdma_rkey_set
  by (simp_all add: rpc_request_def sizeof_rpc_op_def rdma_rkey_def)

text \<open>The part of the server's memory that belongs to queue pair \<open>i\<close> of machine \<open>mid\<close>.\<close>

definition rpc_area :: "sh_local_region \<Rightarrow> nat \<Rightarrow> nat \<Rightarrow> nat set" where
  "rpc_area s mid i = {unat (rm_rpc_addr (rmeta s)) + rpc_chunk s * (mid * MAX_RECORDER_NUM + i) ..<
     unat (rm_rpc_addr (rmeta s)) + rpc_chunk s * (mid * MAX_RECORDER_NUM + i) + rpc_chunk s}"

lemma rpc_area_disjoint:
  assumes "i < MAX_RECORDER_NUM" "j < MAX_RECORDER_NUM" "(m, i) \<noteq> (n, j)"
  shows "rpc_area s m i \<inter> rpc_area s n j = {}"
proof -
  define p q where "p = m * MAX_RECORDER_NUM + i" and "q = n * MAX_RECORDER_NUM + j"
  have "p \<noteq> q"
  proof
    assume "p = q"
    then have "(m * MAX_RECORDER_NUM + i) div MAX_RECORDER_NUM = (n * MAX_RECORDER_NUM + j) div MAX_RECORDER_NUM"
      "(m * MAX_RECORDER_NUM + i) mod MAX_RECORDER_NUM = (n * MAX_RECORDER_NUM + j) mod MAX_RECORDER_NUM"
      by (simp_all add: p_def q_def)
    with assms show False by simp
  qed
  then have "rpc_chunk s * p + rpc_chunk s \<le> rpc_chunk s * q \<or> rpc_chunk s * q + rpc_chunk s \<le> rpc_chunk s * p"
    using mult_le_mono2 [of "Suc p" q "rpc_chunk s"] mult_le_mono2 [of "Suc q" p "rpc_chunk s"]
    by (cases "p < q") (simp_all add: Suc_le_eq)
  then show ?thesis unfolding rpc_area_def p_def [symmetric] q_def [symmetric] by auto
qed

lemma rpc_area_inside:
  assumes "rpc_ok s" "i < MAX_RECORDER_NUM"
  shows "rpc_area s (unat (lm_machine_id (lmeta s))) i \<subseteq>
    {unat (rm_rpc_addr (rmeta s)) ..< unat (rm_rpc_addr (rmeta s)) + unat (rm_length (rmeta s))}"
  unfolding rpc_area_def using rpc_place(2) [OF assms] by auto

text \<open>Queue pairs made one after the other.\<close>

fun create_all :: "u32 list \<Rightarrow> sh_local_region \<Rightarrow> sh_local_region option" where
  "create_all [] s = Some s"
| "create_all (q # qs) s = Option.bind (mlx5_create_qp (Some q) (Some s)) (create_all qs)"

lemma zero_region_ok: "shm_ok zero_region" "set (qpns (records zero_region)) = {0}"
  by (simp_all add: shm_ok_def zero_region_def zero_recorder_def qpns_def MAX_RECORDER_NUM_def)

lemma create_qp_ok:
  assumes ok: "shm_ok s" and free: "0 \<in> set (qpns (records s))"
  shows "\<exists>rs k. mlx5_create_qp (Some q) (Some s) = Some (s\<lparr>records := rs\<rparr>) \<and> shm_ok (s\<lparr>records := rs\<rparr>) \<and>
    k < MAX_RECORDER_NUM \<and> qpns (records s) ! k = 0 \<and> qpns rs = (qpns (records s))[k := ucast q]"
proof -
  have len: "length (records s) = MAX_RECORDER_NUM" using ok by (simp add: shm_ok_def)
  obtain k where k: "k < MAX_RECORDER_NUM" "map_qpn_to_idx (records s) (ucast q) True = Some k" "rec_qpn (records s ! k) = 0"
    using map_qpn_insert_cases [OF len, of "ucast q"] free by auto
  let ?rs = "(records s)[k := (records s ! k)\<lparr>rec_qpn := ucast q\<rparr>]"
  have "mlx5_create_qp (Some q) (Some s) = Some (s\<lparr>records := ?rs\<rparr>)"
    using k len by (simp add: mlx5_create_qp_def c_access)
  moreover have "shm_ok (s\<lparr>records := ?rs\<rparr>)"
    using ok k(1) len by (auto simp: shm_ok_def dest!: subsetD [OF set_update_subset_insert])
  moreover have "qpns ?rs = (qpns (records s))[k := ucast q]" by (simp add: qpns_def map_update)
  moreover have "qpns (records s) ! k = 0" using k len by (simp add: qpns_def)
  ultimately show ?thesis using k(1) by blast
qed

text \<open>Counting the records in use: each creation uses one more.\<close>

lemma count_list_upd:
  "k < length xs \<Longrightarrow> count_list (xs[k := v]) x + (if xs ! k = x then 1 else 0) = count_list xs x + (if v = x then 1 else 0)"
proof (induction xs arbitrary: k)
  case (Cons a xs)
  show ?case
  proof (cases k)
    case (Suc m)
    with Cons.IH [of m] Cons.prems show ?thesis by (simp split: if_splits)
  qed simp
qed simp

lemma count_list_distinct: "distinct xs \<Longrightarrow> x \<in> set xs \<Longrightarrow> count_list xs x = 1"
  by (induction xs) (auto simp: count_notin)

lemma ucast_u64_inj: "(ucast (p :: u32) :: u64) = ucast q \<longleftrightarrow> p = q"
  by (metis unat_ucast_u32_u64 word_unat_eq_iff)

lemma create_all_ok:
  assumes "shm_ok s" "length qs \<le> count_list (qpns (records s)) 0" "0 \<notin> set qs"
  shows "\<exists>s'. create_all qs s = Some s' \<and> shm_ok s' \<and>
    (\<forall>x. x \<noteq> 0 \<longrightarrow> count_list (qpns (records s')) x = count_list (qpns (records s)) x + count_list (map ucast qs) x)"
  using assms
proof (induction qs arbitrary: s)
  case Nil
  then show ?case by simp
next
  case (Cons q qs)
  let ?L = "qpns (records s)"
  have free: "0 \<in> set ?L" using Cons.prems(2) count_list_0_iff [of ?L 0] by (metis le_zero_eq length_Suc_conv nat.distinct(1))
  obtain rs k where s1: "mlx5_create_qp (Some q) (Some s) = Some (s\<lparr>records := rs\<rparr>)" "shm_ok (s\<lparr>records := rs\<rparr>)"
    "k < MAX_RECORDER_NUM" "?L ! k = 0" "qpns rs = ?L[k := ucast q]"
    using create_qp_ok [OF Cons.prems(1) free, of q] by (elim exE conjE) (rule that)
  have k: "k < length ?L" using s1(3) Cons.prems(1) by (simp add: qpns_def shm_ok_def)
  have q: "(ucast q :: u64) \<noteq> 0" using Cons.prems(3) ucast_u64_inj [of q 0] by auto
  note cnt = count_list_upd [OF k, of "ucast q", unfolded s1(4)]
  have "length qs \<le> count_list (qpns (records (s\<lparr>records := rs\<rparr>))) 0"
    using cnt [of 0] q Cons.prems(2) by (simp add: s1(5))
  with Cons.IH [OF s1(2)] Cons.prems(3) obtain s' where s': "create_all qs (s\<lparr>records := rs\<rparr>) = Some s'" "shm_ok s'"
    "\<forall>x. x \<noteq> 0 \<longrightarrow> count_list (qpns (records s')) x = count_list (qpns rs) x + count_list (map ucast qs) x" by auto
  have "count_list (qpns (records s')) x = count_list ?L x + count_list (map ucast (q # qs)) x" if "x \<noteq> 0" for x
    using s'(3) that cnt [of x] by (auto simp: s1(5))
  with s'(1,2) s1(1) show ?case by auto
qed

section \<open>An example state\<close>

text \<open>
  Two machines share a server region of 64 chunks of 128 bytes at 4096; queue pair 7 is registered,
  and all strategies have the given credit.
\<close>

definition example_state :: "u16 \<Rightarrow> driver_state" where
  "example_state credit = \<lparr>shm = zero_region\<lparr>
     strag_credit := replicate COUNTER_TOTAL credit,
     records := (replicate MAX_RECORDER_NUM zero_recorder)[7 := zero_recorder\<lparr>rec_qpn := 7\<rparr>],
     rmeta := \<lparr>rm_machine_num = 2, rm_machine_id = 0, rm_rkey = 5, rm_rpc_addr = 4096, rm_length = 8192, rm_crc = 0\<rparr>,
     lmeta := \<lparr>lm_machine_num = 2, lm_machine_id = 1, lm_lkey = 9, lm_rpc_addr = 65536, lm_s_buf_length = 4096,
       lm_r_buf_length = 4096\<rparr>\<rparr>,
     rpc_mem = (\<lambda>_. \<lparr>op_remote_addr = 0, op_swap = 0, op_cmp = 0, op_resp_addr = 0, op_qpn = 0, op_opcode = 0,
       op_comp = 0, op_crc = 0\<rparr>),
     calls = []\<rparr>"

definition example_wr :: ibv_send_wr where
  "example_wr = \<lparr>wr_id = 1, sg_list = [\<lparr>sge_addr = 256, sge_length = 8, sge_lkey = 3\<rparr>],
     opcode = IBV_WR_ATOMIC_CMP_AND_SWP, send_flags = 2, wr_remote_addr = 800, wr_compare_add = 0, wr_swap = 1,
     wr_atomic_rkey = 4\<rparr>"

lemma example_ok: "shm_ok (shm (example_state c))" "rpc_ok (shm (example_state c))"
  by (auto simp: example_state_def zero_region_def zero_recorder_def shm_ok_def rpc_ok_def rpc_chunk_def buf_chunk_def
      MAX_RECORDER_NUM_def dest!: subsetD [OF set_update_subset_insert])

lemma example_lookup: "map_qpn_to_idx (records (shm (example_state c))) (ucast (7::u32)) False = Some 7"
proof -
  have "length (records (shm (example_state c))) = MAX_RECORDER_NUM" using example_ok(1) by (simp add: shm_ok_def)
  from map_qpn_lookup_iff [OF this, of "7" 7] show ?thesis by (auto simp add: example_state_def MAX_RECORDER_NUM_def)
qed

lemma example_credit: "strag_credit (shm (example_state c)) ! counter_idx a = c"
  using counter_idx_lt [of a] by (simp add: example_state_def)

lemma example_wr_sel: "is_atomic (opcode example_wr)" "sg_list example_wr = [\<lparr>sge_addr = 256, sge_length = 8, sge_lkey = 3\<rparr>]"
  by (simp_all add: is_atomic_def example_wr_def)

section \<open>Properties\<close>

text \<open>
  Property C22. An atomic operation whose address has no credit goes to the card as it is; the
  hook counts it once, for this queue pair and this entry of the table, and changes nothing
  but the epoch and the running flag of the queue pair.
\<close>

theorem post_send_rnic_path:
  assumes "shm_ok (shm d)" "is_atomic (opcode wr)" "map_qpn_to_idx (records (shm d)) (ucast qp) False = Some idx"
    "strag_credit (shm d) ! counter_idx (wr_remote_addr wr) = 0"
  shows "\<exists>d'. mlx5_post_send nic qp wr d = Some (nic qp wr, wr, d') \<and>
    calls d' = calls d @ [PostSend qp wr] \<and> rpc_mem d' = rpc_mem d \<and> shm_ok (shm d') \<and>
    (\<forall>i j. rnic_count (shm d') i j = rnic_count (shm d) i j +
       (if i = idx \<and> j = counter_idx (wr_remote_addr wr) then 1 else 0)) \<and>
    cpu_count (shm d') = cpu_count (shm d) \<and> epoch (shm d') = (epoch (shm d))[idx := epoch (shm d) ! idx + 1] \<and>
    running (shm d') = (running (shm d))[idx := if running (shm d) ! idx = 0 then 1 else running (shm d) ! idx]"
  using post_send_rnic [OF assms, of nic] by (elim exE conjE) (intro exI conjI)

theorem post_send_rnic_path_witness:
  "\<exists>d'. mlx5_post_send (\<lambda>_ _. 0) 7 example_wr (example_state 0) = Some (0, example_wr, d') \<and>
     calls d' = calls (example_state 0) @ [PostSend 7 example_wr]"
  using post_send_rnic_path [OF example_ok(1) example_wr_sel(1) example_lookup example_credit, where nic = "\<lambda>_ _. 0"] by blast

text \<open>
  Property C1. An atomic operation whose address has credit becomes an RPC: a receive for the
  caller's buffer is posted first, then an RDMA write of a 64-byte message that holds the
  operation (code, address, both operands, queue pair), under the server's key. Memory other
  than the message is unchanged, and the operation is counted once as a CPU operation.
\<close>

theorem post_send_rpc_path:
  assumes "shm_ok (shm d)" "rpc_ok (shm d)" "is_atomic (opcode wr)"
    "map_qpn_to_idx (records (shm d)) (ucast qp) False = Some idx"
    "strag_credit (shm d) ! counter_idx (wr_remote_addr wr) \<noteq> 0" "sg_list wr = sge # sges"
  shows "\<exists>wr' d' sb. mlx5_post_send nic qp wr d = Some (nic qp wr', wr', d') \<and>
    calls d' = calls d @ [PostRecv qp (wr_id wr) sge, PostSend qp wr'] \<and>
    opcode wr' = IBV_WR_RDMA_WRITE \<and> send_flags wr' = 0 \<and> rdma_rkey wr' = ucast (rm_rkey (rmeta (shm d))) \<and>
    sg_list wr' = \<lparr>sge_addr = sb, sge_length = 64, sge_lkey = ucast (lm_lkey (lmeta (shm d)))\<rparr> # sges \<and>
    (\<forall>p. p \<noteq> sb \<longrightarrow> rpc_mem d' p = rpc_mem d p) \<and>
    op_opcode (rpc_mem d' sb) = (if opcode wr = IBV_WR_ATOMIC_CMP_AND_SWP then CAS_OP_CODE else FAA_OP_CODE) \<and>
    op_remote_addr (rpc_mem d' sb) = wr_remote_addr wr \<and> op_cmp (rpc_mem d' sb) = wr_compare_add wr \<and>
    op_swap (rpc_mem d' sb) = wr_swap wr \<and> op_crc (rpc_mem d' sb) = CRC_CHECK_MAGIC \<and>
    op_qpn (rpc_mem d' sb) = ucast qp + lm_machine_id (lmeta (shm d)) * QP_OFF \<and>
    (\<forall>i j. cpu_count (shm d') i j = cpu_count (shm d) i j +
       (if i = idx \<and> j = counter_idx (wr_remote_addr wr) then 1 else 0)) \<and>
    rnic_count (shm d') = rnic_count (shm d)"
proof -
  obtain a rb sb rs roff loff where r: "mlx5_post_send nic qp wr d =
      Some (nic qp (rpc_request (shm d) sge wr sb a), rpc_request (shm d) sge wr sb a,
        d\<lparr>shm := after_rpc idx rs roff loff (shm d),
          rpc_mem := (rpc_mem d)(sb := rpc_message qp (shm d) wr rb (rpc_mem d sb)),
          calls := calls d @ [PostRecv qp (wr_id wr) sge, PostSend qp (rpc_request (shm d) sge wr sb a)]\<rparr>)"
    "\<forall>i j. cpu_count ((shm d)\<lparr>records := rs\<rparr>) i j = cpu_count (shm d) i j +
       (if i = idx \<and> j = counter_idx (wr_remote_addr wr) then 1 else 0)"
    "rnic_count ((shm d)\<lparr>records := rs\<rparr>) = rnic_count (shm d)"
    using post_send_rpc [OF assms, of nic] by (elim exE conjE) (rule that)
  have cnt: "cpu_count (after_rpc idx rs roff loff (shm d)) = cpu_count ((shm d)\<lparr>records := rs\<rparr>)"
    "rnic_count (after_rpc idx rs roff loff (shm d)) = rnic_count ((shm d)\<lparr>records := rs\<rparr>)"
    by (simp_all add: cpu_count_def rnic_count_def after_rpc_def fun_eq_iff)
  have at: "opcode wr \<noteq> IBV_WR_ATOMIC_CMP_AND_SWP \<Longrightarrow> opcode wr = IBV_WR_ATOMIC_FETCH_AND_ADD"
    using assms(3) by (auto simp: is_atomic_def)
  show ?thesis
    by (rule exI, rule exI, rule exI [of _ sb], rule conjI, rule r(1))
      (use r(2,3) assms(6) at in \<open>simp add: cnt rpc_message_def\<close>)
qed

theorem post_send_rpc_path_witness:
  "\<exists>wr' d' sb. mlx5_post_send (\<lambda>_ _. 0) 7 example_wr (example_state 1) = Some (0, wr', d') \<and>
     opcode wr' = IBV_WR_RDMA_WRITE \<and> op_opcode (rpc_mem d' sb) = CAS_OP_CODE"
proof -
  have "strag_credit (shm (example_state 1)) ! counter_idx (wr_remote_addr example_wr) \<noteq> 0"
    by (simp add: example_credit)
  from post_send_rpc_path [OF example_ok example_wr_sel(1) example_lookup this example_wr_sel(2), of "\<lambda>_ _. 0"]
  show ?thesis by (elim exE conjE, intro exI conjI) (assumption, assumption, simp add: example_wr_def)
qed

text \<open>
  Property C4. An RPC is written into the part of the server's memory that belongs to this
  queue pair of this machine, which lies inside the server's RPC region and is disjoint from
  the parts of all other queue pairs of all machines; the position advances around the ring.
\<close>

theorem post_send_rpc_slot:
  assumes "shm_ok (shm d)" "rpc_ok (shm d)" "is_atomic (opcode wr)"
    "map_qpn_to_idx (records (shm d)) (ucast qp) False = Some idx"
    "strag_credit (shm d) ! counter_idx (wr_remote_addr wr) \<noteq> 0" "sg_list wr = sge # sges"
  defines "mid \<equiv> unat (lm_machine_id (lmeta (shm d)))"
  shows "\<exists>wr' d'. mlx5_post_send nic qp wr d = Some (nic qp wr', wr', d') \<and>
    {unat (wr_remote_addr wr') ..< unat (wr_remote_addr wr') + 64} \<subseteq> rpc_area (shm d) mid idx \<and>
    rpc_area (shm d) mid idx \<subseteq> {unat (rm_rpc_addr (rmeta (shm d))) ..<
      unat (rm_rpc_addr (rmeta (shm d))) + unat (rm_length (rmeta (shm d)))} \<and>
    (\<forall>m. \<forall>i < MAX_RECORDER_NUM. (m, i) \<noteq> (mid, idx) \<longrightarrow> rpc_area (shm d) m i \<inter> rpc_area (shm d) mid idx = {}) \<and>
    unat (remote_off (shm d') ! idx) = (unat (remote_off (shm d) ! idx) + 1) mod (rpc_chunk (shm d) div 64)"
proof -
  obtain a rb sb rs roff loff where r: "mlx5_post_send nic qp wr d =
      Some (nic qp (rpc_request (shm d) sge wr sb a), rpc_request (shm d) sge wr sb a,
        d\<lparr>shm := after_rpc idx rs roff loff (shm d),
          rpc_mem := (rpc_mem d)(sb := rpc_message qp (shm d) wr rb (rpc_mem d sb)),
          calls := calls d @ [PostRecv qp (wr_id wr) sge, PostSend qp (rpc_request (shm d) sge wr sb a)]\<rparr>)"
    "unat a = unat (rm_rpc_addr (rmeta (shm d))) + rpc_chunk (shm d) * (mid * MAX_RECORDER_NUM + idx) +
      64 * unat (remote_off (shm d) ! idx)"
    "unat roff = (unat (remote_off (shm d) ! idx) + 1) mod (rpc_chunk (shm d) div 64)"
    using post_send_rpc [OF assms(1-6), of nic, folded mid_def] by (elim exE conjE) (rule that)
  have lt: "idx < MAX_RECORDER_NUM" by (rule lookup_lt [OF assms(1,4)])
  have "{unat a ..< unat a + 64} \<subseteq> rpc_area (shm d) mid idx"
    using rpc_place(3) [OF assms(2) lt] unfolding rpc_area_def r(2) by auto
  moreover have "unat (remote_off (after_rpc idx rs roff loff (shm d)) ! idx) = unat roff"
    using shm_okD(2) [OF assms(1) lt] by (simp add: after_rpc_def)
  moreover note rpc_area_inside [OF assms(2) lt, folded mid_def]
  moreover have "rpc_area (shm d) m i \<inter> rpc_area (shm d) mid idx = {}"
    if "i < MAX_RECORDER_NUM" "(m, i) \<noteq> (mid, idx)" for m i
    using rpc_area_disjoint [OF that(1) lt that(2)] .
  ultimately show ?thesis
    by - (rule exI, rule exI, rule conjI, rule r(1), use r(3) in simp)
qed

theorem post_send_rpc_slot_witness:
  "\<exists>wr' d'. mlx5_post_send (\<lambda>_ _. 0) 7 example_wr (example_state 1) = Some (0, wr', d') \<and>
     unat (wr_remote_addr wr') \<in> rpc_area (shm (example_state 1)) 1 7"
proof -
  have cr: "strag_credit (shm (example_state 1)) ! counter_idx (wr_remote_addr example_wr) \<noteq> 0"
    by (simp add: example_credit)
  have m: "unat (lm_machine_id (lmeta (shm (example_state 1)))) = 1" by (simp add: example_state_def)
  obtain wr' d' where r: "mlx5_post_send (\<lambda>_ _. 0) 7 example_wr (example_state 1) = Some (0, wr', d')"
    "{unat (wr_remote_addr wr') ..< unat (wr_remote_addr wr') + 64} \<subseteq> rpc_area (shm (example_state 1)) 1 7"
    using post_send_rpc_slot [OF example_ok example_wr_sel(1) example_lookup cr example_wr_sel(2),
        where nic = "\<lambda>_ _. 0", unfolded m] by (elim exE conjE) (rule that)
  then have "unat (wr_remote_addr wr') \<in> rpc_area (shm (example_state 1)) 1 7" by (auto simp: subset_iff)
  with r(1) show ?thesis by blast
qed



text \<open>
  Property C25. Up to 32 queue pairs with different numbers, made after the shared memory has been
  cleared, each get a record of their own.
\<close>

theorem create_qp_records:
  assumes "length qs \<le> MAX_RECORDER_NUM" "distinct qs" "0 \<notin> set qs"
  shows "\<exists>s. create_all qs zero_region = Some s \<and> shm_ok s \<and>
    (\<forall>q \<in> set qs. count_list (qpns (records s)) (ucast q) = 1)"
proof -
  have Q: "qpns (records zero_region) = replicate MAX_RECORDER_NUM 0"
    by (simp add: qpns_def zero_region_def zero_recorder_def)
  have c0: "count_list (replicate n (0::u64)) 0 = n" "x \<noteq> 0 \<Longrightarrow> count_list (replicate n (0::u64)) x = 0" for n x
    by (induction n) auto
  have d: "distinct (map (ucast :: u32 \<Rightarrow> u64) qs)"
    using assms(2) by (simp add: distinct_map inj_on_def ucast_u64_inj)
  obtain s where "create_all qs zero_region = Some s" "shm_ok s"
    "\<forall>x. x \<noteq> 0 \<longrightarrow> count_list (qpns (records s)) x = 0 + count_list (map ucast qs) x"
    using create_all_ok [OF zero_region_ok(1), of qs] assms(1,3) unfolding Q c0 by (auto simp: c0)
  moreover have "(ucast q :: u64) \<noteq> 0" "count_list (map ucast qs) (ucast q :: u64) = 1" if "q \<in> set qs" for q
    using that assms(3) ucast_u64_inj [of q 0] d by (auto simp: count_list_distinct)
  ultimately show ?thesis by auto
qed

theorem create_qp_records_witness:
  "\<exists>s. create_all [31, 63] zero_region = Some s \<and> count_list (qpns (records s)) 63 = 1"
  using create_qp_records [of "[31, 63]"] by (auto simp: MAX_RECORDER_NUM_def)

end
