(* ===== verification/Agent_Client.thy ===== *)
theory Agent_Client
  imports Fusa_Driver
begin

text \<open>
  The client side of the Fusa agent (\<^verbatim>\<open>providers/mlx5/fusioncas/agent/agent.cpp\<close>): the
  layouts of the memory that agents exchange (\<^verbatim>\<open>include/smart/rpc_common.h\<close>), the collection
  of the driver's counters, the hand-over of the server's RPC region and of the strategies to the
  driver, and the requests an agent posts. The driver runs while the agent collects; the
  increments it makes between the agent's read of a counter and its subtraction are a parameter.
\<close>

section \<open>Layouts\<close>

definition COUNTER_PER_MESG :: nat where
  "COUNTER_PER_MESG = (64 - 8) div 8"

definition MESG_UNIT_NUM :: nat where
  "MESG_UNIT_NUM = (COUNTER_TOTAL + COUNTER_PER_MESG - 1) div COUNTER_PER_MESG"

definition MAX_MACHINE_NUM :: nat where
  "MAX_MACHINE_NUM = 16"

definition CRC_COMPLETE :: u64 where
  "CRC_COMPLETE = 88888"

record mesg_unit =
  mu_counters :: "u64 list"
  mu_crc :: u64

record resp =
  resp_phase :: u64
  resp_credit :: "u16 list"

record client_layout =
  cl_strategies :: resp
  cl_mesg_arr :: "mesg_unit list"
  cl_c_mesg_arr :: "mesg_unit list"
  cl_s_meta :: rpc_meta

record machine_unit =
  mc_mesg_arr :: "mesg_unit list"
  mc_c_mesg_arr :: "mesg_unit list"
  mc_phase :: u64

record server_layout =
  sl_strategies :: resp
  sl_machine_arr :: "machine_unit list"
  sl_uniform_strag :: resp
  sl_old_strategies :: resp
  sl_consensus :: u64

text \<open>Their sizes in bytes; all fields are naturally aligned, so there is no padding.\<close>

definition sizeof_mesg_unit :: nat where
  "sizeof_mesg_unit = 8 * COUNTER_PER_MESG + 8"

definition sizeof_resp :: nat where
  "sizeof_resp = 8 + 2 * COUNTER_TOTAL"

definition sizeof_rpc_meta :: nat where
  "sizeof_rpc_meta = 48"

definition sizeof_machine_unit :: nat where
  "sizeof_machine_unit = 2 * (sizeof_mesg_unit * MESG_UNIT_NUM) + 8"

definition sizeof_server_layout :: nat where
  "sizeof_server_layout = sizeof_resp + sizeof_machine_unit * MAX_MACHINE_NUM + sizeof_resp + sizeof_resp + 8"

text \<open>The offsets at which the agents write into each other's memory.\<close>

definition local_offset :: nat where
  "local_offset = 64"

definition mesg_offset :: "nat \<Rightarrow> nat" where
  "mesg_offset machine_id = sizeof_resp + sizeof_machine_unit * machine_id"

definition mesg_bytes :: nat where
  "mesg_bytes = sizeof_mesg_unit * MESG_UNIT_NUM * 2"

definition phase_offset :: "nat \<Rightarrow> nat" where
  "phase_offset machine_id = sizeof_resp + sizeof_machine_unit * (machine_id + 1) - 8"

definition consensus_offset :: nat where
  "consensus_offset = sizeof_server_layout - 8"

definition meta_offset :: nat where
  "meta_offset = sizeof_resp + sizeof_mesg_unit * MESG_UNIT_NUM * 2"

section \<open>Messages of counters\<close>

text \<open>Counter \<open>j\<close> is in message \<open>j / __COUNTER_PER_MESG\<close>.\<close>

definition mesg_get :: "mesg_unit list \<Rightarrow> nat \<Rightarrow> u64 option" where
  "mesg_get arr j = do {
     u \<leftarrow> arr_get arr (j div COUNTER_PER_MESG);
     arr_get (mu_counters u) (j mod COUNTER_PER_MESG)
   }"

definition mesg_upd :: "mesg_unit list \<Rightarrow> nat \<Rightarrow> (u64 \<Rightarrow> u64) \<Rightarrow> mesg_unit list option" where
  "mesg_upd arr j f = do {
     u \<leftarrow> arr_get arr (j div COUNTER_PER_MESG);
     cs \<leftarrow> arr_upd (mu_counters u) (j mod COUNTER_PER_MESG) f;
     Some (arr[j div COUNTER_PER_MESG := u\<lparr>mu_counters := cs\<rparr>])
   }"

definition mesg_mark :: "mesg_unit list \<Rightarrow> nat \<Rightarrow> u64 \<Rightarrow> mesg_unit list option" where
  "mesg_mark arr j v = arr_upd arr (j div COUNTER_PER_MESG) (\<lambda>u. u\<lparr>mu_crc := v\<rparr>)"

section \<open>Collecting the driver's counters\<close>

record collector =
  co_records :: "recorder list"
  co_region :: client_layout
  co_tt_count :: u64

text \<open>
  One counter of record \<open>i\<close>: its value goes into the message, overwriting it for the first
  registered record and adding to it for the others, and is subtracted from the record.
  \<open>racing i j\<close> is what the driver adds to the two counters between the read and the subtraction.
\<close>

definition collect_counter :: "(nat \<Rightarrow> nat \<Rightarrow> u64 \<times> u64) \<Rightarrow> bool \<Rightarrow> nat \<Rightarrow> nat \<Rightarrow> collector \<Rightarrow> collector option" where
  "collect_counter racing is_first i j c = do {
     r \<leftarrow> arr_get (co_records c) i;
     ms \<leftarrow> mesg_mark (cl_mesg_arr (co_region c)) j CRC_COMPLETE;
     incre \<leftarrow> arr_get (rec_counters r) j;
     c_incre \<leftarrow> arr_get (rec_c_counters r) j;
     ms \<leftarrow> mesg_upd ms j (\<lambda>x. if is_first then incre else x + incre);
     cms \<leftarrow> mesg_upd (cl_c_mesg_arr (co_region c)) j (\<lambda>x. if is_first then c_incre else x + c_incre);
     cs \<leftarrow> arr_upd (rec_counters r) j (\<lambda>x. x + fst (racing i j) + (0 - incre));
     ccs \<leftarrow> arr_upd (rec_c_counters r) j (\<lambda>x. x + snd (racing i j) + (0 - c_incre));
     Some (c\<lparr>co_records := (co_records c)[i := r\<lparr>rec_counters := cs, rec_c_counters := ccs\<rparr>],
       co_region := (co_region c)\<lparr>cl_mesg_arr := ms, cl_c_mesg_arr := cms\<rparr>,
       co_tt_count := co_tt_count c + incre\<rparr>)
   }"

definition collect_recorder :: "(nat \<Rightarrow> nat \<Rightarrow> u64 \<times> u64) \<Rightarrow> nat \<Rightarrow> nat \<times> collector \<Rightarrow> (nat \<times> collector) option" where
  "collect_recorder racing i = (\<lambda>(recorder_cnt, c). do {
     r \<leftarrow> arr_get (co_records c) i;
     if rec_qpn r \<noteq> 0 then do {
       c \<leftarrow> for_loop 0 COUNTER_TOTAL (collect_counter racing (recorder_cnt = 0) i) c;
       Some (recorder_cnt + 1, c)
     }
     else Some (recorder_cnt, c)
   })"

definition collect :: "(nat \<Rightarrow> nat \<Rightarrow> u64 \<times> u64) \<Rightarrow> collector \<Rightarrow> collector option" where
  "collect racing c = do {
     (recorder_cnt, c) \<leftarrow> for_loop 0 MAX_RECORDER_NUM (collect_recorder racing) (0, c);
     Some c
   }"

section \<open>Hand-over to the driver\<close>

text \<open>The server's RPC region, once it has been received and differs from the known one.\<close>

definition check_server_meta :: "client_layout \<Rightarrow> sh_local_region \<Rightarrow> bool \<times> sh_local_region" where
  "check_server_meta local s =
     (if rm_length (cl_s_meta local) \<noteq> 0 \<and> rm_rpc_addr (cl_s_meta local) \<noteq> rm_rpc_addr (rmeta s)
      then (True, s\<lparr>rmeta := cl_s_meta local\<rparr>) else (False, s))"

text \<open>The strategies, eight bytes (four credits) at a time.\<close>

definition copy_word :: "u16 list \<Rightarrow> nat \<Rightarrow> u16 list \<Rightarrow> u16 list option" where
  "copy_word new i credit = for_loop (4 * i) (4 * i + 4)
     (\<lambda>j credit. do { v \<leftarrow> arr_get new j; arr_set credit j v }) credit"

definition sizeof_strategies :: nat where
  "sizeof_strategies = 2 * COUNTER_TOTAL"

definition copy_strategies :: "client_layout \<Rightarrow> sh_local_region \<Rightarrow> sh_local_region option" where
  "copy_strategies local s = do {
     credit \<leftarrow> for_loop 0 (sizeof_strategies div 8) (copy_word (resp_credit (cl_strategies local))) (strag_credit s);
     Some (s\<lparr>strag_credit := credit\<rparr>)
   }"

section \<open>Requests\<close>

definition IBV_SEND_SIGNALED :: u32 where
  "IBV_SEND_SIGNALED = 2"

definition IBV_SEND_INLINE :: u32 where
  "IBV_SEND_INLINE = 8"

text \<open>
  \<open>add_request\<close> fills a request, whose former content is \<open>wr\<close>; \<open>lkey\<close> and
  \<open>max_inline_data\<close> are the answers of the resource manager.
\<close>

definition add_request :: "u32 \<Rightarrow> u64 \<Rightarrow> ibv_send_wr \<Rightarrow> u64 \<Rightarrow> ibv_wr_opcode \<Rightarrow> u64 \<Rightarrow> u64 \<Rightarrow> u32 \<Rightarrow> u64 \<Rightarrow> u64 \<Rightarrow>
    u64 \<Rightarrow> u64 \<Rightarrow> u32 \<Rightarrow> ibv_send_wr" where
  "add_request lkey max_inline_data wr wid opc local offset rkey remote_va len compare_add swap flags =
     (let sge = \<lparr>sge_addr = local, sge_length = ucast len, sge_lkey = lkey\<rparr>;
          wr = wr\<lparr>wr_id := wid, opcode := opc, sg_list := [sge], send_flags := flags\<rparr>;
          wr = (if opc = IBV_WR_ATOMIC_FETCH_AND_ADD \<or> opc = IBV_WR_ATOMIC_CMP_AND_SWP
                then wr\<lparr>wr_atomic_rkey := rkey, wr_remote_addr := remote_va + offset,
                  wr_compare_add := compare_add, wr_swap := swap\<rparr>
                else if opc = IBV_WR_SEND then wr
                else (set_rdma_rkey rkey wr)\<lparr>wr_remote_addr := remote_va + offset\<rparr>)
      in if opc = IBV_WR_RDMA_WRITE \<and> len \<le> max_inline_data
         then wr\<lparr>send_flags := send_flags wr OR IBV_SEND_INLINE\<rparr> else wr)"

text \<open>
  Polling for \<open>n\<close> completions: \<open>poll k m\<close> is the answer of the \<open>k\<close>-th call of \<open>ibv_poll_cq\<close>
  for at most \<open>m\<close> completions, the number of new completions and the status of the first.
  A bad status ends in an endless loop.
\<close>

partial_function (option) poll_loop :: "(nat \<Rightarrow> nat \<Rightarrow> int \<times> u32) \<Rightarrow> nat \<Rightarrow> nat \<Rightarrow> nat \<Rightarrow> nat option" where
  "poll_loop poll n k tt_comps =
     (if tt_comps < n
      then case poll k (n - tt_comps) of (new_comps, status) \<Rightarrow>
        if new_comps > 0
        then if status \<noteq> 0 then None else poll_loop poll n (Suc k) (tt_comps + nat new_comps)
        else poll_loop poll n (Suc k) tt_comps
      else Some tt_comps)"

definition poll_n :: "(nat \<Rightarrow> nat \<Rightarrow> int \<times> u32) \<Rightarrow> nat \<Rightarrow> nat option" where
  "poll_n poll n = poll_loop poll n 0 0"

section \<open>Lemmas on messages\<close>

text \<open>The messages of a machine: the arrays have the lengths of the C types.\<close>

definition mesg_ok :: "mesg_unit list \<Rightarrow> bool" where
  "mesg_ok arr \<longleftrightarrow> length arr = MESG_UNIT_NUM \<and> (\<forall>u \<in> set arr. length (mu_counters u) = COUNTER_PER_MESG)"

definition msg :: "mesg_unit list \<Rightarrow> nat \<Rightarrow> u64" where
  "msg arr j = mu_counters (arr ! (j div COUNTER_PER_MESG)) ! (j mod COUNTER_PER_MESG)"

lemmas layout_consts = COUNTER_PER_MESG_def MESG_UNIT_NUM_def MAX_COUNTER_NUM_def SLOT_GRANULARITY_def

lemma mesg_idx:
  assumes "mesg_ok arr" "j < COUNTER_TOTAL"
  shows "j div COUNTER_PER_MESG < length arr"
    "j mod COUNTER_PER_MESG < length (mu_counters (arr ! (j div COUNTER_PER_MESG)))"
proof -
  have "j div 7 < 1171" using assms(2) by (simp add: layout_consts div_less_iff_less_mult)
  then show l: "j div COUNTER_PER_MESG < length arr" using assms(1) by (simp add: mesg_ok_def layout_consts)
  have "arr ! (j div COUNTER_PER_MESG) \<in> set arr" using l by simp
  then have "length (mu_counters (arr ! (j div COUNTER_PER_MESG))) = COUNTER_PER_MESG"
    using assms(1) by (simp add: mesg_ok_def)
  then show "j mod COUNTER_PER_MESG < length (mu_counters (arr ! (j div COUNTER_PER_MESG)))"
    by (simp add: COUNTER_PER_MESG_def)
qed

lemma mesg_get_ok: "mesg_ok arr \<Longrightarrow> j < COUNTER_TOTAL \<Longrightarrow> mesg_get arr j = Some (msg arr j)"
  using mesg_idx [of arr j] by (simp add: mesg_get_def msg_def c_access)

lemma div_mod_neq: "k \<noteq> j \<Longrightarrow> k div n = j div n \<Longrightarrow> k mod n \<noteq> (j mod n :: nat)"
  by (metis div_mult_mod_eq)

lemma mesg_upd_ok:
  assumes "mesg_ok arr" "j < COUNTER_TOTAL"
  shows "\<exists>arr'. mesg_upd arr j f = Some arr' \<and> mesg_ok arr' \<and>
    (\<forall>k. msg arr' k = (if k = j then f (msg arr j) else msg arr k)) \<and> map mu_crc arr' = map mu_crc arr"
proof -
  note I = mesg_idx [OF assms]
  let ?q = "j div COUNTER_PER_MESG" and ?m = "j mod COUNTER_PER_MESG"
  let ?u = "arr ! ?q"
  let ?u' = "?u\<lparr>mu_counters := (mu_counters ?u)[?m := f (mu_counters ?u ! ?m)]\<rparr>"
  let ?arr = "arr[?q := ?u']"
  have "mesg_upd arr j f = Some ?arr" using I by (simp add: mesg_upd_def c_access)
  moreover have "length (mu_counters ?u) = COUNTER_PER_MESG" using assms(1) I(1) by (simp add: mesg_ok_def)
  then have "mesg_ok ?arr" using assms(1) by (auto simp: mesg_ok_def dest!: subsetD [OF set_update_subset_insert])
  moreover have "msg ?arr k = (if k = j then f (msg arr j) else msg arr k)" for k
    using I div_mod_neq [of k j COUNTER_PER_MESG] by (auto simp: msg_def nth_list_update)
  moreover have "map mu_crc ?arr = map mu_crc arr"
    using I(1) by (simp add: map_update) (simp add: map_update [symmetric])
  ultimately show ?thesis by blast
qed

lemma mesg_mark_ok:
  assumes "mesg_ok arr" "j < COUNTER_TOTAL"
  shows "\<exists>arr'. mesg_mark arr j v = Some arr' \<and> mesg_ok arr' \<and> msg arr' = msg arr"
proof -
  note I = mesg_idx [OF assms]
  let ?arr = "arr[j div COUNTER_PER_MESG := (arr ! (j div COUNTER_PER_MESG))\<lparr>mu_crc := v\<rparr>]"
  have "mesg_mark arr j v = Some ?arr" using I by (simp add: mesg_mark_def c_access)
  moreover have "length (mu_counters (arr ! (j div COUNTER_PER_MESG))) = COUNTER_PER_MESG"
    using assms(1) I(1) by (simp add: mesg_ok_def)
  then have "mesg_ok ?arr" using assms(1) by (auto simp: mesg_ok_def dest!: subsetD [OF set_update_subset_insert])
  moreover have "msg ?arr = msg arr" using I(1) by (auto simp: msg_def nth_list_update fun_eq_iff)
  ultimately show ?thesis by blast
qed

section \<open>What the collection does\<close>

definition records_ok :: "recorder list \<Rightarrow> bool" where
  "records_ok rs \<longleftrightarrow> length rs = MAX_RECORDER_NUM \<and>
     (\<forall>r \<in> set rs. length (rec_counters r) = COUNTER_TOTAL \<and> length (rec_c_counters r) = COUNTER_TOTAL)"

definition collector_ok :: "collector \<Rightarrow> bool" where
  "collector_ok c \<longleftrightarrow> records_ok (co_records c) \<and> mesg_ok (cl_mesg_arr (co_region c)) \<and>
     mesg_ok (cl_c_mesg_arr (co_region c))"

text \<open>The counters of a record and of the messages, of operations on the card or on the CPU.\<close>

definition crec :: "collector \<Rightarrow> bool \<Rightarrow> nat \<Rightarrow> nat \<Rightarrow> u64" where
  "crec c cpu i k = (if cpu then rec_c_counters else rec_counters) (co_records c ! i) ! k"

definition cmsg :: "collector \<Rightarrow> bool \<Rightarrow> nat \<Rightarrow> u64" where
  "cmsg c cpu k = msg ((if cpu then cl_c_mesg_arr else cl_mesg_arr) (co_region c)) k"

definition race :: "(nat \<Rightarrow> nat \<Rightarrow> u64 \<times> u64) \<Rightarrow> bool \<Rightarrow> nat \<Rightarrow> nat \<Rightarrow> u64" where
  "race racing cpu i k = (if cpu then snd else fst) (racing i k)"

definition registered :: "collector \<Rightarrow> nat \<Rightarrow> bool" where
  "registered c i \<longleftrightarrow> rec_qpn (co_records c ! i) \<noteq> 0"

definition same_frame :: "collector \<Rightarrow> collector \<Rightarrow> bool" where
  "same_frame c' c \<longleftrightarrow> qpns (co_records c') = qpns (co_records c) \<and>
     cl_strategies (co_region c') = cl_strategies (co_region c) \<and> cl_s_meta (co_region c') = cl_s_meta (co_region c)"

lemma records_okD:
  assumes "records_ok rs" "i < MAX_RECORDER_NUM"
  shows "i < length rs" "length (rec_counters (rs ! i)) = COUNTER_TOTAL" "length (rec_c_counters (rs ! i)) = COUNTER_TOTAL"
  using assms by (simp_all add: records_ok_def)

lemma records_ok_upd:
  "records_ok rs \<Longrightarrow> length (rec_counters r) = COUNTER_TOTAL \<Longrightarrow> length (rec_c_counters r) = COUNTER_TOTAL \<Longrightarrow>
    records_ok (rs[i := r])"
  by (auto simp: records_ok_def dest!: subsetD [OF set_update_subset_insert])

lemma qpns_upd: "i < length rs \<Longrightarrow> rec_qpn r = rec_qpn (rs ! i) \<Longrightarrow> qpns (rs[i := r]) = qpns rs"
  by (simp add: qpns_def map_update) (simp add: map_update [symmetric])

lemma registered_frame:
  "same_frame c' c \<Longrightarrow> collector_ok c' \<Longrightarrow> collector_ok c \<Longrightarrow> i < MAX_RECORDER_NUM \<Longrightarrow> registered c' i = registered c i"
  using nth_map [of i "co_records c" rec_qpn] nth_map [of i "co_records c'" rec_qpn]
  by (simp add: same_frame_def registered_def qpns_def collector_ok_def records_ok_def)

lemma collect_counter_ok:
  assumes "collector_ok c" "i < MAX_RECORDER_NUM" "j < COUNTER_TOTAL"
  shows "\<exists>c'. collect_counter racing is_first i j c = Some c' \<and> collector_ok c' \<and> same_frame c' c \<and>
    (\<forall>cpu k. cmsg c' cpu k = (if k = j then (if is_first then 0 else cmsg c cpu j) + crec c cpu i j else cmsg c cpu k)) \<and>
    (\<forall>cpu i' k. crec c' cpu i' k = (if i' = i \<and> k = j then race racing cpu i j else crec c cpu i' k)) \<and>
    co_tt_count c' = co_tt_count c + crec c False i j"
proof -
  let ?r = "co_records c ! i" and ?L = "co_region c"
  note ok = assms(1) [unfolded collector_ok_def]
  note R = records_okD [OF conjunct1 [OF ok] assms(2)]
  obtain ms1 where m1: "mesg_mark (cl_mesg_arr ?L) j CRC_COMPLETE = Some ms1" "mesg_ok ms1" "msg ms1 = msg (cl_mesg_arr ?L)"
    using mesg_mark_ok [of "cl_mesg_arr ?L" j CRC_COMPLETE] ok assms(3) by blast
  obtain ms where m2: "mesg_upd ms1 j (\<lambda>x. if is_first then rec_counters ?r ! j else x + rec_counters ?r ! j) = Some ms"
    "mesg_ok ms" "\<forall>k. msg ms k = (if k = j then (if is_first then rec_counters ?r ! j
       else msg ms1 j + rec_counters ?r ! j) else msg ms1 k)"
    using mesg_upd_ok [OF m1(2) assms(3)] by blast
  obtain cms where m3: "mesg_upd (cl_c_mesg_arr ?L) j
      (\<lambda>x. if is_first then rec_c_counters ?r ! j else x + rec_c_counters ?r ! j) = Some cms"
    "mesg_ok cms" "\<forall>k. msg cms k = (if k = j then (if is_first then rec_c_counters ?r ! j
       else msg (cl_c_mesg_arr ?L) j + rec_c_counters ?r ! j) else msg (cl_c_mesg_arr ?L) k)"
    using mesg_upd_ok [of "cl_c_mesg_arr ?L" j] ok assms(3) by blast
  let ?r' = "?r\<lparr>rec_counters := (rec_counters ?r)[j := fst (racing i j)],
    rec_c_counters := (rec_c_counters ?r)[j := snd (racing i j)]\<rparr>"
  let ?c = "c\<lparr>co_records := (co_records c)[i := ?r'], co_region := ?L\<lparr>cl_mesg_arr := ms, cl_c_mesg_arr := cms\<rparr>,
       co_tt_count := co_tt_count c + rec_counters ?r ! j\<rparr>"
  have "collect_counter racing is_first i j c = Some ?c"
    using R assms(3) m1(1) m2(1) m3(1) by (simp add: collect_counter_def c_access)
  moreover have "collector_ok ?c" using ok m2(2) m3(2) R records_ok_upd by (simp add: collector_ok_def)
  moreover have "same_frame ?c c" using R(1) qpns_upd by (simp add: same_frame_def)
  moreover have "cmsg ?c cpu k = (if k = j then (if is_first then 0 else cmsg c cpu j) + crec c cpu i j else cmsg c cpu k)" for cpu k
    using m2(3) m3(3) m1(3) by (cases cpu) (simp_all add: cmsg_def crec_def)
  moreover have "crec ?c cpu i' k = (if i' = i \<and> k = j then race racing cpu i j else crec c cpu i' k)" for cpu i' k
    using R assms(3) by (cases cpu) (auto simp: crec_def race_def nth_list_update)
  moreover have "co_tt_count ?c = co_tt_count c + crec c False i j" by (simp add: crec_def)
  ultimately show ?thesis by blast
qed

lemma same_frame_trans: "same_frame a b \<Longrightarrow> same_frame b c \<Longrightarrow> same_frame a c"
  by (simp add: same_frame_def)

text \<open>All counters of one record.\<close>

lemma collect_counters_ok:
  assumes "collector_ok c" "i < MAX_RECORDER_NUM"
  shows "\<exists>c'. for_loop 0 COUNTER_TOTAL (collect_counter racing is_first i) c = Some c' \<and> collector_ok c' \<and> same_frame c' c \<and>
    (\<forall>cpu k. cmsg c' cpu k = (if k < COUNTER_TOTAL then (if is_first then 0 else cmsg c cpu k) + crec c cpu i k
       else cmsg c cpu k)) \<and>
    (\<forall>cpu i' k. crec c' cpu i' k = (if i' = i \<and> k < COUNTER_TOTAL then race racing cpu i k else crec c cpu i' k)) \<and>
    co_tt_count c' = co_tt_count c + (\<Sum>k < COUNTER_TOTAL. crec c False i k)"
proof (rule for_loop_inv [where I = "\<lambda>j c'. collector_ok c' \<and> same_frame c' c \<and>
    (\<forall>cpu k. cmsg c' cpu k = (if k < j then (if is_first then 0 else cmsg c cpu k) + crec c cpu i k else cmsg c cpu k)) \<and>
    (\<forall>cpu i' k. crec c' cpu i' k = (if i' = i \<and> k < j then race racing cpu i k else crec c cpu i' k)) \<and>
    co_tt_count c' = co_tt_count c + (\<Sum>k < j. crec c False i k)"], goal_cases)
  case (3 j c1)
  then have ok: "collector_ok c1" and eqs: "\<And>cpu k. cmsg c1 cpu k =
      (if k < j then (if is_first then 0 else cmsg c cpu k) + crec c cpu i k else cmsg c cpu k)"
    "\<And>cpu i' k. crec c1 cpu i' k = (if i' = i \<and> k < j then race racing cpu i k else crec c cpu i' k)"
    "co_tt_count c1 = co_tt_count c + (\<Sum>k < j. crec c False i k)" "same_frame c1 c" by auto
  obtain c2 where c2: "collect_counter racing is_first i j c1 = Some c2" "collector_ok c2" "same_frame c2 c1"
    "\<And>cpu k. cmsg c2 cpu k = (if k = j then (if is_first then 0 else cmsg c1 cpu j) + crec c1 cpu i j else cmsg c1 cpu k)"
    "\<And>cpu i' k. crec c2 cpu i' k = (if i' = i \<and> k = j then race racing cpu i j else crec c1 cpu i' k)"
    "co_tt_count c2 = co_tt_count c1 + crec c1 False i j"
    using collect_counter_ok [OF ok assms(2) 3(2), of racing is_first] by blast
  have "cmsg c2 cpu k = (if k < Suc j then (if is_first then 0 else cmsg c cpu k) + crec c cpu i k else cmsg c cpu k)" for cpu k
    unfolding c2(4) eqs(1,2) by (auto simp: less_Suc_eq)
  moreover have "crec c2 cpu i' k = (if i' = i \<and> k < Suc j then race racing cpu i k else crec c cpu i' k)" for cpu i' k
    unfolding c2(5) eqs(2) by (auto simp: less_Suc_eq)
  moreover have "co_tt_count c2 = co_tt_count c + (\<Sum>k < Suc j. crec c False i k)"
    unfolding c2(6) eqs(3) by (simp add: eqs(2))
  ultimately show ?case using c2(1,2) same_frame_trans [OF c2(3) eqs(4)] by blast
qed (use assms in \<open>auto simp: same_frame_def\<close>)

text \<open>What holds after the first \<open>n\<close> records.\<close>

definition collect_inv :: "(nat \<Rightarrow> nat \<Rightarrow> u64 \<times> u64) \<Rightarrow> collector \<Rightarrow> nat \<Rightarrow> nat \<times> collector \<Rightarrow> bool" where
  "collect_inv racing c n = (\<lambda>(cnt, c'). collector_ok c' \<and> same_frame c' c \<and> (cnt = 0 \<longleftrightarrow> \<not> (\<exists>i < n. registered c i)) \<and>
    (\<forall>cpu. \<forall>k < COUNTER_TOTAL. cmsg c' cpu k =
       (if cnt \<noteq> 0 then \<Sum>i < n. if registered c i then crec c cpu i k else 0 else cmsg c cpu k)) \<and>
    (\<forall>cpu i. \<forall>k < COUNTER_TOTAL. crec c' cpu i k =
       (if i < n \<and> registered c i then race racing cpu i k else crec c cpu i k)) \<and>
    co_tt_count c' = co_tt_count c + (\<Sum>i < n. if registered c i then \<Sum>k < COUNTER_TOTAL. crec c False i k else 0))"

lemma collect_recorder_ok:
  assumes "collector_ok c" and i: "i < MAX_RECORDER_NUM" and Is: "collect_inv racing c i s"
  shows "\<exists>s'. collect_recorder racing i s = Some s' \<and> collect_inv racing c (Suc i) s'"
proof -
  obtain cnt c1 where s: "s = (cnt, c1)" by (cases s)
  have ok: "collector_ok c1" and eqs: "same_frame c1 c" "cnt = 0 \<longleftrightarrow> \<not> (\<exists>i' < i. registered c i')"
    "\<And>cpu k. k < COUNTER_TOTAL \<Longrightarrow> cmsg c1 cpu k =
       (if cnt \<noteq> 0 then \<Sum>i < i. if registered c i then crec c cpu i k else 0 else cmsg c cpu k)"
    "\<And>cpu i' k. k < COUNTER_TOTAL \<Longrightarrow> crec c1 cpu i' k =
       (if i' < i \<and> registered c i' then race racing cpu i' k else crec c cpu i' k)"
    "co_tt_count c1 = co_tt_count c + (\<Sum>i < i. if registered c i then \<Sum>k < COUNTER_TOTAL. crec c False i k else 0)"
    using Is unfolding s collect_inv_def by auto
  have get: "arr_get (co_records c1) i = Some (co_records c1 ! i)"
    using ok i by (simp add: collector_ok_def records_ok_def c_access)
  have reg: "rec_qpn (co_records c1 ! i) \<noteq> 0 \<longleftrightarrow> registered c i"
    using registered_frame [OF eqs(1) ok assms(1) i] by (simp add: registered_def)
  show ?thesis
  proof (cases "registered c i")
    case False
    then have "collect_recorder racing i s = Some (cnt, c1)" using get reg by (simp add: collect_recorder_def s)
    moreover have "collect_inv racing c (Suc i) (cnt, c1)" using False ok eqs by (auto simp: collect_inv_def less_Suc_eq)
    ultimately show ?thesis by blast
  next
    case True
    obtain c2 where c2: "for_loop 0 COUNTER_TOTAL (collect_counter racing (cnt = 0) i) c1 = Some c2"
      "collector_ok c2" "same_frame c2 c1"
      "\<And>cpu k. cmsg c2 cpu k = (if k < COUNTER_TOTAL then (if cnt = 0 then 0 else cmsg c1 cpu k) + crec c1 cpu i k
         else cmsg c1 cpu k)"
      "\<And>cpu i' k. crec c2 cpu i' k = (if i' = i \<and> k < COUNTER_TOTAL then race racing cpu i k else crec c1 cpu i' k)"
      "co_tt_count c2 = co_tt_count c1 + (\<Sum>k < COUNTER_TOTAL. crec c1 False i k)"
      using collect_counters_ok [OF ok i, of racing "cnt = 0"] by blast
    have here: "crec c1 cpu i k = crec c cpu i k" if "k < COUNTER_TOTAL" for cpu k using eqs(4) [OF that] by simp
    have none: "(\<Sum>i' < i. if registered c i' then crec c cpu i' k else 0) = 0" if "cnt = 0" for cpu k
      using that eqs(2) by (intro sum.neutral) auto
    have "collect_recorder racing i s = Some (cnt + 1, c2)" using get reg True c2(1) by (simp add: collect_recorder_def s)
    moreover have "cmsg c2 cpu k = (\<Sum>i < Suc i. if registered c i then crec c cpu i k else 0)" if "k < COUNTER_TOTAL" for cpu k
      using that True none by (simp add: c2(4) here eqs(3))
    moreover have "crec c2 cpu i' k = (if i' < Suc i \<and> registered c i' then race racing cpu i' k else crec c cpu i' k)"
      if "k < COUNTER_TOTAL" for cpu i' k using that True by (auto simp: c2(5) eqs(4) less_Suc_eq)
    moreover have "co_tt_count c2 = co_tt_count c +
        (\<Sum>i < Suc i. if registered c i then \<Sum>k < COUNTER_TOTAL. crec c False i k else 0)"
      unfolding c2(6) eqs(5) using True by (simp add: here)
    ultimately show ?thesis using c2(2) same_frame_trans [OF c2(3) eqs(1)] True
      by (auto simp: collect_inv_def simp del: sum.lessThan_Suc)
  qed
qed

text \<open>All records.\<close>

lemma collect_ok:
  assumes "collector_ok c"
  shows "\<exists>c'. collect racing c = Some c' \<and> collector_ok c' \<and> same_frame c' c \<and>
    (\<forall>cpu. \<forall>k < COUNTER_TOTAL. cmsg c' cpu k = (if \<exists>i < MAX_RECORDER_NUM. registered c i
       then \<Sum>i < MAX_RECORDER_NUM. if registered c i then crec c cpu i k else 0 else cmsg c cpu k)) \<and>
    (\<forall>cpu. \<forall>i < MAX_RECORDER_NUM. \<forall>k < COUNTER_TOTAL. crec c' cpu i k =
       (if registered c i then race racing cpu i k else crec c cpu i k)) \<and>
    co_tt_count c' = co_tt_count c + (\<Sum>i < MAX_RECORDER_NUM. if registered c i then \<Sum>k < COUNTER_TOTAL. crec c False i k else 0)"
proof -
  have "\<exists>s'. for_loop 0 MAX_RECORDER_NUM (collect_recorder racing) (0, c) = Some s' \<and> collect_inv racing c MAX_RECORDER_NUM s'"
    by (rule for_loop_inv) (use assms collect_recorder_ok [OF assms] in \<open>auto simp: collect_inv_def same_frame_def\<close>)
  then obtain cnt c' where "for_loop 0 MAX_RECORDER_NUM (collect_recorder racing) (0, c) = Some (cnt, c')"
    "collect_inv racing c MAX_RECORDER_NUM (cnt, c')" by auto
  then show ?thesis by (intro exI [of _ c']) (auto simp: collect_def collect_inv_def)
qed

section \<open>Copying the strategies\<close>

lemma copy_range_ok:
  assumes "lo \<le> hi" "hi \<le> length new" "length new = length old"
  shows "for_loop lo hi (\<lambda>j credit. do { v \<leftarrow> arr_get new j; arr_set credit j v }) (take lo new @ drop lo old) =
    Some (take hi new @ drop hi old)"
proof -
  have "\<exists>s'. for_loop lo hi (\<lambda>j credit. do { v \<leftarrow> arr_get new j; arr_set credit j v }) (take lo new @ drop lo old) = Some s' \<and>
    s' = take hi new @ drop hi old"
  proof (rule for_loop_inv [where I = "\<lambda>j s'. s' = take j new @ drop j old"])
    fix i s assume "lo \<le> i" "i < hi" "s = take i new @ drop i old"
    then show "\<exists>s'. Option.bind (arr_get new i) (arr_set s i) = Some s' \<and> s' = take (Suc i) new @ drop (Suc i) old"
      using assms by (simp add: arr_get_def arr_upd_def list_update_append Cons_nth_drop_Suc [symmetric]
          take_Suc_conv_app_nth)
  qed (use assms in auto)
  then show ?thesis by simp
qed

lemma copy_words_ok:
  assumes "length new = length old" "4 * n \<le> length new"
  shows "for_loop 0 n (copy_word new) old = Some (take (4 * n) new @ drop (4 * n) old)"
proof -
  have "\<exists>s'. for_loop 0 n (copy_word new) old = Some s' \<and> s' = take (4 * n) new @ drop (4 * n) old"
    by (rule for_loop_inv [where I = "\<lambda>i s'. s' = take (4 * i) new @ drop (4 * i) old"])
      (use assms in \<open>auto simp: copy_word_def copy_range_ok add.commute\<close>)
  then show ?thesis by simp
qed

section \<open>Polling\<close>

text \<open>With good completions arriving again and again, polling ends.\<close>

lemma poll_loop_total:
  assumes le: "\<And>k m. fst (poll k m) \<le> int m" and good: "\<And>k m. snd (poll k m) = 0"
    and live: "\<And>k. \<exists>k' \<ge> k. \<forall>m > 0. fst (poll k' m) > 0"
  shows "tt \<le> n \<Longrightarrow> poll_loop poll n k tt = Some n"
proof (induction "n - tt" arbitrary: tt k rule: less_induct)
  case less
  have progress: "poll_loop poll n k tt = Some n" if "tt < n" "0 < fst (poll k (n - tt))" for k
  proof -
    have "poll_loop poll n k tt = poll_loop poll n (Suc k) (tt + nat (fst (poll k (n - tt))))"
      using that good [of k "n - tt"] by (subst poll_loop.simps) (cases "poll k (n - tt)", simp)
    also have "\<dots> = Some n" using that le [of k "n - tt"] by (intro less.hyps) linarith+
    finally show ?thesis .
  qed
  obtain k' where k': "k \<le> k'" "\<forall>m > 0. fst (poll k' m) > 0" using live by blast
  show ?case
  proof (cases "tt < n")
    case True
    from k'(1) show ?thesis
    proof (induction rule: inc_induct)
      case base
      show ?case using True k'(2) by (intro progress) auto
    next
      case (step k)
      have "poll_loop poll n k tt = poll_loop poll n (Suc k) tt" if "\<not> 0 < fst (poll k (n - tt))"
        using that True by (subst poll_loop.simps) (cases "poll k (n - tt)", simp)
      with step.IH progress [OF True] show ?case by (cases "0 < fst (poll k (n - tt))") simp_all
    qed
  qed (use less.prems in \<open>simp add: poll_loop.simps\<close>)
qed

text \<open>Whatever the answers, the number returned is the number asked for.\<close>

lemma poll_loop_sound:
  "poll_loop poll n k tt = Some r \<Longrightarrow> (\<forall>k m. fst (poll k m) \<le> int m) \<Longrightarrow> tt \<le> n \<Longrightarrow> r = n"
proof (induction rule: poll_loop.raw_induct [rotated, consumes 1])
  case (1 f poll n k tt r)
  show ?case
  proof (cases "tt < n")
    case False
    with 1 show ?thesis by simp
  next
    case True
    obtain nc st where p: "poll k (n - tt) = (nc, st)" by (cases "poll k (n - tt)")
    have "nc \<le> int (n - tt)" using 1(3) p by (metis fst_conv)
    then have "tt + nat nc \<le> n" using True by simp
    then show ?thesis using 1 p True by (auto split: if_splits)
  qed
qed

section \<open>Byte ranges\<close>

definition bytes :: "nat \<Rightarrow> nat \<Rightarrow> nat set" where
  "bytes off len = {off ..< off + len}"

lemma bytes_Un: "bytes a m \<union> bytes (a + m) n = bytes a (m + n)"
  by (auto simp: bytes_def)

lemma bytes_disj: "a + m \<le> b \<Longrightarrow> bytes a m \<inter> bytes b n = {}" "b + n \<le> a \<Longrightarrow> bytes a m \<inter> bytes b n = {}"
  by (auto simp: bytes_def)

lemma bytes_subset: "b \<le> a \<Longrightarrow> a + m \<le> b + n \<Longrightarrow> bytes a m \<subseteq> bytes b n"
  by (auto simp: bytes_def)

lemma in_one_line: "x div 64 = (x + 64 - 1) div 64 \<longleftrightarrow> x mod 64 = (0::nat)"
proof -
  define q r where "q = x div 64" and "r = x mod 64"
  then have x: "x = 64 * q + r" "r < 64" by simp_all
  then have "x + 64 - 1 = (if r = 0 then 64 * q + 63 else 64 * (q + 1) + (r - 1))" by simp
  then have "(x + 64 - 1) div 64 = (if r = 0 then q else q + 1)"
    using x(2) div_mult_self4 [of 64 q 63] div_mult_self4 [of 64 "q + 1" "r - 1"] by (simp split: if_splits)
  then show ?thesis by (simp flip: q_def r_def)
qed

lemma layout_sizes:
  "sizeof_resp = 16392" "sizeof_machine_unit = 149896" "sizeof_mesg_unit = 64" "mesg_bytes = 149888"
  "consensus_offset = 2447512" "sizeof_server_layout = 2447520" "MAX_MACHINE_NUM = 16" "local_offset = 64"
  by (simp_all add: sizeof_resp_def sizeof_machine_unit_def sizeof_mesg_unit_def mesg_bytes_def consensus_offset_def
      sizeof_server_layout_def MAX_MACHINE_NUM_def local_offset_def layout_consts)

lemma mesg_line: "(64 + (16392 + 149896 * i) + u * 64) mod 64 = 0 \<longleftrightarrow> i mod 8 = (7::nat)"
proof -
  have "64 + (16392 + 149896 * i) + u * 64 = 64 * (257 + 2342 * i + u) + 8 * (i + 1)" by simp
  then have "(64 + (16392 + 149896 * i) + u * 64) mod 64 = (8 * (i + 1)) mod 64" by (simp only: mod_mult_self4)
  also have "\<dots> = 8 * ((i + 1) mod 8)" using mult_mod_right [of 8 "i + 1" 8] by simp
  also have "(8 * ((i + 1) mod 8) = 0) \<longleftrightarrow> i mod 8 = 7" by (simp add: mod_Suc)
  finally show ?thesis by simp
qed

section \<open>Examples\<close>

definition example_layout :: "u16 \<Rightarrow> client_layout" where
  "example_layout credit = \<lparr>cl_strategies = \<lparr>resp_phase = 1, resp_credit = replicate COUNTER_TOTAL credit\<rparr>,
     cl_mesg_arr = replicate MESG_UNIT_NUM \<lparr>mu_counters = replicate COUNTER_PER_MESG 0, mu_crc = 0\<rparr>,
     cl_c_mesg_arr = replicate MESG_UNIT_NUM \<lparr>mu_counters = replicate COUNTER_PER_MESG 0, mu_crc = 0\<rparr>,
     cl_s_meta = rmeta zero_region\<rparr>"

text \<open>Record 7 is registered and has counted \<open>n\<close> operations on every entry.\<close>

definition example_collector :: "u64 \<Rightarrow> collector" where
  "example_collector n = \<lparr>co_records = (replicate MAX_RECORDER_NUM zero_recorder)
       [7 := \<lparr>rec_qpn = 7, rec_counters = replicate COUNTER_TOTAL n, rec_c_counters = replicate COUNTER_TOTAL 0\<rparr>],
     co_region = example_layout 0, co_tt_count = 0\<rparr>"

lemma example_collector_ok: "collector_ok (example_collector n)"
  by (auto simp: collector_ok_def records_ok_def mesg_ok_def example_collector_def example_layout_def zero_recorder_def
      dest!: subsetD [OF set_update_subset_insert])

section \<open>Properties\<close>

text \<open>
  Property C8. One collection moves every count of every registered record into the messages:
  each message counter becomes the sum over the registered records, each record keeps exactly what
  the driver added meanwhile, and the running total grows by the operations the card handled.
\<close>

theorem collect_moves_all_counts:
  assumes "collector_ok c" "\<exists>i < MAX_RECORDER_NUM. registered c i"
  shows "\<exists>c'. collect racing c = Some c' \<and> collector_ok c' \<and> same_frame c' c \<and>
    (\<forall>cpu. \<forall>k < COUNTER_TOTAL.
       cmsg c' cpu k = (\<Sum>i \<in> {i. i < MAX_RECORDER_NUM \<and> registered c i}. crec c cpu i k)) \<and>
    (\<forall>cpu. \<forall>i < MAX_RECORDER_NUM. \<forall>k < COUNTER_TOTAL.
       crec c' cpu i k = (if registered c i then race racing cpu i k else crec c cpu i k)) \<and>
    co_tt_count c' = co_tt_count c +
      (\<Sum>i \<in> {i. i < MAX_RECORDER_NUM \<and> registered c i}. \<Sum>k < COUNTER_TOTAL. crec c False i k)"
proof -
  have "(\<Sum>i < MAX_RECORDER_NUM. if registered c i then f i else 0) =
      (\<Sum>i \<in> {i. i < MAX_RECORDER_NUM \<and> registered c i}. f i)" for f :: "nat \<Rightarrow> u64"
    by (simp add: sum.inter_filter [symmetric] lessThan_def)
  with collect_ok [OF assms(1), of racing] assms(2) show ?thesis by simp
qed

theorem collect_moves_all_counts_witness:
  "\<exists>c'. collect (\<lambda>_ _. (1, 0)) (example_collector 5) = Some c' \<and> cmsg c' False 0 = 5 \<and> crec c' False 7 0 = 1"
proof -
  have r: "{i. i < MAX_RECORDER_NUM \<and> registered (example_collector 5) i} = {7}"
    by (auto simp: registered_def example_collector_def nth_list_update MAX_RECORDER_NUM_def zero_recorder_def split: if_splits)
  then have ex: "\<exists>i < MAX_RECORDER_NUM. registered (example_collector 5) i" "registered (example_collector 5) 7" by blast+
  have v: "crec (example_collector 5) False 7 0 = 5"
    by (simp add: crec_def example_collector_def MAX_RECORDER_NUM_def layout_consts)
  have lt: "0 < COUNTER_TOTAL" "7 < MAX_RECORDER_NUM" by (simp_all add: layout_consts MAX_RECORDER_NUM_def)
  obtain c' where "collect (\<lambda>_ _. (1, 0)) (example_collector 5) = Some c'"
    "\<forall>cpu. \<forall>k < COUNTER_TOTAL. cmsg c' cpu k = (\<Sum>i \<in> {7}. crec (example_collector 5) cpu i k)"
    "\<forall>cpu. \<forall>i < MAX_RECORDER_NUM. \<forall>k < COUNTER_TOTAL. crec c' cpu i k = (if registered (example_collector 5) i
       then race (\<lambda>_ _. (1, 0)) cpu i k else crec (example_collector 5) cpu i k)"
    using collect_moves_all_counts [OF example_collector_ok [of 5] ex(1), of "\<lambda>_ _. (1, 0)"] unfolding r by (elim exE conjE) (rule that)
  with lt ex(2) v show ?thesis by (intro exI [of _ c']) (simp add: race_def)
qed

text \<open>
  Property C28. Copying the strategies to the driver's table ends with the server's table, and after
  every store of eight bytes the table is the new one up to there and the old one from there, so
  that the driver never reads a credit of neither table.
\<close>

theorem copy_strategies_exact:
  assumes "length (resp_credit (cl_strategies local)) = COUNTER_TOTAL" "length (strag_credit s) = COUNTER_TOTAL"
  shows "copy_strategies local s = Some (s\<lparr>strag_credit := resp_credit (cl_strategies local)\<rparr>) \<and>
    (\<forall>n \<le> sizeof_strategies div 8. for_loop 0 n (copy_word (resp_credit (cl_strategies local))) (strag_credit s) =
       Some (take (4 * n) (resp_credit (cl_strategies local)) @ drop (4 * n) (strag_credit s)))"
proof -
  have t: "4 * (sizeof_strategies div 8) = COUNTER_TOTAL" by (simp add: sizeof_strategies_def layout_consts)
  show ?thesis
    using assms copy_words_ok [of "resp_credit (cl_strategies local)" "strag_credit s"] t
    by (auto simp: copy_strategies_def)
qed

theorem copy_strategies_exact_witness:
  "copy_strategies (example_layout 1) zero_region = Some (zero_region\<lparr>strag_credit := replicate COUNTER_TOTAL 1\<rparr>)"
  using copy_strategies_exact [of "example_layout 1" zero_region] by (simp add: example_layout_def zero_region_def)

text \<open>
  Property C33. The writes of up to 16 client agents stay in the server's memory, each in the part of
  its own machine and all disjoint; they hit the fields of \<open>server_layout\<close> they are meant for. A
  message unit lies within one cache line of 64 bytes only for every eighth machine.
\<close>

theorem agent_layout:
  assumes "i < MAX_MACHINE_NUM" "j < MAX_MACHINE_NUM" "i \<noteq> j" "u < 2 * MESG_UNIT_NUM"
  shows "bytes (mesg_offset i) mesg_bytes \<union> bytes (phase_offset i) 8 =
      bytes (sizeof_resp + i * sizeof_machine_unit) sizeof_machine_unit \<and>
    bytes (mesg_offset i) mesg_bytes \<inter> bytes (phase_offset i) 8 = {} \<and>
    bytes (sizeof_resp + i * sizeof_machine_unit) sizeof_machine_unit \<inter>
      bytes (sizeof_resp + j * sizeof_machine_unit) sizeof_machine_unit = {} \<and>
    bytes (sizeof_resp + i * sizeof_machine_unit) sizeof_machine_unit \<inter> bytes consensus_offset 8 = {} \<and>
    bytes (sizeof_resp + i * sizeof_machine_unit) sizeof_machine_unit \<subseteq> bytes sizeof_resp (sizeof_server_layout - sizeof_resp) \<and>
    ((local_offset + mesg_offset i + u * sizeof_mesg_unit) div 64 =
      (local_offset + mesg_offset i + u * sizeof_mesg_unit + sizeof_mesg_unit - 1) div 64 \<longleftrightarrow> i mod 8 = 7)"
proof -
  have m: "mesg_offset i = 16392 + 149896 * i" "phase_offset i = 16392 + 149896 * i + 149888"
    by (simp_all add: mesg_offset_def phase_offset_def layout_sizes)
  have lt: "i \<le> 15" "j \<le> 15" using assms(1,2) by (simp_all add: layout_sizes)
  then have le: "16392 + i * 149896 + 149896 \<le> 2414728" using mult_le_mono1 [OF lt(1), of 149896] by simp
  have "i + 1 \<le> j \<or> j + 1 \<le> i" using assms(3) by auto
  then have d: "16392 + i * 149896 + 149896 \<le> 16392 + j * 149896 \<or> 16392 + j * 149896 + 149896 \<le> 16392 + i * 149896"
    using mult_le_mono1 [of "i + 1" j 149896] mult_le_mono1 [of "j + 1" i 149896] by auto
  have un: "bytes (mesg_offset i) mesg_bytes \<union> bytes (phase_offset i) 8 = bytes (16392 + i * 149896) 149896"
    using bytes_Un [of "16392 + i * 149896" 149888 8] by (simp add: m layout_sizes mult.commute)
  show ?thesis unfolding un layout_sizes(1,2)
  proof (intro conjI)
    show "bytes (mesg_offset i) mesg_bytes \<inter> bytes (phase_offset i) 8 = {}"
      unfolding m layout_sizes by (rule bytes_disj) simp
    show "bytes (16392 + i * 149896) 149896 \<inter> bytes (16392 + j * 149896) 149896 = {}" using d bytes_disj by blast
    show "bytes (16392 + i * 149896) 149896 \<inter> bytes consensus_offset 8 = {}"
      unfolding layout_sizes using le by (intro bytes_disj) simp
    show "bytes (16392 + i * 149896) 149896 \<subseteq> bytes 16392 (sizeof_server_layout - 16392)"
      unfolding layout_sizes using le by (intro bytes_subset) simp_all
    show "((local_offset + mesg_offset i + u * sizeof_mesg_unit) div 64 =
      (local_offset + mesg_offset i + u * sizeof_mesg_unit + sizeof_mesg_unit - 1) div 64) = (i mod 8 = 7)"
      unfolding m layout_sizes in_one_line by (rule mesg_line)
  qed simp
qed

theorem agent_layout_witness:
  "bytes (sizeof_resp + 0 * sizeof_machine_unit) sizeof_machine_unit \<inter>
     bytes (sizeof_resp + 15 * sizeof_machine_unit) sizeof_machine_unit = {}"
proof -
  have "0 < MAX_MACHINE_NUM" "15 < MAX_MACHINE_NUM" "(0::nat) \<noteq> 15" "0 < 2 * MESG_UNIT_NUM"
    by (simp_all add: MAX_MACHINE_NUM_def layout_consts)
  from agent_layout [OF this] show ?thesis by (elim conjE)
qed

text \<open>
  When \<open>ibv_poll_cq\<close> answers with at most the number of completions asked for,
  \<open>poll_n\<close> returns exactly \<open>n\<close> or not at all; it returns when no completion is bad
  and completions keep arriving.
\<close>

lemma poll_n_exact:
  assumes "\<And>k m. fst (poll k m) \<le> int m"
  shows "(\<forall>r. poll_n poll n = Some r \<longrightarrow> r = n) \<and>
    ((\<forall>k m. snd (poll k m) = 0) \<and> (\<forall>k. \<exists>k' \<ge> k. \<forall>m > 0. fst (poll k' m) > 0) \<longrightarrow> poll_n poll n = Some n)"
  using poll_loop_sound [of poll n 0 0] poll_loop_total [of poll 0 n 0] assms by (auto simp: poll_n_def)

end
