(* ===== verification/Agent_Scan.thy ===== *)
theory Agent_Scan
  imports Agent_Client
begin

text \<open>
  The scan of \<open>server_func\<close> (\<^verbatim>\<open>providers/mlx5/fusioncas/agent/agent.cpp\<close>): the server agent
  waits for the messages of all machines and adds up their counters, by entry of the table, by slot,
  by machine and in total. The writes of the clients between two passes of the scan are a parameter.
\<close>

section \<open>The scan\<close>

record scan =
  sc_machine_arr :: "machine_unit list"
  sc_counters :: "u64 list"
  sc_c_counters :: "u64 list"
  sc_real :: "u64 list"
  sc_c_real :: "u64 list"
  sc_scanned :: "bool list"
  sc_uniform :: "bool list"
  sc_req :: "u64 list"
  sc_onload :: "u64 list"
  sc_max :: "u64 list"
  sc_tmp :: u64
  sc_cnt :: nat
  sc_rnic :: u64
  sc_cpu :: u64

text \<open>
  The largest request count of a slot, with the sum of the counters since the last multiple of
  \<open>__SLOT_GRANULARITY\<close>.
\<close>

definition slot_step :: "nat \<Rightarrow> u64 \<Rightarrow> u64 \<times> u64 \<Rightarrow> u64 \<times> u64" where
  "slot_step j v = (\<lambda>(mx, tmp). let tmp = tmp + v in
     if j \<noteq> 0 \<and> j mod SLOT_GRANULARITY = 0 then (if tmp > mx then tmp else mx, 0) else (mx, tmp))"

definition scan_counter :: "nat \<Rightarrow> nat \<Rightarrow> scan \<Rightarrow> scan option" where
  "scan_counter i j s = do {
     m \<leftarrow> arr_get (sc_machine_arr s) i;
     v \<leftarrow> mesg_get (mc_mesg_arr m) j;
     c \<leftarrow> mesg_get (mc_c_mesg_arr m) j;
     req \<leftarrow> arr_upd (sc_req s) i (\<lambda>x. x + v);
     onload \<leftarrow> arr_upd (sc_onload s) i (\<lambda>x. x + c);
     mx \<leftarrow> arr_get (sc_max s) i;
     ms \<leftarrow> mesg_mark (mc_mesg_arr m) j 0;
     cs \<leftarrow> arr_upd (sc_counters s) j (\<lambda>x. if sc_cnt s = 0 then v else x + v);
     ccs \<leftarrow> arr_upd (sc_c_counters s) j (\<lambda>x. if sc_cnt s = 0 then c else x + c);
     re \<leftarrow> arr_upd (sc_real s) (j mod MAX_COUNTER_NUM) (\<lambda>x. x + v);
     cre \<leftarrow> arr_upd (sc_c_real s) (j mod MAX_COUNTER_NUM) (\<lambda>x. x + c);
     Some (s\<lparr>sc_machine_arr := (sc_machine_arr s)[i := m\<lparr>mc_mesg_arr := ms\<rparr>],
       sc_counters := cs, sc_c_counters := ccs, sc_real := re, sc_c_real := cre, sc_req := req, sc_onload := onload,
       sc_max := (sc_max s)[i := fst (slot_step j v (mx, sc_tmp s))], sc_tmp := snd (slot_step j v (mx, sc_tmp s)),
       sc_rnic := sc_rnic s + v, sc_cpu := sc_cpu s + c\<rparr>)
   }"

text \<open>The loop that makes sure that all records of a machine are scanned.\<close>

function scan_records :: "nat \<Rightarrow> nat \<Rightarrow> scan \<Rightarrow> scan option" where
  "scan_records i record_cnt s =
     (if record_cnt < COUNTER_TOTAL then do {
        s \<leftarrow> for_loop 0 COUNTER_TOTAL (scan_counter i) (s\<lparr>sc_tmp := 0\<rparr>);
        scan_records i (record_cnt + COUNTER_TOTAL) s
      }
      else Some s)"
  by pat_completeness auto
termination
  by (relation "measure (\<lambda>(i, record_cnt, s). COUNTER_TOTAL - record_cnt)") auto

declare scan_records.simps [simp del]

definition clear_real :: "nat \<Rightarrow> scan \<Rightarrow> scan option" where
  "clear_real k s = do {
     re \<leftarrow> arr_set (sc_real s) k 0;
     cre \<leftarrow> arr_set (sc_c_real s) k 0;
     Some (s\<lparr>sc_real := re, sc_c_real := cre\<rparr>)
   }"

definition scan_machine :: "u64 \<Rightarrow> nat \<Rightarrow> scan \<Rightarrow> scan option" where
  "scan_machine phase i s = do {
     m \<leftarrow> arr_get (sc_machine_arr s) i;
     scanned \<leftarrow> arr_get (sc_scanned s) i;
     if mc_phase m = phase \<and> \<not> scanned then do {
       sd \<leftarrow> arr_set (sc_scanned s) i True;
       un \<leftarrow> arr_set (sc_uniform s) i True;
       rq \<leftarrow> arr_set (sc_req s) i 0;
       ol \<leftarrow> arr_set (sc_onload s) i 0;
       mx \<leftarrow> arr_set (sc_max s) i 0;
       let s = s\<lparr>sc_scanned := sd, sc_uniform := un, sc_req := rq, sc_onload := ol, sc_max := mx\<rparr>;
       s \<leftarrow> (if sc_cnt s = 0 then for_loop 0 MAX_COUNTER_NUM clear_real s else Some s);
       s \<leftarrow> scan_records i 0 s;
       Some (s\<lparr>sc_cnt := sc_cnt s + 1\<rparr>)
     }
     else Some s
   }"

definition scan_pass :: "nat \<Rightarrow> u64 \<Rightarrow> scan \<Rightarrow> scan option" where
  "scan_pass nr_machine phase s = for_loop 0 nr_machine (scan_machine phase) s"

text \<open>
  The passes until all machines are scanned. Before each pass the clients may have written their
  parts of \<open>machine_arr\<close>, which is one element of the list; \<open>None\<close> when the passes given are not enough.
\<close>

fun scan_loop :: "nat \<Rightarrow> u64 \<Rightarrow> (machine_unit list \<Rightarrow> machine_unit list) list \<Rightarrow> scan \<Rightarrow> scan option" where
  "scan_loop nr_machine phase [] s = None"
| "scan_loop nr_machine phase (w # ws) s = do {
     s \<leftarrow> scan_pass nr_machine phase (s\<lparr>sc_machine_arr := w (sc_machine_arr s)\<rparr>);
     if sc_cnt s = nr_machine then Some s else scan_loop nr_machine phase ws s
   }"

section \<open>The state of the scan\<close>

text \<open>The arrays have the lengths of the C types, and there is room for \<open>nr\<close> machines.\<close>

definition scan_ok :: "nat \<Rightarrow> scan \<Rightarrow> bool" where
  "scan_ok nr s \<longleftrightarrow> nr \<le> length (sc_machine_arr s) \<and>
     (\<forall>m \<in> set (sc_machine_arr s). mesg_ok (mc_mesg_arr m) \<and> mesg_ok (mc_c_mesg_arr m)) \<and>
     length (sc_counters s) = COUNTER_TOTAL \<and> length (sc_c_counters s) = COUNTER_TOTAL \<and>
     length (sc_real s) = MAX_COUNTER_NUM \<and> length (sc_c_real s) = MAX_COUNTER_NUM \<and>
     length (sc_scanned s) = nr \<and> length (sc_uniform s) = nr \<and>
     length (sc_req s) = nr \<and> length (sc_onload s) = nr \<and> length (sc_max s) = nr"

text \<open>The counts of operations on the card or on the CPU: received, per entry, slot and machine, in total.\<close>

definition mdat :: "machine_unit list \<Rightarrow> bool \<Rightarrow> nat \<Rightarrow> nat \<Rightarrow> u64" where
  "mdat ms cpu i j = msg ((if cpu then mc_c_mesg_arr else mc_mesg_arr) (ms ! i)) j"

definition scnt :: "scan \<Rightarrow> bool \<Rightarrow> nat \<Rightarrow> u64" where
  "scnt s cpu k = (if cpu then sc_c_counters else sc_counters) s ! k"

definition sreal :: "scan \<Rightarrow> bool \<Rightarrow> nat \<Rightarrow> u64" where
  "sreal s cpu k = (if cpu then sc_c_real else sc_real) s ! k"

definition smach :: "scan \<Rightarrow> bool \<Rightarrow> nat \<Rightarrow> u64" where
  "smach s cpu i = (if cpu then sc_onload else sc_req) s ! i"

definition stot :: "scan \<Rightarrow> bool \<Rightarrow> u64" where
  "stot s cpu = (if cpu then sc_cpu else sc_rnic) s"

text \<open>What the scan of counters leaves alone.\<close>

definition scan_frame :: "scan \<Rightarrow> scan \<Rightarrow> bool" where
  "scan_frame s' s \<longleftrightarrow> mdat (sc_machine_arr s') = mdat (sc_machine_arr s) \<and>
     map mc_phase (sc_machine_arr s') = map mc_phase (sc_machine_arr s) \<and>
     sc_scanned s' = sc_scanned s \<and> sc_uniform s' = sc_uniform s \<and> sc_cnt s' = sc_cnt s"

lemma scan_frame_trans: "scan_frame a b \<Longrightarrow> scan_frame b c \<Longrightarrow> scan_frame a c"
  by (simp add: scan_frame_def)

lemma scan_okD:
  assumes "scan_ok nr s" "i < nr"
  shows "i < length (sc_machine_arr s)" "mesg_ok (mc_mesg_arr (sc_machine_arr s ! i))"
    "mesg_ok (mc_c_mesg_arr (sc_machine_arr s ! i))"
    "i < length (sc_req s)" "i < length (sc_onload s)" "i < length (sc_max s)"
    "i < length (sc_scanned s)" "i < length (sc_uniform s)"
  using assms by (simp_all add: scan_ok_def)

lemma scan_ok_lengths:
  assumes "scan_ok nr s"
  shows "length (sc_counters s) = COUNTER_TOTAL" "length (sc_c_counters s) = COUNTER_TOTAL"
    "length (sc_real s) = MAX_COUNTER_NUM" "length (sc_c_real s) = MAX_COUNTER_NUM"
  using assms by (simp_all add: scan_ok_def)

section \<open>One counter\<close>

lemma scan_counter_ok:
  assumes "scan_ok nr s" "i < nr" "j < COUNTER_TOTAL"
  defines "v \<equiv> \<lambda>cpu. mdat (sc_machine_arr s) cpu i j"
  shows "\<exists>s'. scan_counter i j s = Some s' \<and> scan_ok nr s' \<and> scan_frame s' s \<and>
    (\<forall>cpu k. scnt s' cpu k = (if k = j then (if sc_cnt s = 0 then 0 else scnt s cpu j) + v cpu else scnt s cpu k)) \<and>
    (\<forall>cpu k. sreal s' cpu k = sreal s cpu k + (if k = j mod MAX_COUNTER_NUM then v cpu else 0)) \<and>
    (\<forall>cpu i'. smach s' cpu i' = smach s cpu i' + (if i' = i then v cpu else 0)) \<and>
    (\<forall>cpu. stot s' cpu = stot s cpu + v cpu) \<and>
    (sc_max s' ! i, sc_tmp s') = slot_step j (v False) (sc_max s ! i, sc_tmp s) \<and>
    (\<forall>i'. i' \<noteq> i \<longrightarrow> sc_max s' ! i' = sc_max s ! i')"
proof -
  note D = scan_okD [OF assms(1,2)] and L = scan_ok_lengths [OF assms(1)]
  let ?m = "sc_machine_arr s ! i" and ?jm = "j mod MAX_COUNTER_NUM"
  have v: "v False = msg (mc_mesg_arr ?m) j" "v True = msg (mc_c_mesg_arr ?m) j" by (simp_all add: v_def mdat_def)
  have g: "mesg_get (mc_mesg_arr ?m) j = Some (v False)" "mesg_get (mc_c_mesg_arr ?m) j = Some (v True)"
    unfolding v by (rule mesg_get_ok [OF D(2) assms(3)], rule mesg_get_ok [OF D(3) assms(3)])
  obtain ms where ms: "mesg_mark (mc_mesg_arr ?m) j 0 = Some ms" "mesg_ok ms" "msg ms = msg (mc_mesg_arr ?m)"
    using mesg_mark_ok [OF D(2) assms(3)] by blast
  have jm: "?jm < MAX_COUNTER_NUM" by (simp add: MAX_COUNTER_NUM_def)
  let ?st = "slot_step j (v False) (sc_max s ! i, sc_tmp s)"
  let ?ma = "(sc_machine_arr s)[i := ?m\<lparr>mc_mesg_arr := ms\<rparr>]"
  let ?s = "s\<lparr>sc_machine_arr := ?ma,
       sc_counters := (sc_counters s)[j := if sc_cnt s = 0 then v False else sc_counters s ! j + v False],
       sc_c_counters := (sc_c_counters s)[j := if sc_cnt s = 0 then v True else sc_c_counters s ! j + v True],
       sc_real := (sc_real s)[?jm := sc_real s ! ?jm + v False], sc_c_real := (sc_c_real s)[?jm := sc_c_real s ! ?jm + v True],
       sc_req := (sc_req s)[i := sc_req s ! i + v False], sc_onload := (sc_onload s)[i := sc_onload s ! i + v True],
       sc_max := (sc_max s)[i := fst ?st], sc_tmp := snd ?st, sc_rnic := sc_rnic s + v False, sc_cpu := sc_cpu s + v True\<rparr>"
  have "scan_counter i j s = Some ?s"
    using D(1,4,5,6) L assms(3) jm g ms(1) by (simp add: scan_counter_def c_access)
  moreover have "scan_ok nr ?s"
    using assms(1) ms(2) D(3) unfolding scan_ok_def by (auto dest!: subsetD [OF set_update_subset_insert])
  moreover have "mdat ?ma = mdat (sc_machine_arr s)"
    using D(1) ms(3) by (auto simp: mdat_def fun_eq_iff nth_list_update)
  then have "scan_frame ?s s"
    using D(1) by (simp add: scan_frame_def map_update) (simp add: map_update [symmetric])
  moreover have "scnt ?s cpu k = (if k = j then (if sc_cnt s = 0 then 0 else scnt s cpu j) + v cpu else scnt s cpu k)" for cpu k
    using L assms(3) by (cases cpu) (simp_all add: scnt_def nth_list_update)
  moreover have "sreal ?s cpu k = sreal s cpu k + (if k = ?jm then v cpu else 0)" for cpu k
    using L jm by (cases cpu) (simp_all add: sreal_def nth_list_update)
  moreover have "smach ?s cpu i' = smach s cpu i' + (if i' = i then v cpu else 0)" for cpu i'
    using D by (cases cpu) (simp_all add: smach_def nth_list_update)
  moreover have "stot ?s cpu = stot s cpu + v cpu" for cpu by (cases cpu) (simp_all add: stot_def)
  moreover have "(sc_max ?s ! i, sc_tmp ?s) = ?st" "\<forall>i'. i' \<noteq> i \<longrightarrow> sc_max ?s ! i' = sc_max s ! i'"
    using D(6) by (simp_all add: nth_list_update)
  ultimately show ?thesis by blast
qed

section \<open>One machine\<close>

primrec slot_fold :: "(nat \<Rightarrow> u64) \<Rightarrow> nat \<Rightarrow> u64 \<times> u64 \<Rightarrow> u64 \<times> u64" where
  "slot_fold f 0 p = p"
| "slot_fold f (Suc j) p = slot_step j (f j) (slot_fold f j p)"

text \<open>The counts of a slot among the first \<open>n\<close> counters.\<close>

definition slot_sum :: "(nat \<Rightarrow> u64) \<Rightarrow> nat \<Rightarrow> nat \<Rightarrow> u64" where
  "slot_sum f n k = (\<Sum>j < n. if k = j mod MAX_COUNTER_NUM then f j else 0)"

lemma slot_sum_Suc: "slot_sum f (Suc n) k = slot_sum f n k + (if k = n mod MAX_COUNTER_NUM then f n else 0)"
  by (simp add: slot_sum_def)

text \<open>The counts that \<open>s'\<close> has more than \<open>s\<close> after the first \<open>n\<close> counters of machine \<open>i\<close>.\<close>

definition added :: "nat \<Rightarrow> nat \<Rightarrow> (bool \<Rightarrow> nat \<Rightarrow> u64) \<Rightarrow> scan \<Rightarrow> scan \<Rightarrow> bool" where
  "added i n v s s' \<longleftrightarrow>
     (\<forall>cpu k. scnt s' cpu k = (if k < n then (if sc_cnt s = 0 then 0 else scnt s cpu k) + v cpu k else scnt s cpu k)) \<and>
     (\<forall>cpu k. sreal s' cpu k = sreal s cpu k + slot_sum (v cpu) n k) \<and>
     (\<forall>cpu i'. smach s' cpu i' = smach s cpu i' + (if i' = i then \<Sum>j < n. v cpu j else 0)) \<and>
     (\<forall>cpu. stot s' cpu = stot s cpu + (\<Sum>j < n. v cpu j)) \<and>
     (sc_max s' ! i, sc_tmp s') = slot_fold (v False) n (sc_max s ! i, sc_tmp s) \<and>
     (\<forall>i'. i' \<noteq> i \<longrightarrow> sc_max s' ! i' = sc_max s ! i')"

lemma scan_counters_step:
  assumes "scan_ok nr s1" "i < nr" "j < COUNTER_TOTAL" "scan_frame s1 s" "added i j (\<lambda>cpu. mdat (sc_machine_arr s) cpu i) s s1"
  shows "\<exists>s2. scan_counter i j s1 = Some s2 \<and> scan_ok nr s2 \<and> scan_frame s2 s \<and>
    added i (Suc j) (\<lambda>cpu. mdat (sc_machine_arr s) cpu i) s s2"
proof -
  let ?v = "\<lambda>cpu. mdat (sc_machine_arr s) cpu i"
  have m: "mdat (sc_machine_arr s1) = mdat (sc_machine_arr s)" "sc_cnt s1 = sc_cnt s"
    using assms(4) by (simp_all add: scan_frame_def)
  obtain s2 where s2: "scan_counter i j s1 = Some s2" "scan_ok nr s2" "scan_frame s2 s1"
    "\<And>cpu k. scnt s2 cpu k = (if k = j then (if sc_cnt s = 0 then 0 else scnt s1 cpu j) + ?v cpu j else scnt s1 cpu k)"
    "\<And>cpu k. sreal s2 cpu k = sreal s1 cpu k + (if k = j mod MAX_COUNTER_NUM then ?v cpu j else 0)"
    "\<And>cpu i'. smach s2 cpu i' = smach s1 cpu i' + (if i' = i then ?v cpu j else 0)"
    "\<And>cpu. stot s2 cpu = stot s1 cpu + ?v cpu j"
    "(sc_max s2 ! i, sc_tmp s2) = slot_step j (?v False j) (sc_max s1 ! i, sc_tmp s1)"
    "\<And>i'. i' \<noteq> i \<Longrightarrow> sc_max s2 ! i' = sc_max s1 ! i'"
    using scan_counter_ok [OF assms(1-3)] unfolding m by blast
  have A: "\<And>cpu k. scnt s1 cpu k = (if k < j then (if sc_cnt s = 0 then 0 else scnt s cpu k) + ?v cpu k else scnt s cpu k)"
    "\<And>cpu k. sreal s1 cpu k = sreal s cpu k + slot_sum (?v cpu) j k"
    "\<And>cpu i'. smach s1 cpu i' = smach s cpu i' + (if i' = i then \<Sum>j < j. ?v cpu j else 0)"
    "\<And>cpu. stot s1 cpu = stot s cpu + (\<Sum>j < j. ?v cpu j)"
    "(sc_max s1 ! i, sc_tmp s1) = slot_fold (?v False) j (sc_max s ! i, sc_tmp s)"
    "\<And>i'. i' \<noteq> i \<Longrightarrow> sc_max s1 ! i' = sc_max s ! i'"
    using assms(5) by (simp_all add: added_def)
  have "added i (Suc j) ?v s s2"
    unfolding added_def s2(4-8) A slot_fold.simps s2(9) by (auto simp: slot_sum_Suc less_Suc_eq s2(9) A(6))
  with s2(1,2) scan_frame_trans [OF s2(3) assms(4)] show ?thesis by blast
qed

lemma scan_counters_ok:
  assumes "scan_ok nr s" "i < nr"
  shows "\<exists>s'. for_loop 0 COUNTER_TOTAL (scan_counter i) s = Some s' \<and> scan_ok nr s' \<and> scan_frame s' s \<and>
    added i COUNTER_TOTAL (\<lambda>cpu. mdat (sc_machine_arr s) cpu i) s s'"
proof (rule for_loop_inv [where I = "\<lambda>j s'. scan_ok nr s' \<and> scan_frame s' s \<and>
    added i j (\<lambda>cpu. mdat (sc_machine_arr s) cpu i) s s'"], goal_cases)
  case (3 j s1)
  then show ?case using scan_counters_step [of nr s1 i j s] assms(2) by blast
qed (use assms in \<open>simp_all add: scan_frame_def added_def slot_sum_def\<close>)

lemma scan_records_eq: "scan_records i 0 s = for_loop 0 COUNTER_TOTAL (scan_counter i) (s\<lparr>sc_tmp := 0\<rparr>)"
proof -
  have "0 < COUNTER_TOTAL" by (simp add: layout_consts)
  moreover have "scan_records i (0 + COUNTER_TOTAL) s' = Some s'" for s' by (simp add: scan_records.simps)
  ultimately show ?thesis
    unfolding scan_records.simps [of i 0 s]
    by (cases "for_loop 0 COUNTER_TOTAL (scan_counter i) (s\<lparr>sc_tmp := 0\<rparr>)") simp_all
qed

lemma clear_real_ok:
  assumes "scan_ok nr s"
  shows "for_loop 0 MAX_COUNTER_NUM clear_real s =
    Some (s\<lparr>sc_real := replicate MAX_COUNTER_NUM 0, sc_c_real := replicate MAX_COUNTER_NUM 0\<rparr>)"
proof -
  let ?f = "\<lambda>n xs. replicate n 0 @ drop n xs :: u64 list"
  note L = scan_ok_lengths [OF assms]
  have step: "(?f n xs)[n := 0] = ?f (Suc n) xs" if "n < length xs" for n xs
    using that by (simp add: list_update_append Cons_nth_drop_Suc [symmetric] replicate_append_same)
  have "\<exists>s'. for_loop 0 MAX_COUNTER_NUM clear_real s = Some s' \<and>
    s' = s\<lparr>sc_real := ?f MAX_COUNTER_NUM (sc_real s), sc_c_real := ?f MAX_COUNTER_NUM (sc_c_real s)\<rparr>"
  proof (rule for_loop_inv [where I = "\<lambda>n s'. s' = s\<lparr>sc_real := ?f n (sc_real s), sc_c_real := ?f n (sc_c_real s)\<rparr>"], goal_cases)
    case (3 n s1)
    then show ?case using L step [of n "sc_real s"] step [of n "sc_c_real s"] by (simp add: clear_real_def arr_upd_def)
  qed simp_all
  with L show ?thesis by simp
qed

text \<open>A machine whose message is there and has not been scanned.\<close>

lemma scan_machine_ok:
  assumes "scan_ok nr s" "i < nr" "mc_phase (sc_machine_arr s ! i) = phase" "\<not> sc_scanned s ! i"
  defines "v \<equiv> \<lambda>cpu. mdat (sc_machine_arr s) cpu i"
  shows "\<exists>s'. scan_machine phase i s = Some s' \<and> scan_ok nr s' \<and> mdat (sc_machine_arr s') = mdat (sc_machine_arr s) \<and>
    map mc_phase (sc_machine_arr s') = map mc_phase (sc_machine_arr s) \<and>
    sc_scanned s' = (sc_scanned s)[i := True] \<and> sc_uniform s' = (sc_uniform s)[i := True] \<and> sc_cnt s' = sc_cnt s + 1 \<and>
    (\<forall>cpu. \<forall>k < COUNTER_TOTAL. scnt s' cpu k = (if sc_cnt s = 0 then 0 else scnt s cpu k) + v cpu k) \<and>
    (\<forall>cpu. \<forall>k < MAX_COUNTER_NUM. sreal s' cpu k = (if sc_cnt s = 0 then 0 else sreal s cpu k) + slot_sum (v cpu) COUNTER_TOTAL k) \<and>
    (\<forall>cpu i'. smach s' cpu i' = (if i' = i then \<Sum>j < COUNTER_TOTAL. v cpu j else smach s cpu i')) \<and>
    (\<forall>cpu. stot s' cpu = stot s cpu + (\<Sum>j < COUNTER_TOTAL. v cpu j)) \<and>
    (\<forall>i'. sc_max s' ! i' = (if i' = i then fst (slot_fold (v False) COUNTER_TOTAL (0, 0)) else sc_max s ! i'))"
proof -
  note D = scan_okD [OF assms(1,2)] and L = scan_ok_lengths [OF assms(1)]
  let ?s1 = "s\<lparr>sc_scanned := (sc_scanned s)[i := True], sc_uniform := (sc_uniform s)[i := True], sc_req := (sc_req s)[i := 0],
    sc_onload := (sc_onload s)[i := 0], sc_max := (sc_max s)[i := 0]\<rparr>"
  let ?s2 = "if sc_cnt s = 0 then ?s1\<lparr>sc_real := replicate MAX_COUNTER_NUM 0, sc_c_real := replicate MAX_COUNTER_NUM 0\<rparr> else ?s1"
  let ?s3 = "?s2\<lparr>sc_tmp := 0\<rparr>"
  have ok1: "scan_ok nr ?s1" using assms(1) by (simp add: scan_ok_def)
  have cl: "(if sc_cnt ?s1 = 0 then for_loop 0 MAX_COUNTER_NUM clear_real ?s1 else Some ?s1) = Some ?s2"
    using clear_real_ok [OF ok1] by simp
  have ok3: "scan_ok nr ?s3" using assms(1) by (simp add: scan_ok_def)
  obtain s4 where s4: "for_loop 0 COUNTER_TOTAL (scan_counter i) ?s3 = Some s4" "scan_ok nr s4" "scan_frame s4 ?s3"
    "added i COUNTER_TOTAL (\<lambda>cpu. mdat (sc_machine_arr ?s3) cpu i) ?s3 s4"
    using scan_counters_ok [OF ok3 assms(2)] by blast
  have ma: "sc_machine_arr ?s3 = sc_machine_arr s" "sc_cnt ?s3 = sc_cnt s" "sc_tmp ?s3 = 0" "sc_max ?s3 = (sc_max s)[i := 0]"
    "sc_scanned ?s3 = (sc_scanned s)[i := True]" "sc_uniform ?s3 = (sc_uniform s)[i := True]" by simp_all
  have vw: "scnt ?s3 cpu k = scnt s cpu k" "stot ?s3 cpu = stot s cpu" for cpu k
    by (cases cpu, simp_all add: scnt_def stot_def)+
  have vr: "k < MAX_COUNTER_NUM \<Longrightarrow> sreal ?s3 cpu k = (if sc_cnt s = 0 then 0 else sreal s cpu k)" for cpu k
    by (cases cpu) (simp_all add: sreal_def)
  have vm: "smach ?s3 cpu i' = (if i' = i then 0 else smach s cpu i')" for cpu i'
    using D by (cases cpu) (simp_all add: smach_def nth_list_update)
  have v: "mdat (sc_machine_arr s) cpu i = v cpu" for cpu by (simp add: v_def)
  note A = s4(4) [unfolded added_def ma vw vm v]
  have mx: "sc_max s4 ! i = fst (slot_fold (v False) COUNTER_TOTAL (0, 0))" "i' \<noteq> i \<Longrightarrow> sc_max s4 ! i' = sc_max s ! i'" for i'
    using A D(6) by (simp_all add: prod_eq_iff)
  let ?s' = "s4\<lparr>sc_cnt := sc_cnt s4 + 1\<rparr>"
  have "scan_machine phase i s = Some ?s'"
    using D assms(3,4) cl s4(1) by (simp add: scan_machine_def c_access scan_records_eq Let_def del: if_split)
  moreover have "scan_ok nr ?s'" using s4(2) by (simp add: scan_ok_def)
  moreover have "sc_max ?s' ! i' = (if i' = i then fst (slot_fold (v False) COUNTER_TOTAL (0, 0)) else sc_max s ! i')" for i'
    using mx by simp
  moreover have "scnt ?s' cpu = scnt s4 cpu" "sreal ?s' cpu = sreal s4 cpu" "smach ?s' cpu = smach s4 cpu" "stot ?s' cpu = stot s4 cpu" for cpu
    by (cases cpu, simp_all add: scnt_def sreal_def smach_def stot_def fun_eq_iff)+
  ultimately show ?thesis
    by (intro exI [of _ ?s'] conjI) (use A s4(3) ma vr in \<open>simp_all add: scan_frame_def\<close>)
qed

section \<open>All machines\<close>

definition scanned_set :: "nat \<Rightarrow> scan \<Rightarrow> nat set" where
  "scanned_set nr s = {i. i < nr \<and> sc_scanned s ! i}"

text \<open>The sums over a set of machines of the counts \<open>pub\<close> that they publish.\<close>

definition scan_sums :: "nat set \<Rightarrow> (bool \<Rightarrow> nat \<Rightarrow> nat \<Rightarrow> u64) \<Rightarrow> scan \<Rightarrow> bool" where
  "scan_sums S pub s \<longleftrightarrow>
     (\<forall>cpu. \<forall>k < COUNTER_TOTAL. scnt s cpu k = (\<Sum>i \<in> S. pub cpu i k)) \<and>
     (\<forall>cpu. \<forall>k < MAX_COUNTER_NUM. sreal s cpu k = (\<Sum>i \<in> S. slot_sum (pub cpu i) COUNTER_TOTAL k))"

definition scan_inv :: "nat \<Rightarrow> (bool \<Rightarrow> nat \<Rightarrow> nat \<Rightarrow> u64) \<Rightarrow> scan \<Rightarrow> bool" where
  "scan_inv nr pub s \<longleftrightarrow> scan_ok nr s \<and> sc_cnt s = card (scanned_set nr s) \<and>
     (scanned_set nr s \<noteq> {} \<longrightarrow> scan_sums (scanned_set nr s) pub s) \<and>
     (\<forall>cpu. stot s cpu = (\<Sum>i \<in> scanned_set nr s. \<Sum>j < COUNTER_TOTAL. pub cpu i j)) \<and>
     (\<forall>i \<in> scanned_set nr s. sc_uniform s ! i \<and> (\<forall>cpu. smach s cpu i = (\<Sum>j < COUNTER_TOTAL. pub cpu i j)) \<and>
        sc_max s ! i = fst (slot_fold (pub False i) COUNTER_TOTAL (0, 0)))"

text \<open>A message is complete when its phase is the current one.\<close>

definition published :: "nat \<Rightarrow> u64 \<Rightarrow> (bool \<Rightarrow> nat \<Rightarrow> nat \<Rightarrow> u64) \<Rightarrow> machine_unit list \<Rightarrow> bool" where
  "published nr phase pub ms \<longleftrightarrow>
     (\<forall>i < nr. mc_phase (ms ! i) = phase \<longrightarrow> (\<forall>cpu. \<forall>j < COUNTER_TOTAL. mdat ms cpu i j = pub cpu i j))"

lemma slot_fold_cong: "(\<And>j. j < n \<Longrightarrow> f j = g j) \<Longrightarrow> slot_fold f n p = slot_fold g n p"
  by (induction n) simp_all

lemma slot_sum_cong: "(\<And>j. j < n \<Longrightarrow> f j = g j) \<Longrightarrow> slot_sum f n k = slot_sum g n k"
  unfolding slot_sum_def by (rule sum.cong) auto

lemma finite_scanned [simp]: "finite (scanned_set nr s)"
  by (simp add: scanned_set_def)

lemma phase_cong: "map mc_phase ms' = map mc_phase ms \<Longrightarrow> i < length ms \<Longrightarrow> mc_phase (ms' ! i) = mc_phase (ms ! i)"
  by (metis length_map nth_map)

lemma scan_machine_inv:
  assumes inv: "scan_inv nr pub s" and i: "i < nr" and pub: "published nr phase pub (sc_machine_arr s)"
    and new: "mc_phase (sc_machine_arr s ! i) = phase" "\<not> sc_scanned s ! i"
  shows "\<exists>s'. scan_machine phase i s = Some s' \<and> scan_inv nr pub s' \<and> mdat (sc_machine_arr s') = mdat (sc_machine_arr s) \<and>
    map mc_phase (sc_machine_arr s') = map mc_phase (sc_machine_arr s) \<and>
    scanned_set nr s' = insert i (scanned_set nr s)"
proof -
  let ?S = "scanned_set nr s" and ?v = "\<lambda>cpu. mdat (sc_machine_arr s) cpu i"
  have ok: "scan_ok nr s" using inv by (simp add: scan_inv_def)
  have v: "?v cpu j = pub cpu i j" if "j < COUNTER_TOTAL" for cpu j using pub i new(1) that by (simp add: published_def)
  obtain s' where s': "scan_machine phase i s = Some s'" "scan_ok nr s'" "mdat (sc_machine_arr s') = mdat (sc_machine_arr s)"
    "map mc_phase (sc_machine_arr s') = map mc_phase (sc_machine_arr s)"
    "sc_scanned s' = (sc_scanned s)[i := True]" "sc_uniform s' = (sc_uniform s)[i := True]" "sc_cnt s' = sc_cnt s + 1"
    "\<And>cpu k. k < COUNTER_TOTAL \<Longrightarrow> scnt s' cpu k = (if sc_cnt s = 0 then 0 else scnt s cpu k) + ?v cpu k"
    "\<And>cpu k. k < MAX_COUNTER_NUM \<Longrightarrow> sreal s' cpu k = (if sc_cnt s = 0 then 0 else sreal s cpu k) + slot_sum (?v cpu) COUNTER_TOTAL k"
    "\<And>cpu i'. smach s' cpu i' = (if i' = i then \<Sum>j < COUNTER_TOTAL. ?v cpu j else smach s cpu i')"
    "\<And>cpu. stot s' cpu = stot s cpu + (\<Sum>j < COUNTER_TOTAL. ?v cpu j)"
    "\<And>i'. sc_max s' ! i' = (if i' = i then fst (slot_fold (?v False) COUNTER_TOTAL (0, 0)) else sc_max s ! i')"
    using scan_machine_ok [OF ok i new] by blast
  have S': "scanned_set nr s' = insert i ?S" and ni: "i \<notin> ?S"
    using i new(2) scan_okD(7) [OF ok i] by (auto simp: scanned_set_def s'(5) nth_list_update split: if_splits)
  have c0: "sc_cnt s = 0 \<longleftrightarrow> ?S = {}" using inv by (simp add: scan_inv_def)
  have sums: "(\<Sum>j < COUNTER_TOTAL. ?v cpu j) = (\<Sum>j < COUNTER_TOTAL. pub cpu i j)" for cpu using v by (intro sum.cong) auto
  have slots: "slot_sum (?v cpu) COUNTER_TOTAL k = slot_sum (pub cpu i) COUNTER_TOTAL k" for cpu k using v by (rule slot_sum_cong)
  have folds: "slot_fold (?v False) COUNTER_TOTAL (0, 0) = slot_fold (pub False i) COUNTER_TOTAL (0, 0)" using v by (rule slot_fold_cong)
  have "scan_sums (insert i ?S) pub s'"
    using inv c0 ni by (cases "?S = {}") (simp_all add: scan_sums_def scan_inv_def s'(8,9) v slots add.commute)
  moreover have "stot s' cpu = (\<Sum>i \<in> insert i ?S. \<Sum>j < COUNTER_TOTAL. pub cpu i j)" for cpu
    using inv ni by (simp add: scan_inv_def s'(11) sums add.commute)
  moreover have "sc_uniform s' ! i' \<and> (\<forall>cpu. smach s' cpu i' = (\<Sum>j < COUNTER_TOTAL. pub cpu i' j)) \<and>
      sc_max s' ! i' = fst (slot_fold (pub False i') COUNTER_TOTAL (0, 0))" if "i' \<in> insert i ?S" for i'
    using that inv ni scan_okD(8) [OF ok i] by (auto simp: scan_inv_def s'(6,10,12) sums folds nth_list_update)
  ultimately have "scan_inv nr pub s'"
    using s'(2,7) inv ni unfolding scan_inv_def S' by simp
  with s'(1,3,4) S' show ?thesis by blast
qed

text \<open>A pass scans exactly the machines whose message has arrived.\<close>

lemma scan_pass_ok:
  assumes inv: "scan_inv nr pub s" and pub: "published nr phase pub (sc_machine_arr s)"
  shows "\<exists>s'. scan_pass nr phase s = Some s' \<and> scan_inv nr pub s' \<and>
    scanned_set nr s' = scanned_set nr s \<union> {i. i < nr \<and> mc_phase (sc_machine_arr s ! i) = phase}"
proof -
  define I where "I = (\<lambda>n s'. scan_inv nr pub s' \<and> mdat (sc_machine_arr s') = mdat (sc_machine_arr s) \<and>
    map mc_phase (sc_machine_arr s') = map mc_phase (sc_machine_arr s) \<and>
    scanned_set nr s' = scanned_set nr s \<union> {i. i < n \<and> mc_phase (sc_machine_arr s ! i) = phase})"
  have len: "nr \<le> length (sc_machine_arr s)" using inv by (simp add: scan_inv_def scan_ok_def)
  have "\<exists>s'. for_loop 0 nr (scan_machine phase) s = Some s' \<and> I nr s'"
  proof (rule for_loop_inv)
    fix i s1 assume i: "i < nr" and I: "I i s1"
    have ph: "mc_phase (sc_machine_arr s1 ! i') = mc_phase (sc_machine_arr s ! i')" if "i' < nr" for i'
      using I that len by (intro phase_cong) (simp_all add: I_def)
    have pub1: "published nr phase pub (sc_machine_arr s1)" using pub I ph by (simp add: published_def I_def)
    have D: "i < length (sc_machine_arr s1)" "i < length (sc_scanned s1)"
      using I scan_okD(1,7) [of nr s1 i] i by (simp_all add: I_def scan_inv_def)
    show "\<exists>s'. scan_machine phase i s1 = Some s' \<and> I (Suc i) s'"
    proof (cases "mc_phase (sc_machine_arr s1 ! i) = phase \<and> \<not> sc_scanned s1 ! i")
      case True
      then obtain s2 where "scan_machine phase i s1 = Some s2" "scan_inv nr pub s2" "mdat (sc_machine_arr s2) = mdat (sc_machine_arr s1)"
        "map mc_phase (sc_machine_arr s2) = map mc_phase (sc_machine_arr s1)" "scanned_set nr s2 = insert i (scanned_set nr s1)"
        using scan_machine_inv [of nr pub s1 i phase] I i pub1 unfolding I_def by blast
      with I True ph [OF i] show ?thesis by (auto simp: I_def less_Suc_eq)
    next
      case False
      then have "scan_machine phase i s1 = Some s1" using D by (auto simp: scan_machine_def c_access)
      moreover have "I (Suc i) s1" using False I ph [OF i] i by (auto simp: I_def less_Suc_eq scanned_set_def)
      ultimately show ?thesis by blast
    qed
  qed (use inv in \<open>simp_all add: I_def\<close>)
  then show ?thesis unfolding scan_pass_def I_def by blast
qed

text \<open>
  What the clients may write between passes: well-formed messages, and complete ones only under the
  current phase.
\<close>

definition client_write :: "nat \<Rightarrow> u64 \<Rightarrow> (bool \<Rightarrow> nat \<Rightarrow> nat \<Rightarrow> u64) \<Rightarrow> (machine_unit list \<Rightarrow> machine_unit list) \<Rightarrow> bool" where
  "client_write nr phase pub w \<longleftrightarrow>
     (\<forall>ms. nr \<le> length ms \<and> (\<forall>m \<in> set ms. mesg_ok (mc_mesg_arr m) \<and> mesg_ok (mc_c_mesg_arr m)) \<longrightarrow>
        nr \<le> length (w ms) \<and> (\<forall>m \<in> set (w ms). mesg_ok (mc_mesg_arr m) \<and> mesg_ok (mc_c_mesg_arr m)) \<and>
        published nr phase pub (w ms))"

definition all_arrive :: "nat \<Rightarrow> u64 \<Rightarrow> (machine_unit list \<Rightarrow> machine_unit list) \<Rightarrow> bool" where
  "all_arrive nr phase w \<longleftrightarrow> (\<forall>ms. \<forall>i < nr. mc_phase (w ms ! i) = phase)"

lemma views_machine_arr [simp]:
  "stot (s\<lparr>sc_machine_arr := ms\<rparr>) = stot s" "smach (s\<lparr>sc_machine_arr := ms\<rparr>) = smach s"
  "scan_sums S pub (s\<lparr>sc_machine_arr := ms\<rparr>) = scan_sums S pub s"
  by (simp_all add: scan_sums_def scnt_def sreal_def stot_def smach_def fun_eq_iff)

lemma scan_inv_write:
  assumes "scan_inv nr pub s" "client_write nr phase pub w"
  shows "scan_inv nr pub (s\<lparr>sc_machine_arr := w (sc_machine_arr s)\<rparr>)" "published nr phase pub (w (sc_machine_arr s))"
    "scanned_set nr (s\<lparr>sc_machine_arr := w (sc_machine_arr s)\<rparr>) = scanned_set nr s"
proof -
  have "nr \<le> length (sc_machine_arr s) \<and> (\<forall>m \<in> set (sc_machine_arr s). mesg_ok (mc_mesg_arr m) \<and> mesg_ok (mc_c_mesg_arr m))"
    using assms(1) by (simp add: scan_inv_def scan_ok_def)
  then have w: "nr \<le> length (w (sc_machine_arr s))" "\<forall>m \<in> set (w (sc_machine_arr s)). mesg_ok (mc_mesg_arr m) \<and> mesg_ok (mc_c_mesg_arr m)"
    and p: "published nr phase pub (w (sc_machine_arr s))" using assms(2) unfolding client_write_def by blast+
  show S: "scanned_set nr (s\<lparr>sc_machine_arr := w (sc_machine_arr s)\<rparr>) = scanned_set nr s" by (simp add: scanned_set_def)
  have "scan_ok nr (s\<lparr>sc_machine_arr := w (sc_machine_arr s)\<rparr>)" using assms(1) w by (simp add: scan_inv_def scan_ok_def)
  with assms(1) show "scan_inv nr pub (s\<lparr>sc_machine_arr := w (sc_machine_arr s)\<rparr>)"
    unfolding scan_inv_def S by simp
  show "published nr phase pub (w (sc_machine_arr s))" by (rule p)
qed

lemma scanned_all:
  assumes "scan_inv nr pub s"
  shows "sc_cnt s = nr \<longleftrightarrow> scanned_set nr s = {..<nr}"
proof
  have sub: "scanned_set nr s \<subseteq> {..<nr}" by (auto simp: scanned_set_def)
  assume "sc_cnt s = nr"
  then have "card (scanned_set nr s) = card {..<nr}" using assms by (simp add: scan_inv_def)
  then show "scanned_set nr s = {..<nr}" by (rule card_subset_eq [OF finite_lessThan sub])
next
  assume "scanned_set nr s = {..<nr}"
  then have "card (scanned_set nr s) = nr" by (simp only: card_lessThan)
  then show "sc_cnt s = nr" using assms by (simp add: scan_inv_def)
qed

lemma scan_loop_ok:
  assumes "scan_inv nr pub s" "\<And>w. w \<in> set ws \<Longrightarrow> client_write nr phase pub w"
  shows "(\<forall>s'. scan_loop nr phase ws s = Some s' \<longrightarrow> scan_inv nr pub s' \<and> scanned_set nr s' = {..<nr}) \<and>
    ((\<exists>w \<in> set ws. all_arrive nr phase w) \<longrightarrow> (\<exists>s'. scan_loop nr phase ws s = Some s'))"
  using assms
proof (induction ws arbitrary: s)
  case (Cons w ws)
  let ?s = "s\<lparr>sc_machine_arr := w (sc_machine_arr s)\<rparr>"
  have w: "client_write nr phase pub w" using Cons.prems(2) by simp
  note W = scan_inv_write [OF Cons.prems(1) w]
  obtain s1 where s1: "scan_pass nr phase ?s = Some s1" "scan_inv nr pub s1"
    "scanned_set nr s1 = scanned_set nr s \<union> {i. i < nr \<and> mc_phase (w (sc_machine_arr s) ! i) = phase}"
    using scan_pass_ok [OF W(1), of phase] W(2,3) by auto
  note IH = Cons.IH [OF s1(2)] and all = scanned_all [OF s1(2)]
  show ?case
  proof (cases "sc_cnt s1 = nr")
    case True
    with s1 all show ?thesis by simp
  next
    case False
    then have "\<not> all_arrive nr phase w" using s1(3) all by (auto simp: all_arrive_def scanned_set_def)
    with False IH Cons.prems(2) s1(1) show ?thesis by auto
  qed
qed simp

text \<open>Every counter belongs to exactly one slot.\<close>

lemma slot_sum_total: "(\<Sum>k < MAX_COUNTER_NUM. slot_sum f n k) = (\<Sum>j < n. f j)"
proof -
  have "(\<Sum>k < MAX_COUNTER_NUM. slot_sum f n k) = (\<Sum>j < n. \<Sum>k < MAX_COUNTER_NUM. if k = j mod MAX_COUNTER_NUM then f j else 0)"
    unfolding slot_sum_def by (rule sum.swap)
  also have "\<dots> = (\<Sum>j < n. f j)" by (rule sum.cong) (simp_all add: MAX_COUNTER_NUM_def sum.delta)
  finally show ?thesis .
qed

text \<open>The largest slot of a machine that publishes the same count everywhere.\<close>

lemma slot_fold_const_start: "n \<le> 16 \<Longrightarrow> slot_fold (\<lambda>_. c) n (0, 0) = (0, of_nat n * c)"
proof (induction n)
  case (Suc n)
  then have "\<not> (n \<noteq> 0 \<and> n mod 16 = 0)" by auto
  with Suc show ?case by (auto simp: slot_step_def SLOT_GRANULARITY_def Let_def algebra_simps)
qed simp

lemma slot_fold_const:
  assumes "17 * unat c < 2 ^ 64"
  shows "slot_fold (\<lambda>_. c) (17 + m) (0, 0) = (17 * c, of_nat (m mod 16) * c)"
proof (induction m)
  case 0
  have "slot_fold (\<lambda>_. c) (Suc 16) (0, 0) = slot_step 16 c (0, 16 * c)" by (simp only: slot_fold.simps slot_fold_const_start) simp
  also have "\<dots> = (17 * c, 0)" by (simp add: slot_step_def SLOT_GRANULARITY_def Let_def word_gt_0 algebra_simps)
  finally show ?case by simp
next
  case (Suc m)
  have le: "16 * c \<le> 17 * c" using assms unat_lt_2p64 [of c] by (simp add: word_le_nat_alt unat_word_ariths)
  have j: "(17 + m) mod 16 = Suc m mod 16" using mod_add_self1 [of 16 "Suc m"] by simp
  have split: "Suc m mod 16 = 0 \<and> m mod 16 = 15 \<or> Suc m mod 16 = Suc (m mod 16) \<and> Suc m mod 16 \<noteq> 0"
    by (simp add: mod_Suc)
  have IH: "slot_fold (\<lambda>_. c) (17 + Suc m) (0, 0) = slot_step (17 + m) c (17 * c, of_nat (m mod 16) * c)"
    unfolding add_Suc_right slot_fold.simps Suc.IH ..
  show ?case
  proof (cases "Suc m mod 16 = 0")
    case True
    with split have "of_nat (m mod 16) * c + c = 16 * c" by (simp add: algebra_simps)
    moreover have "\<not> 17 * c < 16 * c" using le by (simp only: not_less)
    ultimately show ?thesis unfolding IH using True j by (simp add: slot_step_def SLOT_GRANULARITY_def Let_def)
  next
    case False
    with split have "of_nat (m mod 16) * c + c = of_nat (Suc m mod 16) * c" by (auto simp: algebra_simps)
    with False j show ?thesis unfolding IH by (simp add: slot_step_def SLOT_GRANULARITY_def Let_def)
  qed
qed

section \<open>Properties\<close>

text \<open>
  Property C5. Once the messages of all machines have arrived, in whatever order and over however
  many passes, the scan ends, and every total is the sum over the machines of what they published:
  per entry, per slot, per machine and overall; the slots add up to the overall total.
\<close>

theorem scan_loop_totals:
  assumes "scan_ok nr s" "0 < nr" "sc_cnt s = 0" "sc_rnic s = 0" "sc_cpu s = 0" "\<forall>i < nr. \<not> sc_scanned s ! i"
    "\<forall>w \<in> set ws. client_write nr phase pub w" "\<exists>w \<in> set ws. all_arrive nr phase w"
  shows "\<exists>s'. scan_loop nr phase ws s = Some s' \<and> scan_ok nr s' \<and>
    (\<forall>cpu. \<forall>k < COUNTER_TOTAL. scnt s' cpu k = (\<Sum>i < nr. pub cpu i k)) \<and>
    (\<forall>cpu. \<forall>k < MAX_COUNTER_NUM. sreal s' cpu k =
       (\<Sum>i < nr. \<Sum>j < COUNTER_TOTAL. if k = j mod MAX_COUNTER_NUM then pub cpu i j else 0)) \<and>
    (\<forall>cpu. \<forall>i < nr. smach s' cpu i = (\<Sum>j < COUNTER_TOTAL. pub cpu i j)) \<and>
    (\<forall>cpu. stot s' cpu = (\<Sum>i < nr. \<Sum>j < COUNTER_TOTAL. pub cpu i j)) \<and>
    (\<forall>cpu. stot s' cpu = (\<Sum>k < MAX_COUNTER_NUM. sreal s' cpu k))"
proof -
  have e: "scanned_set nr s = {}" using assms(6) by (auto simp: scanned_set_def)
  have "scan_inv nr pub s" unfolding scan_inv_def e using assms(1,3-5) by (simp add: stot_def)
  with scan_loop_ok [of nr pub s ws phase] assms(7,8)
  obtain s' where s': "scan_loop nr phase ws s = Some s'" "scan_inv nr pub s'" "scanned_set nr s' = {..<nr}" by auto
  have ne: "{..<nr} \<noteq> {}" using assms(2) by auto
  note I = s'(2) [unfolded scan_inv_def s'(3)]
  have S: "scan_sums {..<nr} pub s'" using I ne by simp
  have tot: "stot s' cpu = (\<Sum>k < MAX_COUNTER_NUM. sreal s' cpu k)" for cpu
  proof -
    have "(\<Sum>k < MAX_COUNTER_NUM. sreal s' cpu k) = (\<Sum>k < MAX_COUNTER_NUM. \<Sum>i < nr. slot_sum (pub cpu i) COUNTER_TOTAL k)"
      using S by (intro sum.cong) (auto simp: scan_sums_def)
    also have "\<dots> = (\<Sum>i < nr. \<Sum>k < MAX_COUNTER_NUM. slot_sum (pub cpu i) COUNTER_TOTAL k)" by (rule sum.swap)
    finally show ?thesis using I by (simp add: slot_sum_total)
  qed
  show ?thesis
    by (rule exI [of _ s']) (use s'(1) I S tot in \<open>simp add: scan_sums_def slot_sum_def\<close>)
qed

definition example_unit :: "u64 \<Rightarrow> u64 \<Rightarrow> machine_unit" where
  "example_unit phase n = \<lparr>mc_mesg_arr = replicate MESG_UNIT_NUM \<lparr>mu_counters = replicate COUNTER_PER_MESG n, mu_crc = 0\<rparr>,
     mc_c_mesg_arr = replicate MESG_UNIT_NUM \<lparr>mu_counters = replicate COUNTER_PER_MESG 0, mu_crc = 0\<rparr>, mc_phase = phase\<rparr>"

definition example_scan :: "nat \<Rightarrow> scan" where
  "example_scan nr = \<lparr>sc_machine_arr = replicate nr (example_unit 0 0), sc_counters = replicate COUNTER_TOTAL 0,
     sc_c_counters = replicate COUNTER_TOTAL 0, sc_real = replicate MAX_COUNTER_NUM 0, sc_c_real = replicate MAX_COUNTER_NUM 0,
     sc_scanned = replicate nr False, sc_uniform = replicate nr False, sc_req = replicate nr 0, sc_onload = replicate nr 0,
     sc_max = replicate nr 0, sc_tmp = 0, sc_cnt = 0, sc_rnic = 0, sc_cpu = 0\<rparr>"

lemma example_mesg: "mesg_ok (mc_mesg_arr (example_unit p n))" "mesg_ok (mc_c_mesg_arr (example_unit p n))"
  by (simp_all add: example_unit_def mesg_ok_def)

lemma example_mdat: "i < nr \<Longrightarrow> j < COUNTER_TOTAL \<Longrightarrow> mdat (replicate nr (example_unit p n)) False i j = n"
  using mesg_idx [OF example_mesg(1), of j p n] by (simp add: mdat_def msg_def example_unit_def)

theorem scan_loop_totals_witness:
  "\<exists>s'. scan_loop 2 1 [\<lambda>_. replicate 2 (example_unit 1 3)] (example_scan 2) = Some s' \<and> scnt s' False 5 = 6"
proof -
  let ?ms = "replicate 2 (example_unit 1 3)"
  let ?ws = "[\<lambda>_. ?ms]"
  have w: "\<forall>w \<in> set ?ws. client_write 2 1 (mdat ?ms) w"
    using example_mesg [of 1 3] by (simp add: client_write_def published_def numeral_2_eq_2)
  have a: "\<exists>w \<in> set ?ws. all_arrive 2 1 w" by (simp add: all_arrive_def example_unit_def)
  have ok: "scan_ok 2 (example_scan 2)" using example_mesg [of 0 0] by (simp add: scan_ok_def example_scan_def)
  have m: "\<forall>i < 2. mdat ?ms False i 5 = 3" using example_mdat [of _ 2 5 1 3] by (simp add: layout_consts)
  have "5 < COUNTER_TOTAL" by (simp add: layout_consts)
  moreover have "0 < (2::nat)" "sc_cnt (example_scan 2) = 0" "sc_rnic (example_scan 2) = 0" "sc_cpu (example_scan 2) = 0"
    "\<forall>i < 2. \<not> sc_scanned (example_scan 2) ! i" by (simp_all add: example_scan_def)
  note scan_loop_totals [OF ok this w a]
  ultimately obtain s' where "scan_loop 2 1 ?ws (example_scan 2) = Some s'" "scnt s' False 5 = (\<Sum>i < 2. mdat ?ms False i 5)"
    by blast
  with m show ?thesis by (intro exI [of _ s']) (simp add: numeral_2_eq_2)
qed

end
