(* ===== verification/Agent_Strategy.thy ===== *)
theory Agent_Strategy
  imports Agent_Scan "HOL-Library.Multiset"
begin

text \<open>
  The strategies of \<open>server_func\<close> (\<^verbatim>\<open>providers/mlx5/fusioncas/agent/agent.cpp\<close>): the
  classification of the load and the choice of the entries of the table whose operations go to the
  CPU. The configuration is the one of the headers: no \<open>__SEQUENCER\<close>, no \<open>__FULL_ONLOAD\<close>.

  The priority queue is a list together with a parameter that chooses the element \<open>top\<close> returns;
  the C++ library only promises that it is a greatest one. Arithmetic on \<open>double\<close> is exact, by
  rounding to 53 bits.
\<close>

section \<open>Arithmetic on double\<close>

fun bit_len :: "nat \<Rightarrow> nat" where
  "bit_len n = (if n = 0 then 0 else Suc (bit_len (n div 2)))"

declare bit_len.simps [simp del]

text \<open>The quotient \<open>a / b\<close> rounded to the nearest integer, ties to even.\<close>

definition round_div :: "nat \<Rightarrow> nat \<Rightarrow> nat" where
  "round_div a b = (let q = a div b; r = a mod b in
     if 2 * r > b \<or> 2 * r = b \<and> odd q then q + 1 else q)"

text \<open>An integer rounded to 53 significant bits: its conversion to \<open>double\<close>.\<close>

definition round_sig :: "nat \<Rightarrow> nat" where
  "round_sig n = (let e = bit_len n - 53 in round_div n (2 ^ e) * 2 ^ e)"

text \<open>\<open>req_cnt > counter * 0.9\<close>, where the constant is the double \<open>8106479329266893 / 2\<^sup>5\<^sup>3\<close>.\<close>

definition above_09 :: "u64 \<Rightarrow> u64 \<Rightarrow> bool" where
  "above_09 req_cnt counter \<longleftrightarrow>
     round_sig (round_sig (unat counter) * 8106479329266893) < round_sig (unat req_cnt) * 2 ^ 53"

text \<open>
  \<open>round(a / (double)b * 16)\<close>: the quotient has 53 significant bits, \<open>q / 2\<^sup>s\<close>, and
  \<open>std::round\<close> rounds ties up. A division by zero gives infinity, whose conversion to an integer is
  undefined.
\<close>

definition round_share :: "u64 \<Rightarrow> u64 \<Rightarrow> nat \<Rightarrow> nat option" where
  "round_share a b parts =
     (let a = round_sig (unat a); b = round_sig (unat b);
          s = 53 + int (bit_len b) - int (bit_len a);
          s = (if b * 2 ^ 53 * 2 ^ nat (- s) \<le> a * 2 ^ nat s then s - 1 else s);
          q = round_div (a * 2 ^ nat s) (b * 2 ^ nat (- s))
      in if b = 0 then None else Some ((2 * q * parts * 2 ^ nat (- s) + 2 ^ nat s) div (2 * 2 ^ nat s)))"

section \<open>Strategies\<close>

record cpu_task =
  req_cnt :: u64
  task_idx :: nat
  inner_idx :: nat

record agent_cfg =
  threshold :: u64
  core_num :: u64
  agent_enabled :: bool
  pa_enabled :: bool

definition CPU_CAPACITY :: u64 where
  "CPU_CAPACITY = 2500000"

definition RNIC_THRESHOLD :: u64 where
  "RNIC_THRESHOLD = 10000000"

definition RNIC_CAP_W_PA :: u64 where
  "RNIC_CAP_W_PA = 14000000 div 2"

text \<open>The variables that the strategies change.\<close>

record strat =
  st_credit :: "u16 list"
  st_old :: "u16 list"
  st_onload_nums :: "u64 list"
  st_tasks :: "cpu_task list"
  st_over_count :: u64
  st_thres_count :: u64

text \<open>Entry \<open>j\<close> of slot \<open>i\<close>.\<close>

definition entry :: "nat \<Rightarrow> nat \<Rightarrow> nat" where
  "entry i j = i + j * MAX_COUNTER_NUM"

definition set_credit :: "nat \<Rightarrow> u16 \<Rightarrow> strat \<Rightarrow> strat option" where
  "set_credit k v s = do { cr \<leftarrow> arr_set (st_credit s) k v; Some (s\<lparr>st_credit := cr\<rparr>) }"

definition save_credit :: "nat \<Rightarrow> strat \<Rightarrow> strat option" where
  "save_credit k s = do { v \<leftarrow> arr_get (st_credit s) k; ol \<leftarrow> arr_set (st_old s) k v; Some (s\<lparr>st_old := ol\<rparr>) }"

subsection \<open>Fixed strategies\<close>

definition fill_credit :: "u16 \<Rightarrow> strat \<Rightarrow> strat option" where
  "fill_credit v s = for_loop 0 COUNTER_TOTAL (\<lambda>i. set_credit i v) s"

subsection \<open>Classification\<close>

definition machine_class :: "agent_cfg \<Rightarrow> nat \<Rightarrow> scan \<Rightarrow> scan option" where
  "machine_class cfg i s = do {
     rq \<leftarrow> arr_upd (sc_req s) i (\<lambda>x. x div of_nat COUNTER_TOTAL);
     per_slot \<leftarrow> arr_get rq i;
     mx \<leftarrow> arr_get (sc_max s) i;
     ol \<leftarrow> arr_get (sc_onload s) i;
     un \<leftarrow> (if mx > per_slot * 2 then arr_set (sc_uniform s) i False
           else if ol > 0 \<and> pa_enabled cfg = False then arr_set (sc_uniform s) i False
           else Some (sc_uniform s));
     Some (s\<lparr>sc_req := rq, sc_uniform := un\<rparr>)
   }"

fun load_is_uniform :: "u64 list \<Rightarrow> u64 list \<Rightarrow> u64 \<Rightarrow> bool" where
  "load_is_uniform (r # rs) (c # cs) req_per_slot =
     (if r + c \<ge> req_per_slot * 2 then False else load_is_uniform rs cs req_per_slot)"
| "load_is_uniform _ _ req_per_slot = True"

subsection \<open>Slots to be moved to the CPU and slots to be moved back\<close>

definition push_task :: "scan \<Rightarrow> nat \<Rightarrow> nat \<Rightarrow> strat \<Rightarrow> strat option" where
  "push_task sc i j s = do {
     n \<leftarrow> arr_get (sc_counters sc) (entry i j);
     Some (if n > 0 then s\<lparr>st_tasks := st_tasks s @ [\<lparr>req_cnt = n, task_idx = i, inner_idx = j\<rparr>]\<rparr> else s)
   }"

definition note_excess :: "scan \<Rightarrow> u64 \<Rightarrow> nat \<Rightarrow> strat \<Rightarrow> strat option" where
  "note_excess sc req_per_slot i s = do {
     r \<leftarrow> arr_get (sc_real sc) i;
     on \<leftarrow> arr_set (st_onload_nums s) i (r - req_per_slot);
     Some (s\<lparr>st_onload_nums := on, st_over_count := st_over_count s + (r - req_per_slot),
       st_thres_count := st_thres_count s + r\<rparr>)
   }"

text \<open>An entry of a slot with spare capacity on the card; the number is \<open>slot_reset_cnt\<close>.\<close>

definition reset_entry :: "bool \<Rightarrow> scan \<Rightarrow> u64 \<Rightarrow> nat \<Rightarrow> nat \<Rightarrow> u64 \<times> strat \<Rightarrow> (u64 \<times> strat) option" where
  "reset_entry keep_old sc over_thres i j = (\<lambda>(reset_cnt, s). do {
     c \<leftarrow> arr_get (sc_c_counters sc) (entry i j);
     r \<leftarrow> arr_get (sc_real sc) i;
     if c + reset_cnt + r < over_thres then do {
       s \<leftarrow> (if keep_old then save_credit (entry i j) s else Some s);
       s \<leftarrow> set_credit (entry i j) 0 s;
       Some (reset_cnt + c, s)
     }
     else Some (reset_cnt, s)
   })"

definition zipf_slot :: "scan \<Rightarrow> u64 \<Rightarrow> u64 \<Rightarrow> nat \<Rightarrow> strat \<Rightarrow> strat option" where
  "zipf_slot sc over_thres req_per_slot i s = do {
     r \<leftarrow> arr_get (sc_real sc) i;
     if r \<ge> over_thres then do {
       s \<leftarrow> for_loop 0 SLOT_GRANULARITY (push_task sc i) s;
       note_excess sc req_per_slot i s
     }
     else do {
       (reset_cnt, s) \<leftarrow> for_loop 0 SLOT_GRANULARITY (reset_entry True sc over_thres i) (0, s);
       Some s
     }
   }"

definition pa_slot :: "scan \<Rightarrow> u64 \<Rightarrow> u64 \<Rightarrow> nat \<Rightarrow> strat \<Rightarrow> strat option" where
  "pa_slot sc over_thres req_per_slot i s = do {
     r \<leftarrow> arr_get (sc_real sc) i;
     if r \<ge> over_thres then
       for_loop 0 SLOT_GRANULARITY (\<lambda>j s. do {
         s \<leftarrow> push_task sc i j s;
         note_excess sc req_per_slot i s
       }) s
     else do {
       (reset_cnt, s) \<leftarrow> for_loop 0 SLOT_GRANULARITY (reset_entry False sc over_thres i) (0, s);
       Some s
     }
   }"

subsection \<open>Moving tasks to the CPU\<close>

text \<open>\<open>top\<close> and \<open>pop\<close> of the priority queue.\<close>

definition pop_task :: "(cpu_task list \<Rightarrow> nat) \<Rightarrow> cpu_task list \<Rightarrow> (cpu_task \<times> cpu_task list) option" where
  "pop_task pick ts = do {
     t \<leftarrow> arr_get ts (pick ts);
     Some (t, take (pick ts) ts @ drop (Suc (pick ts)) ts)
   }"

lemma pop_task_length: "pop_task pick ts = Some (t, ts') \<Longrightarrow> length ts' < length ts"
  by (auto simp: pop_task_def bind_eq_Some_conv arr_get_eq_Some_iff)

text \<open>Whether a task is moved.\<close>

definition accept :: "scan \<Rightarrow> cpu_task \<Rightarrow> strat \<Rightarrow> bool option" where
  "accept sc t s = do {
     on \<leftarrow> arr_get (st_onload_nums s) (task_idx t);
     c \<leftarrow> arr_get (sc_counters sc) (task_idx t);
     Some (req_cnt t < on \<or> above_09 (req_cnt t) c)
   }"

text \<open>Moving a task: the number still to be moved of its slot, and the credit.\<close>

definition onload_task :: "cpu_task \<Rightarrow> strat \<Rightarrow> strat option" where
  "onload_task t s = do {
     on \<leftarrow> arr_upd (st_onload_nums s) (task_idx t) (\<lambda>x. x - req_cnt t);
     set_credit (entry (task_idx t) (inner_idx t)) 1 (s\<lparr>st_onload_nums := on\<rparr>)
   }"

function zipf_onload :: "(cpu_task list \<Rightarrow> nat) \<Rightarrow> scan \<Rightarrow> u64 \<Rightarrow> nat \<Rightarrow> u64 \<Rightarrow> strat \<Rightarrow> (u64 \<times> strat) option" where
  "zipf_onload pick sc cap i attempts s =
     (if i < length (st_tasks s) then
        (case pop_task pick (st_tasks s) of None \<Rightarrow> None | Some (t, ts) \<Rightarrow> do {
           let s = s\<lparr>st_tasks := ts\<rparr>;
           let k = entry (task_idx t) (inner_idx t);
           b \<leftarrow> accept sc t s;
           s' \<leftarrow> save_credit k s;
           if b then do {
             s' \<leftarrow> onload_task t s';
             n \<leftarrow> arr_get (sc_counters sc) k;
             if attempts + n > cap then Some (attempts + n, s')
             else zipf_onload pick sc cap (Suc i) (attempts + n) (s'\<lparr>st_tasks := ts\<rparr>)
           }
           else do {
             s' \<leftarrow> set_credit k 0 s';
             zipf_onload pick sc cap (Suc i) attempts (s'\<lparr>st_tasks := ts\<rparr>)
           }
         })
      else Some (attempts, s))"
  by pat_completeness auto
termination
  by (relation "measure (\<lambda>(pick, sc, cap, i, attempts, s). length (st_tasks s))") (auto dest: pop_task_length)

function pa_onload :: "(cpu_task list \<Rightarrow> nat) \<Rightarrow> scan \<Rightarrow> u64 \<Rightarrow> nat \<Rightarrow> u64 \<Rightarrow> strat \<Rightarrow> (u64 \<times> strat) option" where
  "pa_onload pick sc cap i attempts s =
     (if i < length (st_tasks s) then
        if attempts > cap then Some (attempts, s)
        else (case pop_task pick (st_tasks s) of None \<Rightarrow> None | Some (t, ts) \<Rightarrow> do {
           let s = s\<lparr>st_tasks := ts\<rparr>;
           let k = entry (task_idx t) (inner_idx t);
           b \<leftarrow> accept sc t s;
           if b then do {
             s' \<leftarrow> onload_task t s;
             n \<leftarrow> arr_get (sc_counters sc) k;
             pa_onload pick sc cap (Suc i) (attempts + n) (s'\<lparr>st_tasks := ts\<rparr>)
           }
           else do {
             s' \<leftarrow> set_credit k 0 s;
             pa_onload pick sc cap (Suc i) attempts (s'\<lparr>st_tasks := ts\<rparr>)
           }
         })
      else Some (attempts, s))"
  by pat_completeness auto
termination
  by (relation "measure (\<lambda>(pick, sc, cap, i, attempts, s). length (st_tasks s))") (auto dest: pop_task_length)

declare zipf_onload.simps [simp del] pa_onload.simps [simp del]

subsection \<open>The strategies of one phase\<close>

record server =
  sv_layout :: server_layout
  sv_onload_nums :: "u64 list"
  sv_over_thres :: u64

definition over_threshold :: "u64 \<Rightarrow> u64 \<Rightarrow> u64" where
  "over_threshold req_per_slot thres = (if req_per_slot > thres then req_per_slot else thres)"

definition pa_over_threshold :: "u64 \<Rightarrow> u64 \<Rightarrow> u64" where
  "pa_over_threshold req_per_slot thres = (if req_per_slot > thres div 2 then req_per_slot else thres)"

definition pa_uniform :: "u64 \<Rightarrow> strat \<Rightarrow> strat option" where
  "pa_uniform cap s = do {
     onload_sub_slot \<leftarrow> round_share cap (cap + RNIC_CAP_W_PA) SLOT_GRANULARITY;
     let onload_sub_slot = (if onload_sub_slot > SLOT_GRANULARITY then 0 else onload_sub_slot);
     if onload_sub_slot > 0 then for_loop 0 (MAX_COUNTER_NUM * onload_sub_slot) (\<lambda>i. set_credit i 1) s
     else Some s
   }"

definition pa_zipf :: "(cpu_task list \<Rightarrow> nat) \<Rightarrow> scan \<Rightarrow> u64 \<Rightarrow> u64 \<Rightarrow> u64 \<Rightarrow> strat \<Rightarrow> strat option" where
  "pa_zipf pick sc cap over_thres req_per_slot s = do {
     s \<leftarrow> for_loop 0 MAX_COUNTER_NUM (pa_slot sc over_thres req_per_slot) s;
     (attempts, s) \<leftarrow> pa_onload pick sc cap 0 0 s;
     Some s
   }"

definition zipf :: "(cpu_task list \<Rightarrow> nat) \<Rightarrow> scan \<Rightarrow> u64 \<Rightarrow> u64 \<Rightarrow> u64 \<Rightarrow> strat \<Rightarrow> strat option" where
  "zipf pick sc cap over_thres req_per_slot s = do {
     s \<leftarrow> for_loop 0 MAX_COUNTER_NUM (zipf_slot sc over_thres req_per_slot) s;
     (attempts, s) \<leftarrow> zipf_onload pick sc cap 0 0 s;
     Some s
   }"

definition strat_of :: "server \<Rightarrow> strat" where
  "strat_of sv = \<lparr>st_credit = resp_credit (sl_strategies (sv_layout sv)),
     st_old = resp_credit (sl_old_strategies (sv_layout sv)), st_onload_nums = sv_onload_nums sv,
     st_tasks = [], st_over_count = 0, st_thres_count = 0\<rparr>"

text \<open>The strategies written back, with the next phase.\<close>

definition next_phase :: "bool \<Rightarrow> strat \<Rightarrow> u64 \<Rightarrow> server \<Rightarrow> server" where
  "next_phase zipfian s over_thres sv =
     (let L = sv_layout sv in
      sv\<lparr>sv_layout := L\<lparr>
          sl_strategies := \<lparr>resp_phase = resp_phase (sl_strategies L) + 1, resp_credit = st_credit s\<rparr>,
          sl_old_strategies := \<lparr>resp_phase = resp_phase (sl_old_strategies L) + (if zipfian then 1 else 0),
            resp_credit = st_old s\<rparr>\<rparr>,
        sv_onload_nums := st_onload_nums s, sv_over_thres := over_thres\<rparr>)"

definition uniform_phase :: "server \<Rightarrow> server" where
  "uniform_phase sv = (let L = sv_layout sv in
     sv\<lparr>sv_layout := L\<lparr>sl_uniform_strag := (sl_uniform_strag L)\<lparr>resp_phase := resp_phase (sl_strategies L)\<rparr>\<rparr>\<rparr>)"

text \<open>The agent normally enabled: the classification and the strategy for the load.\<close>

definition dynamic_strategy :: "(cpu_task list \<Rightarrow> nat) \<Rightarrow> agent_cfg \<Rightarrow> nat \<Rightarrow> scan \<Rightarrow> u64 \<Rightarrow> server \<Rightarrow>
    (bool \<times> scan \<times> server) option" where
  "dynamic_strategy pick cfg nr_machine sc req_per_slot sv = do {
     let cap = CPU_CAPACITY * core_num cfg;
     let over_thres = over_threshold req_per_slot (threshold cfg);
     sc \<leftarrow> for_loop 0 nr_machine (machine_class cfg) sc;
     let is_uniform = load_is_uniform (sc_real sc) (sc_c_real sc) req_per_slot;
     if pa_enabled cfg then
       if is_uniform then do {
         s \<leftarrow> pa_uniform cap (strat_of sv);
         Some (is_uniform, sc, uniform_phase (next_phase False s over_thres sv))
       }
       else do {
         let over_thres = pa_over_threshold req_per_slot (threshold cfg);
         s \<leftarrow> pa_zipf pick sc cap over_thres req_per_slot (strat_of sv);
         Some (is_uniform, sc, uniform_phase (next_phase False s over_thres sv))
       }
     else do {
       s \<leftarrow> zipf pick sc cap over_thres req_per_slot (strat_of sv);
       Some (is_uniform, sc, uniform_phase (next_phase True s over_thres sv))
     }
   }"

definition make_strategy :: "(cpu_task list \<Rightarrow> nat) \<Rightarrow> agent_cfg \<Rightarrow> nat \<Rightarrow> scan \<Rightarrow> server \<Rightarrow> (bool \<times> scan \<times> server) option" where
  "make_strategy pick cfg nr_machine sc sv =
     (let req_per_slot = (sc_rnic sc + sc_cpu sc) div of_nat MAX_COUNTER_NUM;
          over_thres = over_threshold req_per_slot (threshold cfg)
      in if agent_enabled cfg = False \<or> threshold cfg = RNIC_THRESHOLD then do {
           s \<leftarrow> fill_credit 0 (strat_of sv);
           Some (True, sc, next_phase False s over_thres sv)
         }
         else if threshold cfg = 0 then do {
           s \<leftarrow> fill_credit 1 (strat_of sv);
           Some (True, sc, next_phase False s over_thres sv)
         }
         else dynamic_strategy pick cfg nr_machine sc req_per_slot sv)"

section \<open>Well-formed strategies\<close>

definition task_entry :: "cpu_task \<Rightarrow> nat" where
  "task_entry t = entry (task_idx t) (inner_idx t)"

definition strat_ok :: "strat \<Rightarrow> bool" where
  "strat_ok s \<longleftrightarrow> length (st_credit s) = COUNTER_TOTAL \<and> length (st_old s) = COUNTER_TOTAL \<and>
     length (st_onload_nums s) = MAX_COUNTER_NUM \<and>
     (\<forall>t \<in> set (st_tasks s). task_idx t < MAX_COUNTER_NUM \<and> inner_idx t < SLOT_GRANULARITY)"

lemma entry_less: "i < MAX_COUNTER_NUM \<Longrightarrow> j < SLOT_GRANULARITY \<Longrightarrow> entry i j < COUNTER_TOTAL"
proof -
  assume "i < MAX_COUNTER_NUM" "j < SLOT_GRANULARITY"
  then have "Suc j * MAX_COUNTER_NUM \<le> SLOT_GRANULARITY * MAX_COUNTER_NUM" "entry i j < Suc j * MAX_COUNTER_NUM"
    by (simp_all only: mult_le_mono1 Suc_le_eq) (simp add: entry_def)
  then show ?thesis by (simp add: mult.commute)
qed

lemma entry_mod: "i < MAX_COUNTER_NUM \<Longrightarrow> entry i j mod MAX_COUNTER_NUM = i" "i < MAX_COUNTER_NUM \<Longrightarrow> entry i j div MAX_COUNTER_NUM = j"
  by (simp_all add: entry_def)

lemma entry_inj:
  "i < MAX_COUNTER_NUM \<Longrightarrow> i' < MAX_COUNTER_NUM \<Longrightarrow> entry i j = entry i' j' \<longleftrightarrow> i = i' \<and> j = j'"
  using entry_mod [of i j] entry_mod [of i' j'] by auto

lemma entry_split: "k < COUNTER_TOTAL \<Longrightarrow> k = entry (k mod MAX_COUNTER_NUM) (k div MAX_COUNTER_NUM) \<and>
    k mod MAX_COUNTER_NUM < MAX_COUNTER_NUM \<and> k div MAX_COUNTER_NUM < SLOT_GRANULARITY"
  by (simp add: entry_def MAX_COUNTER_NUM_def SLOT_GRANULARITY_def div_less_iff_less_mult)

lemma set_credit_eq: "k < length (st_credit s) \<Longrightarrow> set_credit k v s = Some (s\<lparr>st_credit := (st_credit s)[k := v]\<rparr>)"
  by (simp add: set_credit_def c_access)

lemma save_credit_eq:
  "k < length (st_credit s) \<Longrightarrow> k < length (st_old s) \<Longrightarrow> save_credit k s = Some (s\<lparr>st_old := (st_old s)[k := st_credit s ! k]\<rparr>)"
  by (simp add: save_credit_def c_access)

section \<open>The loop that moves tasks\<close>

text \<open>
  The two loops that move tasks to the CPU, with and without PCIe atomics, differ in what they save
  and where they test the capacity. What both promise is this interface: \<open>move\<close> and \<open>stay\<close> are the
  effects on a task that is moved or not.
\<close>

definition moves :: "scan \<Rightarrow> strat \<Rightarrow> cpu_task \<Rightarrow> bool" where
  "moves sc s t \<longleftrightarrow> req_cnt t < st_onload_nums s ! task_idx t \<or> above_09 (req_cnt t) (sc_counters sc ! task_idx t)"

definition load :: "scan \<Rightarrow> cpu_task \<Rightarrow> u64" where
  "load sc t = sc_counters sc ! task_entry t"

text \<open>A queue whose \<open>top\<close> is a greatest element.\<close>

definition pick_ok :: "(cpu_task list \<Rightarrow> nat) \<Rightarrow> bool" where
  "pick_ok pick \<longleftrightarrow> (\<forall>ts. ts \<noteq> [] \<longrightarrow> pick ts < length ts \<and> (\<forall>t \<in> set ts. req_cnt t \<le> req_cnt (ts ! pick ts)))"

lemma pop_task_ok:
  assumes "pick_ok pick" "ts \<noteq> []"
  obtains t ts' where "pop_task pick ts = Some (t, ts')" "mset ts = add_mset t (mset ts')"
    "\<forall>u \<in> set ts. req_cnt u \<le> req_cnt t" "length ts = Suc (length ts')"
proof -
  let ?p = "pick ts"
  have p: "?p < length ts" "\<forall>u \<in> set ts. req_cnt u \<le> req_cnt (ts ! ?p)" using assms by (auto simp: pick_ok_def)
  have eq: "ts = take ?p ts @ ts ! ?p # drop (Suc ?p) ts" by (rule id_take_nth_drop [OF p(1)])
  show ?thesis
  proof (rule that)
    show "pop_task pick ts = Some (ts ! ?p, take ?p ts @ drop (Suc ?p) ts)" using p(1) by (simp add: pop_task_def c_access)
    show "mset ts = add_mset (ts ! ?p) (mset (take ?p ts @ drop (Suc ?p) ts))" by (subst eq) (simp only: mset_append mset.simps, simp)
    show "length ts = Suc (length (take ?p ts @ drop (Suc ?p) ts))" using p(1) by simp
  qed (rule p(2))
qed

text \<open>
  What such a loop does, from loop counter \<open>i\<close> and load \<open>att\<close> on: it handles some of the tasks, \<open>on\<close>
  and \<open>off\<close>. It sets exactly their credits, it counts the load of those it moves, it handles no task
  before a larger one, and it stops at the capacity or halfway through the queue.
\<close>

definition handled :: "scan \<Rightarrow> u64 \<Rightarrow> nat \<Rightarrow> u64 \<Rightarrow> strat \<Rightarrow> u64 \<Rightarrow> strat \<Rightarrow> cpu_task list \<Rightarrow> cpu_task list \<Rightarrow> bool" where
  "handled sc cap i att s att' s' on off \<longleftrightarrow>
    mset (st_tasks s) = mset on + mset off + mset (st_tasks s') \<and>
    (\<forall>k < COUNTER_TOTAL. st_credit s' ! k = (if k \<in> task_entry ` set on then 1 else if k \<in> task_entry ` set off then 0
       else st_credit s ! k)) \<and>
    att' = att + (\<Sum>t \<leftarrow> on. load sc t) \<and>
    (att' \<le> cap \<or> on \<noteq> [] \<and> att + (\<Sum>t \<leftarrow> butlast on. load sc t) \<le> cap) \<and>
    (\<forall>t \<in> set on \<union> set off. \<forall>u \<in> set (st_tasks s'). req_cnt u \<le> req_cnt t) \<and>
    length on + length off \<le> (length (st_tasks s) - i + 1) div 2 \<and>
    (att' \<le> cap \<longrightarrow> length on + length off = (length (st_tasks s) - i + 1) div 2)"

lemma half_step: "i < n \<Longrightarrow> Suc ((n - Suc 0 - Suc i + 1) div 2) = (n - i + 1) div (2::nat)"
proof -
  assume "i < n"
  then obtain d where "n = Suc (i + d)" using less_iff_Suc_add by auto
  then show ?thesis by (cases d) simp_all
qed

text \<open>One more task in front.\<close>

lemma handled_cons:
  assumes "handled sc cap (Suc i) (att + (if b then load sc t else 0)) s1 att' s' on off" "i < length (st_tasks s)"
    "mset (st_tasks s) = add_mset t (mset (st_tasks s1))" "\<forall>u \<in> set (st_tasks s). req_cnt u \<le> req_cnt t"
    "st_credit s1 = (st_credit s)[task_entry t := if b then 1 else 0]" "task_entry t < length (st_credit s)"
    "task_entry t \<notin> task_entry ` set (st_tasks s1)"
  shows "handled sc cap i att s att' s' (if b then t # on else on) (if b then off else t # off)"
proof -
  note c = assms(1) [unfolded handled_def]
  note H1 = conjunct1 [OF c] and c = conjunct2 [OF c]
  note H2 = conjunct1 [OF c, rule_format] and c = conjunct2 [OF c]
  note H3 = conjunct1 [OF c] and c = conjunct2 [OF c]
  note H4 = conjunct1 [OF c] and c = conjunct2 [OF c]
  note H5 = conjunct1 [OF c, THEN bspec, THEN bspec] and c = conjunct2 [OF c]
  note H6 = conjunct1 [OF c] and H7 = conjunct2 [OF c, rule_format]
  let ?on = "if b then t # on else on" and ?off = "if b then off else t # off"
  have n: "length (st_tasks s) = Suc (length (st_tasks s1))"
    using arg_cong [OF assms(3), of size] by simp
  have sub: "set (st_tasks s1) = set on \<union> set off \<union> set (st_tasks s')"
    using arg_cong [OF H1, of set_mset] by simp
  have sub': "set (st_tasks s') \<subseteq> set (st_tasks s)" using arg_cong [OF assms(3), of set_mset] sub by auto
  have half: "Suc ((length (st_tasks s1) - Suc i + 1) div 2) = (length (st_tasks s) - i + 1) div 2"
    using half_step [OF assms(2)] n by simp
  have len: "length ?on + length ?off = Suc (length on + length off)" by simp
  have cr: "st_credit s1 ! k = (if k = task_entry t then if b then 1 else 0 else st_credit s ! k)" for k
    using assms(5,6) by (simp add: nth_list_update)
  have no: "task_entry t \<notin> task_entry ` set on" "task_entry t \<notin> task_entry ` set off" using assms(7) sub by auto
  show ?thesis unfolding handled_def
  proof (intro conjI allI ballI impI)
    show "mset (st_tasks s) = mset ?on + mset ?off + mset (st_tasks s')" unfolding assms(3) H1 by simp
    fix k assume "k < COUNTER_TOTAL"
    then show "st_credit s' ! k = (if k \<in> task_entry ` set ?on then 1 else if k \<in> task_entry ` set ?off then 0 else st_credit s ! k)"
      using H2 [of k] cr [of k] no by (cases b; cases "k = task_entry t"; simp)
  next
    show "att' = att + (\<Sum>t \<leftarrow> ?on. load sc t)" unfolding H3 by (simp add: add.assoc)
    show "att' \<le> cap \<or> ?on \<noteq> [] \<and> att + (\<Sum>t \<leftarrow> butlast ?on. load sc t) \<le> cap"
      using H4 by (cases b) (auto simp: add.assoc)
    fix x u assume "x \<in> set ?on \<union> set ?off" "u \<in> set (st_tasks s')"
    then show "req_cnt u \<le> req_cnt x" using H5 [of x u] assms(4) sub' by (auto split: if_splits)
  next
    show "length ?on + length ?off \<le> (length (st_tasks s) - i + 1) div 2" using H6 unfolding len half [symmetric] by simp
    assume "att' \<le> cap"
    then show "length ?on + length ?off = (length (st_tasks s) - i + 1) div 2" using H7 unfolding len half [symmetric] by simp
  qed
qed

lemma handled_none: "\<not> i < length (st_tasks s) \<Longrightarrow> att \<le> cap \<Longrightarrow> handled sc cap i att s att s [] []"
  by (simp add: handled_def)

lemma handled_last:
  assumes "i < length (st_tasks s)" "mset (st_tasks s) = add_mset t (mset (st_tasks s1))"
    "\<forall>u \<in> set (st_tasks s). req_cnt u \<le> req_cnt t" "st_credit s1 = (st_credit s)[task_entry t := 1]"
    "task_entry t < length (st_credit s)" "att \<le> cap" "att + load sc t > cap"
  shows "handled sc cap i att s (att + load sc t) s1 [t] []"
proof -
  have "set (st_tasks s1) \<subseteq> set (st_tasks s)" using arg_cong [OF assms(2), of set_mset] by auto
  moreover have "1 \<le> (length (st_tasks s) - i + 1) div 2" using assms(1) by (simp add: less_eq_div_iff_mult_less_eq)
  ultimately show ?thesis using assms by (auto simp: handled_def nth_list_update not_le)
qed

lemma distinct_pop:
  assumes "mset xs = add_mset t (mset ts)" "distinct (map f xs)"
  shows "distinct (map f ts)" "f t \<notin> f ` set ts" "t \<in> set xs" "set ts \<subseteq> set xs"
proof -
  have "mset (map f xs) = mset (map f (t # ts))" using assms(1) by simp
  then have "distinct (map f (t # ts))" using assms(2) mset_eq_imp_distinct_iff by blast
  then show "distinct (map f ts)" "f t \<notin> f ` set ts" by auto
  show "t \<in> set xs" "set ts \<subseteq> set xs" using arg_cong [OF assms(1), of set_mset] by auto
qed

locale task_loop =
  fixes run :: "(cpu_task list \<Rightarrow> nat) \<Rightarrow> scan \<Rightarrow> u64 \<Rightarrow> nat \<Rightarrow> u64 \<Rightarrow> strat \<Rightarrow> (u64 \<times> strat) option"
    and move :: "cpu_task \<Rightarrow> cpu_task list \<Rightarrow> strat \<Rightarrow> strat"
    and stay :: "cpu_task \<Rightarrow> cpu_task list \<Rightarrow> strat \<Rightarrow> strat"
  assumes run_done: "\<not> i < length (st_tasks s) \<Longrightarrow> run pick sc cap i att s = Some (att, s)"
    and run_task: "\<lbrakk>length (sc_counters sc) = COUNTER_TOTAL; strat_ok s; att \<le> cap; i < length (st_tasks s);
      pop_task pick (st_tasks s) = Some (t, ts); t \<in> set (st_tasks s)\<rbrakk> \<Longrightarrow>
      run pick sc cap i att s =
        (if moves sc s t
         then if att + load sc t > cap then Some (att + load sc t, move t ts s)
              else run pick sc cap (Suc i) (att + load sc t) (move t ts s)
         else run pick sc cap (Suc i) att (stay t ts s))"
    and move_tasks: "st_tasks (move t ts s) = ts" and stay_tasks: "st_tasks (stay t ts s) = ts"
    and move_credit: "st_credit (move t ts s) = (st_credit s)[task_entry t := 1]"
    and stay_credit: "st_credit (stay t ts s) = (st_credit s)[task_entry t := 0]"
    and move_lengths: "length (st_old (move t ts s)) = length (st_old s)"
      "length (st_onload_nums (move t ts s)) = length (st_onload_nums s)"
    and stay_lengths: "length (st_old (stay t ts s)) = length (st_old s)"
      "length (st_onload_nums (stay t ts s)) = length (st_onload_nums s)"
begin

lemma step_ok:
  assumes "strat_ok s" "set ts \<subseteq> set (st_tasks s)"
  shows "strat_ok (move t ts s)" "strat_ok (stay t ts s)"
  using assms unfolding strat_ok_def move_tasks stay_tasks move_credit stay_credit move_lengths stay_lengths by auto

lemma run_ok:
  assumes "length (sc_counters sc) = COUNTER_TOTAL" "pick_ok pick" "strat_ok s" "att \<le> cap"
    "distinct (map task_entry (st_tasks s))"
  shows "\<exists>att' s' on off. run pick sc cap i att s = Some (att', s') \<and> strat_ok s' \<and> handled sc cap i att s att' s' on off"
  using assms(3-5)
proof (induction "length (st_tasks s)" arbitrary: i att s rule: less_induct)
  case less
  show ?case
  proof (cases "i < length (st_tasks s)")
    case False
    with run_done less.prems handled_none show ?thesis by metis
  next
    case True
    then have "st_tasks s \<noteq> []" by auto
    then obtain t ts where pop: "pop_task pick (st_tasks s) = Some (t, ts)" "mset (st_tasks s) = add_mset t (mset ts)"
      "\<forall>u \<in> set (st_tasks s). req_cnt u \<le> req_cnt t" "length (st_tasks s) = Suc (length ts)"
      using pop_task_ok [OF assms(2)] by metis
    note P = distinct_pop [OF pop(2) less.prems(3)]
    note run = run_task [OF assms(1) less.prems(1,2) True pop(1) P(3)]
    note ok = step_ok [OF less.prems(1) P(4), of t]
    have k: "task_entry t < length (st_credit s)"
      using less.prems(1) P(3) entry_less by (simp add: strat_ok_def task_entry_def)
    show ?thesis
    proof (cases "moves sc s t")
      case mv: True
      show ?thesis
      proof (cases "att + load sc t > cap")
        case over: True
        have "handled sc cap i att s (att + load sc t) (move t ts s) [t] []"
          by (rule handled_last [OF True _ pop(3) _ k less.prems(2) over]) (simp_all add: move_tasks move_credit pop(2))
        with run mv over ok(1) show ?thesis by auto
      next
        case False
        then obtain att' s' on off where r: "run pick sc cap (Suc i) (att + load sc t) (move t ts s) = Some (att', s')"
          "strat_ok s'" "handled sc cap (Suc i) (att + (if True then load sc t else 0)) (move t ts s) att' s' on off"
          using less.hyps [of "move t ts s" "att + load sc t" "Suc i"] ok(1) P(1) pop(4) by (auto simp: move_tasks not_less)
        have "handled sc cap i att s att' s' (if True then t # on else on) (if True then off else t # off)"
          by (rule handled_cons [OF r(3) True _ pop(3) _ k]) (simp_all add: move_tasks move_credit pop(2) P(2))
        with run mv False r(1,2) show ?thesis by auto
      qed
    next
      case mv: False
      then obtain att' s' on off where r: "run pick sc cap (Suc i) att (stay t ts s) = Some (att', s')"
        "strat_ok s'" "handled sc cap (Suc i) (att + (if False then load sc t else 0)) (stay t ts s) att' s' on off"
        using less.hyps [of "stay t ts s" att "Suc i"] ok(2) P(1) pop(4) less.prems(2) by (auto simp: stay_tasks)
      have "handled sc cap i att s att' s' (if False then t # on else on) (if False then off else t # off)"
        by (rule handled_cons [OF r(3) True _ pop(3) _ k]) (simp_all add: stay_tasks stay_credit pop(2) P(2))
      with run mv r(1,2) show ?thesis by auto
    qed
  qed
qed

end

definition pa_move :: "cpu_task \<Rightarrow> cpu_task list \<Rightarrow> strat \<Rightarrow> strat" where
  "pa_move t ts s = s\<lparr>st_tasks := ts,
     st_onload_nums := (st_onload_nums s)[task_idx t := st_onload_nums s ! task_idx t - req_cnt t],
     st_credit := (st_credit s)[task_entry t := 1]\<rparr>"

definition pa_stay :: "cpu_task \<Rightarrow> cpu_task list \<Rightarrow> strat \<Rightarrow> strat" where
  "pa_stay t ts s = s\<lparr>st_tasks := ts, st_credit := (st_credit s)[task_entry t := 0]\<rparr>"

definition saved :: "cpu_task \<Rightarrow> strat \<Rightarrow> strat" where
  "saved t s = s\<lparr>st_old := (st_old s)[task_entry t := st_credit s ! task_entry t]\<rparr>"

lemma task_bounds:
  assumes "strat_ok s" "t \<in> set (st_tasks s)" "length (sc_counters sc) = COUNTER_TOTAL"
  shows "task_idx t < length (st_onload_nums s)" "task_entry t < length (st_credit s)" "task_entry t < length (st_old s)"
    "task_idx t < length (sc_counters sc)" "task_entry t < length (sc_counters sc)"
proof -
  have b: "task_idx t < MAX_COUNTER_NUM" "inner_idx t < SLOT_GRANULARITY" using assms(1,2) by (simp_all add: strat_ok_def)
  then have "task_entry t < COUNTER_TOTAL" by (simp add: task_entry_def entry_less)
  moreover have "task_idx t < COUNTER_TOTAL" using b(1) by (simp add: layout_consts)
  ultimately show "task_idx t < length (st_onload_nums s)" "task_entry t < length (st_credit s)" "task_entry t < length (st_old s)"
    "task_idx t < length (sc_counters sc)" "task_entry t < length (sc_counters sc)"
    using assms(1,3) b(1) by (simp_all add: strat_ok_def)
qed

lemma accept_eq:
  assumes "strat_ok s" "t \<in> set (st_tasks s)" "length (sc_counters sc) = COUNTER_TOTAL"
  shows "accept sc t (s\<lparr>st_tasks := ts\<rparr>) = Some (moves sc s t)"
  using task_bounds [OF assms] by (simp add: accept_def moves_def c_access)

lemma onload_task_eq:
  "task_idx t < length (st_onload_nums s) \<Longrightarrow> task_entry t < length (st_credit s) \<Longrightarrow>
    onload_task t s = Some (pa_move t (st_tasks s) s)"
  by (simp add: onload_task_def pa_move_def set_credit_eq c_access flip: task_entry_def)

lemma zipf_task:
  assumes "length (sc_counters sc) = COUNTER_TOTAL" "strat_ok s" "i < length (st_tasks s)"
    "pop_task pick (st_tasks s) = Some (t, ts)" "t \<in> set (st_tasks s)"
  shows "zipf_onload pick sc cap i att s =
    (if moves sc s t
     then if att + load sc t > cap then Some (att + load sc t, pa_move t ts (saved t s))
          else zipf_onload pick sc cap (Suc i) (att + load sc t) (pa_move t ts (saved t s))
     else zipf_onload pick sc cap (Suc i) att (pa_stay t ts (saved t s)))"
proof -
  note B = task_bounds [OF assms(2,5,1)] and acc = accept_eq [OF assms(2,5,1), of ts]
  have sv: "save_credit (task_entry t) (s\<lparr>st_tasks := ts\<rparr>) = Some ((saved t s)\<lparr>st_tasks := ts\<rparr>)"
    using B by (simp add: save_credit_eq saved_def)
  have on: "onload_task t ((saved t s)\<lparr>st_tasks := ts\<rparr>) = Some (pa_move t ts (saved t s))"
    using B onload_task_eq [of t "(saved t s)\<lparr>st_tasks := ts\<rparr>"] by (simp add: pa_move_def saved_def)
  have off: "set_credit (task_entry t) 0 ((saved t s)\<lparr>st_tasks := ts\<rparr>) = Some (pa_stay t ts (saved t s))"
    using B by (simp add: set_credit_eq pa_stay_def saved_def)
  have cnt: "arr_get (sc_counters sc) (task_entry t) = Some (load sc t)" using B by (simp add: c_access load_def)
  have id: "(pa_move t ts u)\<lparr>st_tasks := ts\<rparr> = pa_move t ts u" "(pa_stay t ts u)\<lparr>st_tasks := ts\<rparr> = pa_stay t ts u" for u
    by (simp_all add: pa_move_def pa_stay_def)
  show ?thesis
    unfolding zipf_onload.simps [of pick sc cap i att s] using assms(3,4) acc sv on off cnt
    by (simp add: id flip: task_entry_def)
qed

lemma pa_task:
  assumes "length (sc_counters sc) = COUNTER_TOTAL" "strat_ok s" "i < length (st_tasks s)"
    "pop_task pick (st_tasks s) = Some (t, ts)" "t \<in> set (st_tasks s)" "att \<le> cap"
  shows "pa_onload pick sc cap i att s =
    (if moves sc s t
     then if att + load sc t > cap then Some (att + load sc t, pa_move t ts s)
          else pa_onload pick sc cap (Suc i) (att + load sc t) (pa_move t ts s)
     else pa_onload pick sc cap (Suc i) att (pa_stay t ts s))"
proof -
  note B = task_bounds [OF assms(2,5,1)] and acc = accept_eq [OF assms(2,5,1), of ts]
  have on: "onload_task t (s\<lparr>st_tasks := ts\<rparr>) = Some (pa_move t ts s)"
    using B onload_task_eq [of t "s\<lparr>st_tasks := ts\<rparr>"] by (simp add: pa_move_def)
  have off: "set_credit (task_entry t) 0 (s\<lparr>st_tasks := ts\<rparr>) = Some (pa_stay t ts s)"
    using B by (simp add: set_credit_eq pa_stay_def)
  have cnt: "arr_get (sc_counters sc) (task_entry t) = Some (load sc t)" using B by (simp add: c_access load_def)
  have id: "(pa_move t ts u)\<lparr>st_tasks := ts\<rparr> = pa_move t ts u" "(pa_stay t ts u)\<lparr>st_tasks := ts\<rparr> = pa_stay t ts u" for u
    by (simp_all add: pa_move_def pa_stay_def)
  have na: "\<not> cap < att" using assms(6) by (simp only: not_less)
  have stop: "n > cap \<Longrightarrow> pa_onload pick sc cap j n u = Some (n, u)" for n j u by (simp add: pa_onload.simps)
  show ?thesis
    unfolding pa_onload.simps [of pick sc cap i att s] using assms(3,4) acc on off cnt na
    by (simp add: id stop flip: task_entry_def)
qed

interpretation zl: task_loop zipf_onload "\<lambda>t ts s. pa_move t ts (saved t s)" "\<lambda>t ts s. pa_stay t ts (saved t s)"
  by unfold_locales (simp_all add: zipf_task, simp_all add: zipf_onload.simps pa_move_def pa_stay_def saved_def)

interpretation pl: task_loop pa_onload pa_move pa_stay
  by unfold_locales (simp_all add: pa_task, simp_all add: pa_onload.simps pa_move_def pa_stay_def)

section \<open>Hot and cold slots\<close>

definition hot :: "scan \<Rightarrow> u64 \<Rightarrow> nat \<Rightarrow> bool" where
  "hot sc over_thres i \<longleftrightarrow> over_thres \<le> sc_real sc ! i"

definition task_of :: "scan \<Rightarrow> nat \<Rightarrow> nat \<Rightarrow> cpu_task" where
  "task_of sc i j = \<lparr>req_cnt = sc_counters sc ! entry i j, task_idx = i, inner_idx = j\<rparr>"

definition slot_tasks :: "scan \<Rightarrow> nat \<Rightarrow> nat \<Rightarrow> cpu_task list" where
  "slot_tasks sc i n = map (task_of sc i) (filter (\<lambda>j. sc_counters sc ! entry i j > 0) [0..<n])"

definition hot_tasks :: "scan \<Rightarrow> u64 \<Rightarrow> nat \<Rightarrow> cpu_task list" where
  "hot_tasks sc over_thres n = concat (map (\<lambda>i. if hot sc over_thres i then slot_tasks sc i SLOT_GRANULARITY else []) [0..<n])"

definition sc_ok :: "scan \<Rightarrow> bool" where
  "sc_ok sc \<longleftrightarrow> length (sc_counters sc) = COUNTER_TOTAL \<and> length (sc_c_counters sc) = COUNTER_TOTAL \<and>
     length (sc_real sc) = MAX_COUNTER_NUM"

lemma scan_ok_sc_ok: "scan_ok nr sc \<Longrightarrow> sc_ok sc"
  by (simp add: scan_ok_def sc_ok_def)

lemma slot_tasks_Suc:
  "slot_tasks sc i (Suc n) = slot_tasks sc i n @ (if sc_counters sc ! entry i n > 0 then [task_of sc i n] else [])"
  by (simp add: slot_tasks_def)

lemma hot_tasks_Suc:
  "hot_tasks sc over_thres (Suc n) =
    hot_tasks sc over_thres n @ (if hot sc over_thres n then slot_tasks sc n SLOT_GRANULARITY else [])"
  by (simp add: hot_tasks_def)

lemma set_slot_tasks: "t \<in> set (slot_tasks sc i n) \<longleftrightarrow> (\<exists>j < n. sc_counters sc ! entry i j > 0 \<and> t = task_of sc i j)"
  by (auto simp: slot_tasks_def)

lemma set_hot_tasks: "t \<in> set (hot_tasks sc over_thres n) \<longleftrightarrow>
    (\<exists>i < n. \<exists>j < SLOT_GRANULARITY. hot sc over_thres i \<and> sc_counters sc ! entry i j > 0 \<and> t = task_of sc i j)"
  by (auto simp: hot_tasks_def set_slot_tasks split: if_splits)

lemma task_of_sel [simp]: "task_idx (task_of sc i j) = i" "inner_idx (task_of sc i j) = j"
  "task_entry (task_of sc i j) = entry i j" "req_cnt (task_of sc i j) = sc_counters sc ! entry i j"
  by (simp_all add: task_of_def task_entry_def)

lemma distinct_hot_tasks: "n \<le> MAX_COUNTER_NUM \<Longrightarrow> distinct (map task_entry (hot_tasks sc over_thres n))"
proof (induction n)
  case 0
  then show ?case by (simp add: hot_tasks_def)
next
  case (Suc n)
  have n: "n < MAX_COUNTER_NUM" using Suc.prems by simp
  have "map task_entry (slot_tasks sc n SLOT_GRANULARITY) =
      map (entry n) (filter (\<lambda>j. sc_counters sc ! entry n j > 0) [0..<SLOT_GRANULARITY])"
    by (simp add: slot_tasks_def o_def)
  moreover have "inj (entry n)" using n by (auto simp: inj_on_def entry_inj)
  ultimately have d: "distinct (map task_entry (slot_tasks sc n SLOT_GRANULARITY))"
    by (simp add: distinct_map inj_on_subset [OF _ subset_UNIV])
  have "task_entry ` set (hot_tasks sc over_thres n) \<inter> task_entry ` set (slot_tasks sc n SLOT_GRANULARITY) = {}"
    using n by (auto simp: set_hot_tasks set_slot_tasks entry_inj)
  with d Suc show ?case by (simp add: hot_tasks_Suc)
qed

section \<open>Marking the slots\<close>

lemma push_tasks_ok:
  assumes "sc_ok sc" "i < MAX_COUNTER_NUM" "n \<le> SLOT_GRANULARITY"
  shows "for_loop 0 n (push_task sc i) s = Some (s\<lparr>st_tasks := st_tasks s @ slot_tasks sc i n\<rparr>)"
proof -
  have "\<exists>s'. for_loop 0 n (push_task sc i) s = Some s' \<and> s' = s\<lparr>st_tasks := st_tasks s @ slot_tasks sc i n\<rparr>"
  proof (rule for_loop_inv [where I = "\<lambda>j s'. s' = s\<lparr>st_tasks := st_tasks s @ slot_tasks sc i j\<rparr>"], goal_cases)
    case (3 j s1)
    then have "entry i j < length (sc_counters sc)" using assms entry_less [of i j] by (simp add: sc_ok_def)
    with 3 show ?case by (simp add: push_task_def c_access slot_tasks_Suc task_of_def)
  qed (simp_all add: slot_tasks_def)
  then show ?thesis by simp
qed

text \<open>
  The entries of a cold slot whose operations go back to the card: the credits of the set \<open>R\<close> are
  cleared, and the slot with the load of \<open>R\<close> stays below the threshold.
\<close>

definition moved_back :: "scan \<Rightarrow> u64 \<Rightarrow> nat \<Rightarrow> u16 list \<Rightarrow> u16 list \<Rightarrow> nat set \<Rightarrow> bool" where
  "moved_back sc over_thres i cr cr' R \<longleftrightarrow> R \<subseteq> {..<SLOT_GRANULARITY} \<and>
     (\<forall>k. cr' ! k = (if k \<in> entry i ` R then 0 else cr ! k)) \<and>
     (R \<noteq> {} \<longrightarrow> (\<Sum>j \<in> R. sc_c_counters sc ! entry i j) + sc_real sc ! i < over_thres)"

lemma reset_entry_ok:
  assumes "sc_ok sc" "i < MAX_COUNTER_NUM" "j < SLOT_GRANULARITY" "strat_ok s"
  shows "\<exists>s'. reset_entry keep_old sc over_thres i j (rc, s) =
    Some (if sc_c_counters sc ! entry i j + rc + sc_real sc ! i < over_thres then (rc + sc_c_counters sc ! entry i j, s') else (rc, s)) \<and>
    strat_ok s' \<and> st_tasks s' = st_tasks s \<and> st_onload_nums s' = st_onload_nums s \<and>
    st_credit s' = (st_credit s)[entry i j := 0]"
proof -
  have e: "entry i j < COUNTER_TOTAL" using assms(2,3) by (rule entry_less)
  let ?s0 = "if keep_old then s\<lparr>st_old := (st_old s)[entry i j := st_credit s ! entry i j]\<rparr> else s"
  have s0: "(if keep_old then save_credit (entry i j) s else Some s) = Some ?s0"
    using assms(4) e by (simp add: strat_ok_def save_credit_eq)
  have "set_credit (entry i j) 0 ?s0 = Some (?s0\<lparr>st_credit := (st_credit s)[entry i j := 0]\<rparr>)"
    using assms(4) e set_credit_eq [of "entry i j" ?s0 0] by (simp add: strat_ok_def)
  then have "reset_entry keep_old sc over_thres i j (rc, s) =
    Some (if sc_c_counters sc ! entry i j + rc + sc_real sc ! i < over_thres
      then (rc + sc_c_counters sc ! entry i j, ?s0\<lparr>st_credit := (st_credit s)[entry i j := 0]\<rparr>) else (rc, s))"
    using assms(1,2) e s0 by (simp add: reset_entry_def c_access sc_ok_def)
  moreover have "strat_ok (?s0\<lparr>st_credit := (st_credit s)[entry i j := 0]\<rparr>)" using assms(4) by (simp add: strat_ok_def)
  ultimately show ?thesis by (intro exI [of _ "?s0\<lparr>st_credit := (st_credit s)[entry i j := 0]\<rparr>"] conjI) simp_all
qed

lemma reset_entries_ok:
  assumes "sc_ok sc" "i < MAX_COUNTER_NUM" "strat_ok s"
  shows "\<exists>rc s' R. for_loop 0 SLOT_GRANULARITY (reset_entry keep_old sc over_thres i) (0, s) = Some (rc, s') \<and>
    strat_ok s' \<and> st_tasks s' = st_tasks s \<and> st_onload_nums s' = st_onload_nums s \<and>
    moved_back sc over_thres i (st_credit s) (st_credit s') R"
proof -
  define I where "I = (\<lambda>n (rc, s'). strat_ok s' \<and> st_tasks s' = st_tasks s \<and> st_onload_nums s' = st_onload_nums s \<and>
    (\<exists>R \<subseteq> {..<n}. rc = (\<Sum>j \<in> R. sc_c_counters sc ! entry i j) \<and> moved_back sc over_thres i (st_credit s) (st_credit s') R))"
  have "\<exists>s'. for_loop 0 SLOT_GRANULARITY (reset_entry keep_old sc over_thres i) (0, s) = Some s' \<and> I SLOT_GRANULARITY s'"
  proof (rule for_loop_inv)
    show "I 0 (0, s)" using assms(3) by (simp add: I_def moved_back_def)
  next
    fix j and p :: "u64 \<times> strat" assume j: "j < SLOT_GRANULARITY" and I: "I j p"
    obtain rc s1 where p: "p = (rc, s1)" by (cases p)
    from I obtain R where R: "R \<subseteq> {..<j}" "rc = (\<Sum>j \<in> R. sc_c_counters sc ! entry i j)"
      "moved_back sc over_thres i (st_credit s) (st_credit s1) R" and s1: "strat_ok s1" "st_tasks s1 = st_tasks s"
      "st_onload_nums s1 = st_onload_nums s" unfolding I_def p by auto
    obtain s2 where s2: "reset_entry keep_old sc over_thres i j (rc, s1) =
        Some (if sc_c_counters sc ! entry i j + rc + sc_real sc ! i < over_thres then (rc + sc_c_counters sc ! entry i j, s2) else (rc, s1))"
      "strat_ok s2" "st_tasks s2 = st_tasks s1" "st_onload_nums s2 = st_onload_nums s1" "st_credit s2 = (st_credit s1)[entry i j := 0]"
      using reset_entry_ok [OF assms(1,2) j s1(1)] by blast
    show "\<exists>p'. reset_entry keep_old sc over_thres i j p = Some p' \<and> I (Suc j) p'"
    proof (cases "sc_c_counters sc ! entry i j + rc + sc_real sc ! i < over_thres")
      case False
      with R s1 s2(1) show ?thesis by (auto simp: p I_def intro!: exI [of _ R])
    next
      case True
      have fin: "finite R" "j \<notin> R" using R(1) finite_subset by auto
      have "entry i j < length (st_credit s1)" using s1(1) entry_less [OF assms(2) j] by (simp add: strat_ok_def)
      then have "st_credit s2 ! k = (if k \<in> entry i ` insert j R then 0 else st_credit s ! k)" for k
        using R(3) by (simp add: s2(5) moved_back_def nth_list_update)
      moreover have "insert j R \<subseteq> {..<SLOT_GRANULARITY}" using R(1) j by auto
      ultimately have "moved_back sc over_thres i (st_credit s) (st_credit s2) (insert j R)"
        using True fin R(2) by (simp add: moved_back_def)
      moreover have "insert j R \<subseteq> {..<Suc j}" using R(1) by auto
      moreover have "rc + sc_c_counters sc ! entry i j = (\<Sum>j \<in> insert j R. sc_c_counters sc ! entry i j)"
        using R(2) fin by (simp add: add.commute)
      ultimately have "I (Suc j) (rc + sc_c_counters sc ! entry i j, s2)"
        unfolding I_def prod.case using s1 s2(2-4) by (intro conjI exI [of _ "insert j R"]) (simp_all only:)
      with s2(1) True show ?thesis by (simp add: p)
    qed
  qed simp
  then show ?thesis unfolding I_def by fastforce
qed

text \<open>What either strategy does to one slot.\<close>

definition slot_effect :: "scan \<Rightarrow> u64 \<Rightarrow> u64 \<Rightarrow> nat \<Rightarrow> strat \<Rightarrow> strat \<Rightarrow> bool" where
  "slot_effect sc over_thres req_per_slot i s s' \<longleftrightarrow> strat_ok s' \<and>
     (if hot sc over_thres i
      then st_tasks s' = st_tasks s @ slot_tasks sc i SLOT_GRANULARITY \<and> st_credit s' = st_credit s \<and>
        st_onload_nums s' = (st_onload_nums s)[i := sc_real sc ! i - req_per_slot]
      else st_tasks s' = st_tasks s \<and> st_onload_nums s' = st_onload_nums s \<and>
        (\<exists>R. moved_back sc over_thres i (st_credit s) (st_credit s') R))"

lemma strat_ok_tasks:
  "strat_ok s \<Longrightarrow> i < MAX_COUNTER_NUM \<Longrightarrow> n \<le> SLOT_GRANULARITY \<Longrightarrow> strat_ok (s\<lparr>st_tasks := st_tasks s @ slot_tasks sc i n\<rparr>)"
  by (auto simp: strat_ok_def set_slot_tasks)

lemma note_excess_eq:
  assumes "sc_ok sc" "i < MAX_COUNTER_NUM" "strat_ok s"
  shows "note_excess sc req_per_slot i s = Some (s\<lparr>st_onload_nums := (st_onload_nums s)[i := sc_real sc ! i - req_per_slot],
    st_over_count := st_over_count s + (sc_real sc ! i - req_per_slot), st_thres_count := st_thres_count s + sc_real sc ! i\<rparr>)"
  using assms by (simp add: note_excess_def c_access sc_ok_def strat_ok_def)

lemma zipf_slot_ok:
  assumes "sc_ok sc" "i < MAX_COUNTER_NUM" "strat_ok s"
  shows "\<exists>s'. zipf_slot sc over_thres req_per_slot i s = Some s' \<and> slot_effect sc over_thres req_per_slot i s s'"
proof -
  have r: "arr_get (sc_real sc) i = Some (sc_real sc ! i)" using assms by (simp add: c_access sc_ok_def)
  show ?thesis
  proof (cases "hot sc over_thres i")
    case True
    let ?s = "s\<lparr>st_tasks := st_tasks s @ slot_tasks sc i SLOT_GRANULARITY\<rparr>"
    have ok: "strat_ok ?s" using strat_ok_tasks [OF assms(3,2)] by simp
    have "zipf_slot sc over_thres req_per_slot i s = note_excess sc req_per_slot i ?s"
      using True r push_tasks_ok [OF assms(1,2) order_refl, of s] by (simp add: zipf_slot_def hot_def)
    with True ok show ?thesis unfolding note_excess_eq [OF assms(1,2) ok] by (simp add: slot_effect_def strat_ok_def)
  next
    case False
    obtain rc s' R where "for_loop 0 SLOT_GRANULARITY (reset_entry True sc over_thres i) (0, s) = Some (rc, s')"
      "strat_ok s'" "st_tasks s' = st_tasks s" "st_onload_nums s' = st_onload_nums s"
      "moved_back sc over_thres i (st_credit s) (st_credit s') R"
      using reset_entries_ok [OF assms, of True over_thres] by blast
    with False r show ?thesis by (auto simp: zipf_slot_def hot_def slot_effect_def)
  qed
qed

lemma pa_hot_ok:
  assumes "sc_ok sc" "i < MAX_COUNTER_NUM" "strat_ok s"
  shows "\<exists>s'. for_loop 0 SLOT_GRANULARITY (\<lambda>j s. do { s \<leftarrow> push_task sc i j s; note_excess sc req_per_slot i s }) s = Some s' \<and>
    strat_ok s' \<and> st_tasks s' = st_tasks s @ slot_tasks sc i SLOT_GRANULARITY \<and> st_credit s' = st_credit s \<and>
    st_onload_nums s' = (if SLOT_GRANULARITY = 0 then st_onload_nums s
      else (st_onload_nums s)[i := sc_real sc ! i - req_per_slot])"
proof (rule for_loop_inv [where I = "\<lambda>n s'. strat_ok s' \<and> st_tasks s' = st_tasks s @ slot_tasks sc i n \<and> st_credit s' = st_credit s \<and>
    st_onload_nums s' = (if n = 0 then st_onload_nums s else (st_onload_nums s)[i := sc_real sc ! i - req_per_slot])"], goal_cases)
  case (3 j s1)
  let ?s2 = "s1\<lparr>st_tasks := st_tasks s @ slot_tasks sc i (Suc j)\<rparr>"
  have "push_task sc i j s1 = Some ?s2"
    using 3 assms entry_less [of i j] by (simp add: push_task_def c_access sc_ok_def slot_tasks_Suc task_of_def)
  moreover have ok: "strat_ok ?s2" using 3 strat_ok_tasks [OF assms(3,2), of "Suc j" sc] by (auto simp: strat_ok_def)
  moreover note note_excess_eq [OF assms(1,2) ok, of req_per_slot]
  ultimately show ?case using 3 by (simp add: strat_ok_def split: if_splits)
qed (use assms in \<open>simp_all add: slot_tasks_def\<close>)

lemma pa_slot_ok:
  assumes "sc_ok sc" "i < MAX_COUNTER_NUM" "strat_ok s"
  shows "\<exists>s'. pa_slot sc over_thres req_per_slot i s = Some s' \<and> slot_effect sc over_thres req_per_slot i s s'"
proof -
  have r: "arr_get (sc_real sc) i = Some (sc_real sc ! i)" using assms by (simp add: c_access sc_ok_def)
  show ?thesis
  proof (cases "hot sc over_thres i")
    case True
    have "SLOT_GRANULARITY \<noteq> 0" by (simp add: SLOT_GRANULARITY_def)
    with pa_hot_ok [OF assms, of req_per_slot] True r show ?thesis by (auto simp: pa_slot_def hot_def slot_effect_def)
  next
    case False
    obtain rc s' R where "for_loop 0 SLOT_GRANULARITY (reset_entry False sc over_thres i) (0, s) = Some (rc, s')"
      "strat_ok s'" "st_tasks s' = st_tasks s" "st_onload_nums s' = st_onload_nums s"
      "moved_back sc over_thres i (st_credit s) (st_credit s') R"
      using reset_entries_ok [OF assms, of False over_thres] by blast
    with False r show ?thesis by (auto simp: pa_slot_def hot_def slot_effect_def)
  qed
qed

text \<open>The state after the first \<open>n\<close> slots.\<close>

definition marked_slots :: "scan \<Rightarrow> u64 \<Rightarrow> nat \<Rightarrow> strat \<Rightarrow> strat \<Rightarrow> bool" where
  "marked_slots sc over_thres n s s' \<longleftrightarrow> strat_ok s' \<and> st_tasks s' = st_tasks s @ hot_tasks sc over_thres n \<and>
     (\<forall>k < COUNTER_TOTAL. n \<le> k mod MAX_COUNTER_NUM \<or> hot sc over_thres (k mod MAX_COUNTER_NUM) \<longrightarrow> st_credit s' ! k = st_credit s ! k) \<and>
     (\<forall>i < n. \<not> hot sc over_thres i \<longrightarrow> (\<exists>R \<subseteq> {..<SLOT_GRANULARITY}.
        (\<forall>j < SLOT_GRANULARITY. st_credit s' ! entry i j = (if j \<in> R then 0 else st_credit s ! entry i j)) \<and>
        (R \<noteq> {} \<longrightarrow> (\<Sum>j \<in> R. sc_c_counters sc ! entry i j) + sc_real sc ! i < over_thres)))"

lemma marked_slots_step:
  assumes m: "marked_slots sc over_thres n s s1" and e: "slot_effect sc over_thres req_per_slot n s1 s2" and n: "n < MAX_COUNTER_NUM"
  shows "marked_slots sc over_thres (Suc n) s s2"
proof (cases "hot sc over_thres n")
  case True
  with m e show ?thesis by (auto simp: marked_slots_def slot_effect_def hot_tasks_Suc less_Suc_eq le_less_Suc_eq)
next
  case False
  then obtain R where R: "moved_back sc over_thres n (st_credit s1) (st_credit s2) R" and
    f: "strat_ok s2" "st_tasks s2 = st_tasks s1" using e by (auto simp: slot_effect_def)
  have cr: "st_credit s2 ! k = (if k \<in> entry n ` R then 0 else st_credit s1 ! k)" for k using R by (simp add: moved_back_def)
  have other: "st_credit s2 ! k = st_credit s1 ! k" if "k mod MAX_COUNTER_NUM \<noteq> n" for k
    using that cr [of k] entry_mod [OF n] by auto
  have same: "st_credit s1 ! entry n j = st_credit s ! entry n j" if "j < SLOT_GRANULARITY" for j
    using m entry_less [OF n that] entry_mod [OF n] by (simp add: marked_slots_def)
  have here: "st_credit s2 ! entry n j = (if j \<in> R then 0 else st_credit s ! entry n j)" if "j < SLOT_GRANULARITY" for j
    using cr [of "entry n j"] same [OF that] entry_inj [OF n n] by (auto simp: image_iff)
  have "R \<subseteq> {..<SLOT_GRANULARITY}" "R \<noteq> {} \<longrightarrow> (\<Sum>j \<in> R. sc_c_counters sc ! entry n j) + sc_real sc ! n < over_thres"
    using R by (simp_all add: moved_back_def)
  moreover have "st_credit s2 ! entry i j = st_credit s1 ! entry i j" if "i < n" for i j
    using that n entry_mod [of i j] by (intro other) simp
  moreover have "st_credit s2 ! k = st_credit s1 ! k" if "hot sc over_thres (k mod MAX_COUNTER_NUM)" for k
    using that False by (intro other) auto
  ultimately show ?thesis
    using m f False other here unfolding marked_slots_def by (auto simp: hot_tasks_Suc less_Suc_eq Suc_le_eq)
qed

lemma marked_slots_0: "strat_ok s \<Longrightarrow> marked_slots sc over_thres 0 s s"
  by (simp add: marked_slots_def hot_tasks_def)

lemma slots_ok:
  assumes "\<And>i s. i < MAX_COUNTER_NUM \<Longrightarrow> strat_ok s \<Longrightarrow> \<exists>s'. f i s = Some s' \<and> slot_effect sc over_thres req_per_slot i s s'" "strat_ok s"
  shows "\<exists>s'. for_loop 0 MAX_COUNTER_NUM f s = Some s' \<and> marked_slots sc over_thres MAX_COUNTER_NUM s s'"
proof (rule for_loop_inv)
  fix i s1 assume i: "i < MAX_COUNTER_NUM" and m: "marked_slots sc over_thres i s s1"
  then obtain s2 where "f i s1 = Some s2" "slot_effect sc over_thres req_per_slot i s1 s2"
    using assms(1) [of i s1] by (auto simp: marked_slots_def)
  with marked_slots_step [OF m _ i] show "\<exists>s'. f i s1 = Some s' \<and> marked_slots sc over_thres (Suc i) s s'" by blast
qed (use assms(2) marked_slots_0 in simp_all)

section \<open>A strategy as a whole\<close>

text \<open>
  What a strategy for a skewed load does: of the tasks of the hot slots, \<open>on\<close> are moved to the CPU and
  \<open>off\<close> are refused, the others and the rest of their slots keep their credits; cold slots only give
  credits back, and only as long as the card stays below the threshold.
\<close>

definition offloaded :: "scan \<Rightarrow> u64 \<Rightarrow> u64 \<Rightarrow> u16 list \<Rightarrow> u16 list \<Rightarrow> cpu_task list \<Rightarrow> cpu_task list \<Rightarrow> cpu_task list \<Rightarrow> bool" where
  "offloaded sc cap over_thres cr cr' on off rest \<longleftrightarrow>
     mset (hot_tasks sc over_thres MAX_COUNTER_NUM) = mset on + mset off + mset rest \<and>
     (\<forall>k < COUNTER_TOTAL. hot sc over_thres (k mod MAX_COUNTER_NUM) \<longrightarrow>
        cr' ! k = (if k \<in> task_entry ` set on then 1 else if k \<in> task_entry ` set off then 0 else cr ! k)) \<and>
     (\<forall>i < MAX_COUNTER_NUM. \<not> hot sc over_thres i \<longrightarrow> (\<exists>R \<subseteq> {..<SLOT_GRANULARITY}.
        (\<forall>j < SLOT_GRANULARITY. cr' ! entry i j = (if j \<in> R then 0 else cr ! entry i j)) \<and>
        (R \<noteq> {} \<longrightarrow> (\<Sum>j \<in> R. sc_c_counters sc ! entry i j) + sc_real sc ! i < over_thres))) \<and>
     ((\<Sum>t \<leftarrow> on. load sc t) \<le> cap \<or> on \<noteq> [] \<and> (\<Sum>t \<leftarrow> butlast on. load sc t) \<le> cap) \<and>
     (\<forall>t \<in> set on \<union> set off. \<forall>u \<in> set rest. req_cnt u \<le> req_cnt t) \<and>
     length on + length off \<le> (length (hot_tasks sc over_thres MAX_COUNTER_NUM) + 1) div 2 \<and>
     ((\<Sum>t \<leftarrow> on. load sc t) \<le> cap \<longrightarrow>
        length on + length off = (length (hot_tasks sc over_thres MAX_COUNTER_NUM) + 1) div 2)"

lemma offloadedI:
  assumes m: "marked_slots sc over_thres MAX_COUNTER_NUM s s1" and h: "handled sc cap 0 0 s1 att s' on off" and t: "st_tasks s = []"
  shows "offloaded sc cap over_thres (st_credit s) (st_credit s') on off (st_tasks s')"
proof -
  have T: "st_tasks s1 = hot_tasks sc over_thres MAX_COUNTER_NUM" using m t by (simp add: marked_slots_def)
  note c = h [unfolded handled_def T]
  note H1 = conjunct1 [OF c] and c = conjunct2 [OF c]
  note H2 = conjunct1 [OF c, rule_format] and c = conjunct2 [OF c]
  note H3 = conjunct1 [OF c] and c = conjunct2 [OF c]
  note m' = m [unfolded marked_slots_def]
  have sub: "set on \<union> set off \<subseteq> set (hot_tasks sc over_thres MAX_COUNTER_NUM)"
    using arg_cong [OF H1, of set_mset] by auto
  have hot: "hot sc over_thres (task_entry t mod MAX_COUNTER_NUM)" if "t \<in> set on \<union> set off" for t
    using that sub by (auto simp: set_hot_tasks entry_mod dest!: subsetD)
  have cold: "st_credit s' ! entry i j = st_credit s1 ! entry i j"
    if "i < MAX_COUNTER_NUM" "\<not> hot sc over_thres i" "j < SLOT_GRANULARITY" for i j
  proof -
    have "entry i j \<notin> task_entry ` set on" "entry i j \<notin> task_entry ` set off"
      using that(2) hot entry_mod(1) [OF that(1), of j] by auto
    with H2 [OF entry_less [OF that(1,3)]] show ?thesis by simp
  qed
  show ?thesis unfolding offloaded_def
  proof (intro conjI)
    show "\<forall>k < COUNTER_TOTAL. hot sc over_thres (k mod MAX_COUNTER_NUM) \<longrightarrow> st_credit s' ! k =
      (if k \<in> task_entry ` set on then 1 else if k \<in> task_entry ` set off then 0 else st_credit s ! k)"
      using H2 m' by simp
    show "\<forall>i < MAX_COUNTER_NUM. \<not> hot sc over_thres i \<longrightarrow> (\<exists>R \<subseteq> {..<SLOT_GRANULARITY}.
        (\<forall>j < SLOT_GRANULARITY. st_credit s' ! entry i j = (if j \<in> R then 0 else st_credit s ! entry i j)) \<and>
        (R \<noteq> {} \<longrightarrow> (\<Sum>j \<in> R. sc_c_counters sc ! entry i j) + sc_real sc ! i < over_thres))"
      using m' cold by (simp add: cold)
  qed (use H1 H3 c in \<open>simp_all\<close>)
qed

lemma zipf_ok:
  assumes "sc_ok sc" "pick_ok pick" "strat_ok s" "st_tasks s = []"
  shows "\<exists>s' on off rest. zipf pick sc cap over_thres req_per_slot s = Some s' \<and> strat_ok s' \<and>
    offloaded sc cap over_thres (st_credit s) (st_credit s') on off rest"
proof -
  obtain s1 where s1: "for_loop 0 MAX_COUNTER_NUM (zipf_slot sc over_thres req_per_slot) s = Some s1"
    "marked_slots sc over_thres MAX_COUNTER_NUM s s1"
    using slots_ok [of "zipf_slot sc over_thres req_per_slot", OF zipf_slot_ok [OF assms(1)] assms(3)] by blast
  have "strat_ok s1" "distinct (map task_entry (st_tasks s1))"
    using s1(2) assms(4) distinct_hot_tasks by (simp_all add: marked_slots_def)
  then obtain att s' on off where "zipf_onload pick sc cap 0 0 s1 = Some (att, s')" "strat_ok s'" "handled sc cap 0 0 s1 att s' on off"
    using zl.run_ok [of sc pick s1 0 cap 0] assms(1,2) by (auto simp: sc_ok_def)
  with s1 offloadedI [OF s1(2) _ assms(4)] show ?thesis by (fastforce simp: zipf_def)
qed

lemma pa_zipf_ok:
  assumes "sc_ok sc" "pick_ok pick" "strat_ok s" "st_tasks s = []"
  shows "\<exists>s' on off rest. pa_zipf pick sc cap over_thres req_per_slot s = Some s' \<and> strat_ok s' \<and>
    offloaded sc cap over_thres (st_credit s) (st_credit s') on off rest"
proof -
  obtain s1 where s1: "for_loop 0 MAX_COUNTER_NUM (pa_slot sc over_thres req_per_slot) s = Some s1"
    "marked_slots sc over_thres MAX_COUNTER_NUM s s1"
    using slots_ok [of "pa_slot sc over_thres req_per_slot", OF pa_slot_ok [OF assms(1)] assms(3)] by blast
  have "strat_ok s1" "distinct (map task_entry (st_tasks s1))"
    using s1(2) assms(4) distinct_hot_tasks by (simp_all add: marked_slots_def)
  then obtain att s' on off where "pa_onload pick sc cap 0 0 s1 = Some (att, s')" "strat_ok s'" "handled sc cap 0 0 s1 att s' on off"
    using pl.run_ok [of sc pick s1 0 cap 0] assms(1,2) by (auto simp: sc_ok_def)
  with s1 offloadedI [OF s1(2) _ assms(4)] show ?thesis by (fastforce simp: pa_zipf_def)
qed

text \<open>Credits are 0 or 1.\<close>

definition binary :: "u16 list \<Rightarrow> bool" where
  "binary cr \<longleftrightarrow> (\<forall>k < COUNTER_TOTAL. cr ! k \<in> {0, 1})"

lemma offloaded_binary:
  assumes "offloaded sc cap over_thres cr cr' on off rest" "binary cr"
  shows "binary cr'"
  unfolding binary_def
proof (intro allI impI)
  fix k assume k: "k < COUNTER_TOTAL"
  let ?i = "k mod MAX_COUNTER_NUM" and ?j = "k div MAX_COUNTER_NUM"
  note e = entry_split [OF k] and o = assms(1) [unfolded offloaded_def]
  show "cr' ! k \<in> {0, 1}"
  proof (cases "hot sc over_thres ?i")
    case True
    then have "cr' ! k = (if k \<in> task_entry ` set on then 1 else if k \<in> task_entry ` set off then 0 else cr ! k)" using o k by blast
    with assms(2) k show ?thesis by (auto simp: binary_def)
  next
    case False
    then obtain R where "\<forall>j < SLOT_GRANULARITY. cr' ! entry ?i j = (if j \<in> R then 0 else cr ! entry ?i j)" using o e by blast
    then have "cr' ! entry ?i ?j = (if ?j \<in> R then 0 else cr ! entry ?i ?j)" using e by blast
    then have "cr' ! k = (if ?j \<in> R then 0 else cr ! k)" using e by metis
    with assms(2) k show ?thesis by (auto simp: binary_def)
  qed
qed

section \<open>Fixed strategies and the uniform load\<close>

lemma set_credits_ok:
  assumes "strat_ok s" "n \<le> COUNTER_TOTAL"
  shows "for_loop 0 n (\<lambda>i. set_credit i v) s = Some (s\<lparr>st_credit := replicate n v @ drop n (st_credit s)\<rparr>)"
proof -
  have len: "length (st_credit s) = COUNTER_TOTAL" using assms(1) by (simp add: strat_ok_def)
  have "\<exists>s'. for_loop 0 n (\<lambda>i. set_credit i v) s = Some s' \<and> s' = s\<lparr>st_credit := replicate n v @ drop n (st_credit s)\<rparr>"
  proof (rule for_loop_inv [where I = "\<lambda>n s'. s' = s\<lparr>st_credit := replicate n v @ drop n (st_credit s)\<rparr>"], goal_cases)
    case (3 i s1)
    then have "(replicate i v @ drop i (st_credit s))[i := v] = replicate (Suc i) v @ drop (Suc i) (st_credit s)"
      using len assms(2) by (simp add: list_update_append Cons_nth_drop_Suc [symmetric] replicate_append_same)
    with 3 len assms(2) show ?case by (simp add: set_credit_eq)
  qed simp_all
  then show ?thesis by simp
qed

lemma fill_credit_eq: "strat_ok s \<Longrightarrow> fill_credit v s = Some (s\<lparr>st_credit := replicate COUNTER_TOTAL v\<rparr>)"
  using set_credits_ok [of s COUNTER_TOTAL v] by (simp add: fill_credit_def strat_ok_def)

lemma bit_len_le: "n < 2 ^ k \<Longrightarrow> bit_len n \<le> k"
proof (induction k arbitrary: n)
  case (Suc k)
  have "n div 2 < 2 ^ k" using Suc.prems by (simp add: less_mult_imp_div_less)
  then have "bit_len (n div 2) \<le> k" by (rule Suc.IH)
  then show ?case by (subst bit_len.simps) simp
qed (simp add: bit_len.simps)

lemma bit_len_mono: "a \<le> b \<Longrightarrow> bit_len a \<le> bit_len b"
proof (induction b arbitrary: a rule: bit_len.induct)
  case (1 b)
  show ?case
  proof (cases "b = 0")
    case False
    then have "bit_len (a div 2) \<le> bit_len (b div 2)" using 1 by (simp add: div_le_mono)
    with False show ?thesis by (subst (1 2) bit_len.simps) simp
  qed (use 1 in simp)
qed

lemma round_div_1: "round_div n 1 = n"
  by (simp add: round_div_def)

lemma round_sig_exact: "n < 2 ^ 53 \<Longrightarrow> round_sig n = n"
  using bit_len_le [of n 53] by (simp add: round_sig_def round_div_1 [simplified])

lemma round_div_le: "0 < b \<Longrightarrow> a \<le> b * m \<Longrightarrow> round_div a b \<le> m"
proof -
  assume b: "0 < b" and le: "a \<le> b * m"
  have "a div b \<le> m" using le b by (metis div_le_mono nonzero_mult_div_cancel_left not_gr_zero)
  show ?thesis
  proof (cases "a div b = m")
    case True
    have "b * (a div b) + a mod b = a" by simp
    then have "a mod b = 0" using le True by simp
    with True b show ?thesis by (simp add: round_div_def)
  next
    case False
    with \<open>a div b \<le> m\<close> have "a div b + 1 \<le> m" by simp
    then show ?thesis by (simp add: round_div_def Let_def)
  qed
qed

text \<open>A share of at most one rounds to at most all parts.\<close>

lemma round_share_le:
  assumes "unat a \<le> unat b" "0 < unat b" "unat b < 2 ^ 53"
  shows "\<exists>n. round_share a b parts = Some n \<and> n \<le> parts"
proof -
  have sig: "round_sig (unat a) = unat a" "round_sig (unat b) = unat b" using assms round_sig_exact by auto
  define s0 where "s0 = 53 + int (bit_len (unat b)) - int (bit_len (unat a))"
  define s where "s = (if unat b * 2 ^ 53 * 2 ^ nat (- s0) \<le> unat a * 2 ^ nat s0 then s0 - 1 else s0)"
  define q where "q = round_div (unat a * 2 ^ nat s) (unat b * 2 ^ nat (- s))"
  have "0 \<le> s" using bit_len_mono [OF assms(1)] by (simp add: s_def s0_def)
  then have neg: "nat (- s) = 0" by simp
  have "q \<le> 2 ^ nat s" unfolding q_def neg using assms by (intro round_div_le) simp_all
  then have "(2 * q * parts + S) div (2 * S) \<le> parts" if "S = 2 ^ nat s" for S
  proof -
    have "0 < S" "q \<le> S" using that \<open>q \<le> 2 ^ nat s\<close> by simp_all
    have "2 * q * parts + S \<le> 2 * S * parts + S" using \<open>q \<le> S\<close> by (intro add_le_mono mult_le_mono order_refl)
    also have "\<dots> < Suc parts * (2 * S)" using \<open>0 < S\<close> by (simp add: algebra_simps)
    finally show ?thesis using \<open>0 < S\<close> by (simp only: less_Suc_eq_le [symmetric] div_less_iff_less_mult mult_pos_pos zero_less_numeral)
  qed
  moreover have "round_share a b parts = Some ((2 * q * parts * 2 ^ nat (- s) + 2 ^ nat s) div (2 * 2 ^ nat s))"
    using assms(2) unfolding round_share_def sig Let_def s0_def [symmetric] s_def [symmetric] q_def [symmetric] by simp
  ultimately show ?thesis by (simp add: neg)
qed

lemma pa_uniform_ok:
  assumes "strat_ok s" "unat cap + 7000000 < 2 ^ 53"
  shows "\<exists>n \<le> SLOT_GRANULARITY. round_share cap (cap + RNIC_CAP_W_PA) SLOT_GRANULARITY = Some n \<and>
    pa_uniform cap s = Some (s\<lparr>st_credit := replicate (MAX_COUNTER_NUM * n) 1 @ drop (MAX_COUNTER_NUM * n) (st_credit s)\<rparr>)"
proof -
  have r: "unat (RNIC_CAP_W_PA) = 7000000" by (simp add: RNIC_CAP_W_PA_def)
  have b: "unat (cap + RNIC_CAP_W_PA) = unat cap + 7000000"
    using assms(2) unat_add_no_wrap [of cap RNIC_CAP_W_PA] by (simp add: r)
  obtain n where n: "round_share cap (cap + RNIC_CAP_W_PA) SLOT_GRANULARITY = Some n" "n \<le> SLOT_GRANULARITY"
    using round_share_le [of cap "cap + RNIC_CAP_W_PA" SLOT_GRANULARITY] assms(2) by (auto simp: b)
  have "MAX_COUNTER_NUM * n \<le> COUNTER_TOTAL" using n(2) by simp
  then have "for_loop 0 (MAX_COUNTER_NUM * n) (\<lambda>i. set_credit i 1) s =
      Some (s\<lparr>st_credit := replicate (MAX_COUNTER_NUM * n) 1 @ drop (MAX_COUNTER_NUM * n) (st_credit s)\<rparr>)"
    using assms(1) by (intro set_credits_ok) simp_all
  with n show ?thesis by (intro exI [of _ n]) (cases "n = 0", auto simp: pa_uniform_def not_less)
qed

section \<open>The classification\<close>

lemma machine_class_ok:
  assumes "scan_ok nr sc" "i < nr"
  shows "\<exists>rq un. machine_class cfg i sc = Some (sc\<lparr>sc_req := rq, sc_uniform := un\<rparr>) \<and>
    rq = (sc_req sc)[i := sc_req sc ! i div of_nat COUNTER_TOTAL] \<and>
    un = (sc_uniform sc)[i := sc_uniform sc ! i \<and> \<not> sc_max sc ! i > sc_req sc ! i div of_nat COUNTER_TOTAL * 2 \<and>
      \<not> (sc_onload sc ! i > 0 \<and> pa_enabled cfg = False)]"
proof -
  note D = scan_okD [OF assms]
  have same: "(sc_uniform sc)[i := sc_uniform sc ! i] = sc_uniform sc" by simp
  show ?thesis using D by (simp add: machine_class_def c_access list_update_id)
qed

lemma machine_classes_ok:
  assumes "scan_ok nr sc"
  shows "\<exists>rq un. for_loop 0 nr (machine_class cfg) sc = Some (sc\<lparr>sc_req := rq, sc_uniform := un\<rparr>) \<and>
    scan_ok nr (sc\<lparr>sc_req := rq, sc_uniform := un\<rparr>) \<and>
    (\<forall>i < nr. un ! i = (sc_uniform sc ! i \<and> \<not> sc_max sc ! i > sc_req sc ! i div of_nat COUNTER_TOTAL * 2 \<and>
      \<not> (sc_onload sc ! i > 0 \<and> pa_enabled cfg = False)))"
proof -
  define c where "c = (\<lambda>i. sc_uniform sc ! i \<and> \<not> sc_max sc ! i > sc_req sc ! i div of_nat COUNTER_TOTAL * 2 \<and>
      \<not> (sc_onload sc ! i > 0 \<and> pa_enabled cfg = False))"
  define I where "I = (\<lambda>n s'. \<exists>rq un. s' = sc\<lparr>sc_req := rq, sc_uniform := un\<rparr> \<and> scan_ok nr s' \<and>
    (\<forall>i < nr. rq ! i = (if i < n then sc_req sc ! i div of_nat COUNTER_TOTAL else sc_req sc ! i) \<and>
       un ! i = (if i < n then c i else sc_uniform sc ! i)))"
  have "\<exists>s'. for_loop 0 nr (machine_class cfg) sc = Some s' \<and> I nr s'"
  proof (rule for_loop_inv)
    show "I 0 sc" using assms by (auto simp: I_def intro!: exI [of _ "sc_req sc"] exI [of _ "sc_uniform sc"])
  next
    fix i s1 assume i: "i < nr" and I: "I i s1"
    then obtain rq un where s1: "s1 = sc\<lparr>sc_req := rq, sc_uniform := un\<rparr>" "scan_ok nr s1"
      "\<forall>i' < nr. rq ! i' = (if i' < i then sc_req sc ! i' div of_nat COUNTER_TOTAL else sc_req sc ! i') \<and>
         un ! i' = (if i' < i then c i' else sc_uniform sc ! i')" unfolding I_def by blast
    have here: "rq ! i = sc_req sc ! i" "un ! i = sc_uniform sc ! i" using s1(3) i by simp_all
    have len: "length rq = nr" "length un = nr" using s1(1,2) by (simp_all add: scan_ok_def)
    have "machine_class cfg i s1 = Some (sc\<lparr>sc_req := rq[i := sc_req sc ! i div of_nat COUNTER_TOTAL], sc_uniform := un[i := c i]\<rparr>)"
      using machine_class_ok [OF s1(2) i, of cfg] here unfolding s1(1) by (simp add: c_def)
    moreover have "I (Suc i) (sc\<lparr>sc_req := rq[i := sc_req sc ! i div of_nat COUNTER_TOTAL], sc_uniform := un[i := c i]\<rparr>)"
      unfolding I_def by (intro exI conjI, rule refl) (use s1 len in \<open>auto simp: scan_ok_def nth_list_update less_Suc_eq\<close>)
    ultimately show "\<exists>s'. machine_class cfg i s1 = Some s' \<and> I (Suc i) s'" by blast
  qed simp
  then show ?thesis unfolding I_def c_def by auto
qed

section \<open>The strategies of one phase\<close>

definition server_ok :: "server \<Rightarrow> bool" where
  "server_ok sv \<longleftrightarrow> length (resp_credit (sl_strategies (sv_layout sv))) = COUNTER_TOTAL \<and>
     length (resp_credit (sl_old_strategies (sv_layout sv))) = COUNTER_TOTAL \<and> length (sv_onload_nums sv) = MAX_COUNTER_NUM \<and>
     binary (resp_credit (sl_strategies (sv_layout sv)))"

lemma strat_of_ok: "server_ok sv \<Longrightarrow> strat_ok (strat_of sv)" "st_tasks (strat_of sv) = []"
  "st_credit (strat_of sv) = resp_credit (sl_strategies (sv_layout sv))"
  by (simp_all add: server_ok_def strat_ok_def strat_of_def)

lemma next_phase_ok:
  assumes "strat_ok s" "binary (st_credit s)"
  shows "server_ok (next_phase z s over_thres sv)" "server_ok (uniform_phase (next_phase z s over_thres sv))"
    "resp_phase (sl_strategies (sv_layout (next_phase z s over_thres sv))) = resp_phase (sl_strategies (sv_layout sv)) + 1"
    "resp_phase (sl_strategies (sv_layout (uniform_phase (next_phase z s over_thres sv)))) = resp_phase (sl_strategies (sv_layout sv)) + 1"
    "resp_credit (sl_strategies (sv_layout (next_phase z s over_thres sv))) = st_credit s"
    "resp_credit (sl_strategies (sv_layout (uniform_phase (next_phase z s over_thres sv)))) = st_credit s"
    "resp_phase (sl_uniform_strag (sv_layout (uniform_phase (next_phase z s over_thres sv)))) = resp_phase (sl_strategies (sv_layout sv)) + 1"
    "resp_credit (sl_uniform_strag (sv_layout (uniform_phase (next_phase z s over_thres sv)))) =
      resp_credit (sl_uniform_strag (sv_layout sv))"
    "resp_credit (sl_uniform_strag (sv_layout (next_phase z s over_thres sv))) = resp_credit (sl_uniform_strag (sv_layout sv))"
  using assms by (simp_all add: server_ok_def strat_ok_def next_phase_def uniform_phase_def Let_def)

lemma binary_fill: "strat_ok s \<Longrightarrow> v \<in> {0, 1} \<Longrightarrow> n \<le> COUNTER_TOTAL \<Longrightarrow> binary (st_credit s) \<Longrightarrow>
    binary (replicate n v @ drop n (st_credit s))"
  by (auto simp: binary_def nth_append strat_ok_def)

text \<open>The dynamic strategies always return.\<close>

lemma dynamic_strategy_ok:
  assumes sv: "server_ok sv" and sc: "scan_ok nr sc" and p: "pick_ok pick" and c: "unat (CPU_CAPACITY * core_num cfg) + 7000000 < 2 ^ 53"
  shows "\<exists>u sc' sv'. dynamic_strategy pick cfg nr sc req_per_slot sv = Some (u, sc', sv') \<and> server_ok sv' \<and> scan_ok nr sc' \<and>
    resp_phase (sl_strategies (sv_layout sv')) = resp_phase (sl_strategies (sv_layout sv)) + 1 \<and>
    resp_phase (sl_uniform_strag (sv_layout sv')) = resp_phase (sl_strategies (sv_layout sv)) + 1 \<and>
    resp_credit (sl_uniform_strag (sv_layout sv')) = resp_credit (sl_uniform_strag (sv_layout sv))"
proof -
  let ?cap = "CPU_CAPACITY * core_num cfg" and ?s = "strat_of sv"
  note S = strat_of_ok(1) [OF sv] strat_of_ok(2,3) [of sv]
  have b: "binary (st_credit ?s)" using sv by (simp add: S(3) server_ok_def)
  obtain rq un where cl: "for_loop 0 nr (machine_class cfg) sc = Some (sc\<lparr>sc_req := rq, sc_uniform := un\<rparr>)"
    "scan_ok nr (sc\<lparr>sc_req := rq, sc_uniform := un\<rparr>)" using machine_classes_ok [OF sc] by blast
  let ?sc = "sc\<lparr>sc_req := rq, sc_uniform := un\<rparr>"
  have ok: "sc_ok ?sc" by (rule scan_ok_sc_ok [OF cl(2)])
  let ?th = "over_threshold req_per_slot (threshold cfg)" and ?pt = "pa_over_threshold req_per_slot (threshold cfg)"
  obtain s1 where s1: "zipf pick ?sc ?cap ?th req_per_slot ?s = Some s1" "strat_ok s1" "binary (st_credit s1)"
    using zipf_ok [OF ok p S(1,2), of ?cap ?th req_per_slot] b offloaded_binary by blast
  obtain s2 where s2: "pa_zipf pick ?sc ?cap ?pt req_per_slot ?s = Some s2" "strat_ok s2" "binary (st_credit s2)"
    using pa_zipf_ok [OF ok p S(1,2), of ?cap ?pt req_per_slot] b offloaded_binary by blast
  obtain n where n: "n \<le> SLOT_GRANULARITY"
    "pa_uniform ?cap ?s = Some (?s\<lparr>st_credit := replicate (MAX_COUNTER_NUM * n) 1 @ drop (MAX_COUNTER_NUM * n) (st_credit ?s)\<rparr>)"
    using pa_uniform_ok [OF S(1) c] by blast
  have le: "MAX_COUNTER_NUM * n \<le> COUNTER_TOTAL" using n(1) by simp
  obtain s3 where s3: "pa_uniform ?cap ?s = Some s3" "strat_ok s3" "binary (st_credit s3)"
    using n(2) S(1) le binary_fill [OF S(1) _ le b, of 1] by (simp add: strat_ok_def)
  show ?thesis
  proof (cases "pa_enabled cfg")
    case False
    then show ?thesis using cl s1 next_phase_ok [OF s1(2,3)] by (simp add: dynamic_strategy_def)
  next
    case True
    then show ?thesis
      using cl s2(1) s3(1) next_phase_ok [OF s2(2,3)] next_phase_ok [OF s3(2,3)]
      by (cases "load_is_uniform (sc_real sc) (sc_c_real sc) req_per_slot") (auto simp: dynamic_strategy_def Let_def)
  qed
qed

lemma make_strategy_ok:
  assumes sv: "server_ok sv" and sc: "scan_ok nr sc" and p: "pick_ok pick" and c: "unat (CPU_CAPACITY * core_num cfg) + 7000000 < 2 ^ 53"
  shows "\<exists>u sc' sv'. make_strategy pick cfg nr sc sv = Some (u, sc', sv') \<and> server_ok sv' \<and> scan_ok nr sc' \<and>
    resp_phase (sl_strategies (sv_layout sv')) = resp_phase (sl_strategies (sv_layout sv)) + 1 \<and>
    (u \<or> resp_phase (sl_uniform_strag (sv_layout sv')) = resp_phase (sl_strategies (sv_layout sv)) + 1) \<and>
    resp_credit (sl_uniform_strag (sv_layout sv')) = resp_credit (sl_uniform_strag (sv_layout sv))"
proof -
  note S = strat_of_ok(1) [OF sv] strat_of_ok(2,3) [of sv]
  have f: "fill_credit v (strat_of sv) = Some ((strat_of sv)\<lparr>st_credit := replicate COUNTER_TOTAL v\<rparr>)"
    "strat_ok ((strat_of sv)\<lparr>st_credit := replicate COUNTER_TOTAL v\<rparr>)" for v
    using S(1) by (simp_all add: fill_credit_eq strat_ok_def)
  have b: "binary (st_credit ((strat_of sv)\<lparr>st_credit := replicate COUNTER_TOTAL v\<rparr>))" if "v \<in> {0, 1}" for v
    using that by (simp add: binary_def)
  note N = next_phase_ok(1,3,9) [OF f(2) b]
  show ?thesis
    unfolding make_strategy_def Let_def f
    using dynamic_strategy_ok [OF sv sc p c, of "(sc_rnic sc + sc_cpu sc) div of_nat MAX_COUNTER_NUM"] N [of 0] N [of 1] sc
    by (simp split: if_split) blast
qed

text \<open>The excess of a hot slot over the average.\<close>

lemma over_threshold_ge: "req_per_slot \<le> over_threshold req_per_slot thres"
  by (simp add: over_threshold_def not_less)

lemma pa_over_threshold_ge: "req_per_slot \<le> pa_over_threshold req_per_slot thres"
proof -
  have "req_per_slot \<le> thres" if "\<not> req_per_slot > thres div 2"
  proof -
    have "unat (thres div 2) \<le> unat thres" by (simp add: unat_div)
    then have "thres div 2 \<le> thres" by (simp add: word_le_nat_alt)
    with that show ?thesis by (simp only: not_less)
  qed
  then show ?thesis by (simp add: pa_over_threshold_def)
qed

section \<open>Examples\<close>

text \<open>The first of the greatest tasks.\<close>

definition first_greatest :: "cpu_task list \<Rightarrow> nat" where
  "first_greatest ts = length (takeWhile (\<lambda>t. \<exists>u \<in> set ts. req_cnt t < req_cnt u) ts)"

lemma first_greatest_ok: "pick_ok first_greatest"
  unfolding pick_ok_def
proof (intro allI impI)
  fix ts :: "cpu_task list" assume ne: "ts \<noteq> []"
  let ?P = "\<lambda>t. \<exists>u \<in> set ts. req_cnt t < req_cnt u"
  have "Max (req_cnt ` set ts) \<in> req_cnt ` set ts" using ne by (intro Max_in) auto
  then obtain t where t: "t \<in> set ts" "req_cnt t = Max (req_cnt ` set ts)" by auto
  then have "\<not> ?P t" by (auto simp: not_less)
  with t(1) have "takeWhile ?P ts \<noteq> ts" unfolding takeWhile_eq_all_conv by blast
  then have lt: "length (takeWhile ?P ts) < length ts"
    using takeWhile_eq_take [of ?P ts] take_all [of ts "length (takeWhile ?P ts)"] by (cases "length ts \<le> length (takeWhile ?P ts)") auto
  then have "\<not> ?P (ts ! length (takeWhile ?P ts))" by (rule nth_length_takeWhile)
  with lt show "first_greatest ts < length ts \<and> (\<forall>t \<in> set ts. req_cnt t \<le> req_cnt (ts ! first_greatest ts))"
    by (auto simp: first_greatest_def not_less)
qed

definition example_strat :: strat where
  "example_strat = \<lparr>st_credit = replicate COUNTER_TOTAL 0, st_old = replicate COUNTER_TOTAL 0,
     st_onload_nums = replicate MAX_COUNTER_NUM 0, st_tasks = [], st_over_count = 0, st_thres_count = 0\<rparr>"

definition example_server :: server where
  "example_server = \<lparr>sv_layout = \<lparr>sl_strategies = \<lparr>resp_phase = 1, resp_credit = replicate COUNTER_TOTAL 0\<rparr>,
     sl_machine_arr = [], sl_uniform_strag = \<lparr>resp_phase = 1, resp_credit = replicate COUNTER_TOTAL 0\<rparr>,
     sl_old_strategies = \<lparr>resp_phase = 1, resp_credit = replicate COUNTER_TOTAL 0\<rparr>, sl_consensus = 0\<rparr>,
     sv_onload_nums = replicate MAX_COUNTER_NUM 0, sv_over_thres = 0\<rparr>"

definition example_cfg :: "u64 \<Rightarrow> agent_cfg" where
  "example_cfg thres = \<lparr>threshold = thres, core_num = 4, agent_enabled = True, pa_enabled = False\<rparr>"

lemma example_scan_ok: "scan_ok nr (example_scan nr)"
  using example_mesg [of 0 0] by (auto simp: scan_ok_def example_scan_def)

lemma example_strat_ok: "strat_ok example_strat" "st_tasks example_strat = []"
  by (simp_all add: strat_ok_def example_strat_def)

lemma example_server_ok: "server_ok example_server"
  by (simp add: server_ok_def example_server_def binary_def)

section \<open>Properties\<close>





text \<open>
  The share of the CPU under a uniform load with PCIe atomics, computed in floating point,
  never exceeds the number of parts of a slot, so the error branch is unreachable; exactly the first
  parts of every slot are moved.
\<close>

lemma pa_uniform_share:
  assumes "strat_ok s" "unat cap + 7000000 < 2 ^ 53"
  shows "\<exists>n \<le> SLOT_GRANULARITY. round_share cap (cap + RNIC_CAP_W_PA) SLOT_GRANULARITY = Some n \<and>
    (\<exists>s'. pa_uniform cap s = Some s' \<and>
      (\<forall>i < MAX_COUNTER_NUM. \<forall>j < SLOT_GRANULARITY. st_credit s' ! entry i j = (if j < n then 1 else st_credit s ! entry i j)))"
proof -
  obtain n where n: "n \<le> SLOT_GRANULARITY" "round_share cap (cap + RNIC_CAP_W_PA) SLOT_GRANULARITY = Some n"
    "pa_uniform cap s = Some (s\<lparr>st_credit := replicate (MAX_COUNTER_NUM * n) 1 @ drop (MAX_COUNTER_NUM * n) (st_credit s)\<rparr>)"
    using pa_uniform_ok [OF assms] by blast
  have "(replicate (MAX_COUNTER_NUM * n) 1 @ drop (MAX_COUNTER_NUM * n) (st_credit s)) ! entry i j =
      (if j < n then 1 else st_credit s ! entry i j)" if "i < MAX_COUNTER_NUM" "j < SLOT_GRANULARITY" for i j
  proof -
    have "MAX_COUNTER_NUM * n \<le> length (st_credit s)" using assms(1) n(1) by (simp add: strat_ok_def)
    moreover have "entry i j < MAX_COUNTER_NUM * n \<longleftrightarrow> j < n"
      using entry_mod(2) [OF that(1), of j] that(1)
      by (metis div_less_iff_less_mult mult.commute not_less_zero zero_less_iff_neq_zero)
    ultimately show ?thesis by (auto simp: nth_append not_less)
  qed
  with n show ?thesis by (intro exI [of _ n]) simp
qed



end
