(* ===== verification/Agent_Server.thy ===== *)
theory Agent_Server
  imports Agent_Strategy
begin

text \<open>
  A round of the server agent (\<open>server_func\<close> of \<^verbatim>\<open>providers/mlx5/fusioncas/agent/agent.cpp\<close>):
  the scan, the strategies and their distribution; and the hand-over of the application's RPC region.
\<close>

section \<open>A round of the server\<close>

text \<open>What is written to machine \<open>i\<close>.\<close>

definition strategy_for :: "agent_cfg \<Rightarrow> bool \<Rightarrow> scan \<Rightarrow> server \<Rightarrow> nat \<Rightarrow> resp" where
  "strategy_for cfg is_uniform sc sv i =
     (if is_uniform = False \<and> sc_uniform sc ! i = True \<and> pa_enabled cfg = False
      then sl_uniform_strag (sv_layout sv) else sl_strategies (sv_layout sv))"

definition server_round :: "(cpu_task list \<Rightarrow> nat) \<Rightarrow> agent_cfg \<Rightarrow> nat \<Rightarrow> (machine_unit list \<Rightarrow> machine_unit list) list \<Rightarrow>
    scan \<Rightarrow> server \<Rightarrow> (resp list \<times> scan \<times> server) option" where
  "server_round pick cfg nr_machine ws sc sv = do {
     sc \<leftarrow> scan_loop nr_machine (resp_phase (sl_strategies (sv_layout sv))) ws (sc\<lparr>sc_cnt := 0, sc_rnic := 0, sc_cpu := 0\<rparr>);
     (is_uniform, sc, sv) \<leftarrow> make_strategy pick cfg nr_machine sc sv;
     Some (map (strategy_for cfg is_uniform sc sv) [0..<nr_machine], sc\<lparr>sc_scanned := replicate nr_machine False\<rparr>, sv)
   }"

text \<open>The wait for the clients: the counter has changed and is a multiple of the number of machines.\<close>

definition consensus_reached :: "u64 \<Rightarrow> u64 \<Rightarrow> u64 \<Rightarrow> bool" where
  "consensus_reached tmp_consensus consensus nr_machine \<longleftrightarrow>
     \<not> (tmp_consensus = consensus \<or> consensus mod nr_machine \<noteq> 0)"

text \<open>The state when \<open>start_server\<close> has cleared its memory.\<close>

definition start_server :: "nat \<Rightarrow> machine_unit list \<Rightarrow> server_layout \<Rightarrow> u64 \<Rightarrow> scan \<times> server" where
  "start_server nr_machine machine_arr layout thres =
     (\<lparr>sc_machine_arr = machine_arr, sc_counters = replicate COUNTER_TOTAL 0, sc_c_counters = replicate COUNTER_TOTAL 0,
        sc_real = replicate MAX_COUNTER_NUM 0, sc_c_real = replicate MAX_COUNTER_NUM 0,
        sc_scanned = replicate nr_machine False, sc_uniform = replicate nr_machine False,
        sc_req = replicate nr_machine 0, sc_onload = replicate nr_machine 0, sc_max = replicate nr_machine 0,
        sc_tmp = 0, sc_cnt = 0, sc_rnic = 0, sc_cpu = 0\<rparr>,
      \<lparr>sv_layout = layout\<lparr>
         sl_uniform_strag := \<lparr>resp_phase = 0, resp_credit = replicate COUNTER_TOTAL 0\<rparr>,
         sl_strategies := (sl_strategies layout)\<lparr>resp_phase := 1\<rparr>\<rparr>,
       sv_onload_nums = replicate MAX_COUNTER_NUM 0, sv_over_thres = thres\<rparr>)"

text \<open>
  The hand-over of the application's RPC region to the clients: the metadata written to each machine
  and the metadata remembered; \<open>None\<close> while the application has not published it.
\<close>

definition send_server_meta :: "nat \<Rightarrow> rpc_meta \<Rightarrow> rpc_meta \<Rightarrow> (rpc_meta list \<times> rpc_meta) option" where
  "send_server_meta nr_machine server_shm cur_meta =
     (if rm_crc server_shm \<noteq> CRC_COMPLETE then None
      else if rm_rpc_addr cur_meta = rm_rpc_addr server_shm then Some ([], cur_meta)
      else Some (map (\<lambda>i. server_shm\<lparr>rm_machine_id := of_nat i\<rparr>) [0..<nr_machine],
        cur_meta\<lparr>rm_rkey := rm_rkey server_shm, rm_rpc_addr := rm_rpc_addr server_shm, rm_length := rm_length server_shm\<rparr>))"

section \<open>Properties\<close>



text \<open>
  The server's wait for its clients: starting from a multiple of the number of machines, it ends
  when all machines have reported, and not before.
\<close>

lemma consensus_after_all_machines:
  assumes "unat old mod nr = 0" "0 < nr" "k \<le> nr" "unat old + nr < 2 ^ 64"
  shows "consensus_reached old (old + of_nat k) (of_nat nr) \<longleftrightarrow> k = nr"
proof -
  have kn: "k < 2 ^ 64" "nr < 2 ^ 64" using assms(3,4) by simp_all
  have u: "unat (of_nat k :: u64) = k" "unat (of_nat nr :: u64) = nr" using kn by (simp_all add: unat_of_nat)
  have s: "unat (old + of_nat k) = unat old + k" using assms(3,4) unat_add_no_wrap [of old "of_nat k"] by (simp add: u)
  have z: "(old + of_nat k) mod of_nat nr \<noteq> 0 \<longleftrightarrow> (unat old + k) mod nr \<noteq> 0"
    by (simp add: word_unat_eq_iff unat_mod s u)
  have m: "(unat old + k) mod nr = k mod nr" using assms(1) by (simp add: mod_add_left_eq [of "unat old" nr k, symmetric])
  have e: "old = old + of_nat k \<longleftrightarrow> k = 0" using kn by (simp add: word_unat_eq_iff s)
  show ?thesis unfolding consensus_reached_def z m e
    using assms(2,3) by (cases "k = nr") auto
qed

end
