(* ===== verification/Fusa_Consensus.thy ===== *)
theory Fusa_Consensus
  imports Agent_Client
begin

text \<open>
  The hand-over of a new strategy table, where the driver and the agent meet: \<open>mlx5_post_send\<close>
  (\<^verbatim>\<open>providers/mlx5/qp.c\<close>) of every queue pair runs interleaved with the agent
  (\<open>start_client\<close> and \<open>wait_sync\<close> of \<^verbatim>\<open>providers/mlx5/fusioncas/agent/agent.cpp\<close>), which
  copies the table and then waits until every queue pair has started a new operation or is not running.
  Each step is one access to the shared memory that the other side can observe; the end of an operation
  on the CPU is one step, as the agent observes only its last access, which clears \<open>running\<close>. A queue
  pair posts one operation at a time, as the driver assumes. No queue pair is created during the hand-over.
\<close>

section \<open>The steps\<close>

datatype qp_pc = Q_Idle | Q_Marked nat | Q_Bumped nat | Q_Decided nat u16

datatype agent_pc =
    A_Copy nat
  | A_Snap nat "(nat \<times> u64) list"
  | A_Wait "(nat \<times> u64) list"
  | A_Done

datatype actor = QP nat | Agent

record cstate =
  c_shm :: sh_local_region
  c_pcs :: "nat \<Rightarrow> qp_pc"
  c_agent :: agent_pc

text \<open>The number of eight-byte stores of the copy.\<close>

definition strategy_words :: nat where
  "strategy_words = sizeof_strategies div 8"

text \<open>The rest of an operation that goes to the CPU.\<close>

definition finish_rpc :: "nat \<Rightarrow> nat \<Rightarrow> sh_local_region \<Rightarrow> sh_local_region option" where
  "finish_rpc i ci s = do {
     s \<leftarrow> count_cpu i ci s;
     (remote_addr, s) \<leftarrow> rpc_remote_slot i s;
     (recv_buf, send_buf, s) \<leftarrow> rpc_local_slot i s;
     post_clear i s
   }"

text \<open>The queue of \<open>wait_sync\<close>: one record after the other is entered with its epoch.\<close>

definition sync_push :: "sh_local_region \<Rightarrow> nat \<Rightarrow> (nat \<times> u64) list \<Rightarrow> (nat \<times> u64) list option" where
  "sync_push s i q = do {
     r \<leftarrow> arr_get (records s) i;
     e \<leftarrow> arr_get (epoch s) i;
     Some (if rec_qpn r \<noteq> 0 then q @ [(i, e)] else q)
   }"

text \<open>
  The two halves of the condition under which the front of the queue is popped. The code reads the epoch
  and then the flag, so they are separate steps.
\<close>

definition sync_moved :: "sh_local_region \<Rightarrow> nat \<times> u64 \<Rightarrow> bool option" where
  "sync_moved s f = do {
     e \<leftarrow> arr_get (epoch s) (fst f);
     Some (snd f \<noteq> e)
   }"

definition sync_idle :: "sh_local_region \<Rightarrow> nat \<times> u64 \<Rightarrow> bool option" where
  "sync_idle s f = do {
     r \<leftarrow> arr_get (running s) (fst f);
     Some (r = 0)
   }"

inductive step :: "u16 list \<Rightarrow> actor \<Rightarrow> cstate \<Rightarrow> cstate \<Rightarrow> bool" for new where
  mark: "c_pcs c i = Q_Idle \<Longrightarrow> ci < COUNTER_TOTAL \<Longrightarrow> post_mark i (c_shm c) = Some s \<Longrightarrow>
    step new (QP i) c (c\<lparr>c_shm := s, c_pcs := (c_pcs c)(i := Q_Marked ci)\<rparr>)"
| bump: "c_pcs c i = Q_Marked ci \<Longrightarrow> post_epoch i (c_shm c) = Some s \<Longrightarrow>
    step new (QP i) c (c\<lparr>c_shm := s, c_pcs := (c_pcs c)(i := Q_Bumped ci)\<rparr>)"
| decide: "c_pcs c i = Q_Bumped ci \<Longrightarrow> arr_get (strag_credit (c_shm c)) ci = Some cr \<Longrightarrow>
    step new (QP i) c (c\<lparr>c_pcs := (c_pcs c)(i := Q_Decided ci cr)\<rparr>)"
| to_card: "c_pcs c i = Q_Decided ci 0 \<Longrightarrow> count_rnic i ci (c_shm c) = Some s \<Longrightarrow>
    step new (QP i) c (c\<lparr>c_shm := s, c_pcs := (c_pcs c)(i := Q_Idle)\<rparr>)"
| to_cpu: "c_pcs c i = Q_Decided ci cr \<Longrightarrow> cr \<noteq> 0 \<Longrightarrow> finish_rpc i ci (c_shm c) = Some s \<Longrightarrow>
    step new (QP i) c (c\<lparr>c_shm := s, c_pcs := (c_pcs c)(i := Q_Idle)\<rparr>)"
| copy: "c_agent c = A_Copy n \<Longrightarrow> n < strategy_words \<Longrightarrow> copy_word new n (strag_credit (c_shm c)) = Some cr \<Longrightarrow>
    step new Agent c (c\<lparr>c_shm := (c_shm c)\<lparr>strag_credit := cr\<rparr>, c_agent := A_Copy (Suc n)\<rparr>)"
| copied: "c_agent c = A_Copy strategy_words \<Longrightarrow> step new Agent c (c\<lparr>c_agent := A_Snap 0 []\<rparr>)"
| push: "c_agent c = A_Snap i q \<Longrightarrow> i < MAX_RECORDER_NUM \<Longrightarrow> sync_push (c_shm c) i q = Some q' \<Longrightarrow>
    step new Agent c (c\<lparr>c_agent := A_Snap (Suc i) q'\<rparr>)"
| pushed: "c_agent c = A_Snap MAX_RECORDER_NUM q \<Longrightarrow> step new Agent c (c\<lparr>c_agent := A_Wait q\<rparr>)"
| pop_moved: "c_agent c = A_Wait (f # q) \<Longrightarrow> sync_moved (c_shm c) f = Some True \<Longrightarrow>
    step new Agent c (c\<lparr>c_agent := A_Wait q\<rparr>)"
| pop_idle: "c_agent c = A_Wait (f # q) \<Longrightarrow> sync_idle (c_shm c) f = Some True \<Longrightarrow>
    step new Agent c (c\<lparr>c_agent := A_Wait q\<rparr>)"
| popped: "c_agent c = A_Wait [] \<Longrightarrow> step new Agent c (c\<lparr>c_agent := A_Done\<rparr>)"

inductive_cases agent_step: "step new Agent c c'"
inductive_cases qp_step: "step new (QP i) c c'"

text \<open>Runs in which only the given actors take steps.\<close>

inductive run :: "u16 list \<Rightarrow> actor set \<Rightarrow> cstate \<Rightarrow> cstate \<Rightarrow> bool" for new actors where
  stop: "run new actors c c"
| more: "run new actors c c' \<Longrightarrow> a \<in> actors \<Longrightarrow> step new a c' c'' \<Longrightarrow> run new actors c c''"

section \<open>What the steps of the driver change\<close>

text \<open>Only the strategy table, the epochs and the flags matter here.\<close>

lemma post_mark_frame:
  assumes "post_mark i s = Some s'"
  shows "strag_credit s' = strag_credit s" "epoch s' = epoch s" "records s' = records s" "i < length (running s)"
    "running s' = (running s)[i := if running s ! i = 0 then 1 else running s ! i]"
  using assms by (auto simp: post_mark_def bind_eq_Some_conv arr_upd_eq_Some_iff CAS_cell_def)

lemma post_epoch_frame:
  assumes "post_epoch i s = Some s'"
  shows "strag_credit s' = strag_credit s" "running s' = running s" "records s' = records s" "i < length (epoch s)"
    "epoch s' = (epoch s)[i := epoch s ! i + 1]"
  using assms by (auto simp: post_epoch_def bind_eq_Some_conv arr_upd_eq_Some_iff)

lemma map_upd_same: "f x = f (xs ! i) \<Longrightarrow> map f (xs[i := x]) = map f xs"
  by (metis list_update_id map_update)

lemma count_rnic_frame:
  assumes "count_rnic i ci s = Some s'"
  shows "strag_credit s' = strag_credit s" "running s' = running s" "epoch s' = epoch s"
    "map rec_qpn (records s') = map rec_qpn (records s)"
  using assms
  by (auto simp: count_rnic_def bind_eq_Some_conv arr_get_eq_Some_iff map_upd_same)

lemma finish_rpc_frame:
  assumes "finish_rpc i ci s = Some s'"
  shows "strag_credit s' = strag_credit s" "epoch s' = epoch s"
    "running s' = (running s)[i := if running s ! i = 1 then 0 else running s ! i]"
    "map rec_qpn (records s') = map rec_qpn (records s)"
  using assms
  by (auto simp: finish_rpc_def count_cpu_def rpc_remote_slot_def rpc_local_slot_def post_clear_def bind_eq_Some_conv
      arr_upd_eq_Some_iff arr_get_eq_Some_iff CAS_cell_def Let_def map_upd_same
      split: if_splits)

text \<open>A step of a queue pair seen from the agent: it changes the epoch, the flag and the state of that pair only.\<close>

lemma qp_step_frame:
  assumes "step new (QP i) c c'"
  shows "strag_credit (c_shm c') = strag_credit (c_shm c)" "c_agent c' = c_agent c"
    "map rec_qpn (records (c_shm c')) = map rec_qpn (records (c_shm c))"
    "length (running (c_shm c')) = length (running (c_shm c))"
    "length (epoch (c_shm c')) = length (epoch (c_shm c))"
    "\<And>j. j \<noteq> i \<Longrightarrow> c_pcs c' j = c_pcs c j \<and> running (c_shm c') ! j = running (c_shm c) ! j \<and>
       epoch (c_shm c') ! j = epoch (c_shm c) ! j"
  using assms
  by (auto elim!: qp_step simp: post_mark_frame post_epoch_frame count_rnic_frame finish_rpc_frame)

section \<open>The invariant\<close>

text \<open>The queue pair is not working with a credit of the old table.\<close>

definition fresh :: "u16 list \<Rightarrow> qp_pc \<Rightarrow> bool" where
  "fresh new pc \<longleftrightarrow> (case pc of Q_Decided ci cr \<Rightarrow> ci < length new \<and> cr = new ! ci | _ \<Rightarrow> True)"

definition registered :: "cstate \<Rightarrow> nat \<Rightarrow> bool" where
  "registered c j \<longleftrightarrow> j < length (records (c_shm c)) \<and> map rec_qpn (records (c_shm c)) ! j \<noteq> 0"

text \<open>The records the agent has looked at and the queue it holds.\<close>

fun seen :: "agent_pc \<Rightarrow> nat" where
  "seen (A_Copy n) = 0"
| "seen (A_Snap k q) = k"
| "seen (A_Wait q) = MAX_RECORDER_NUM"
| "seen A_Done = MAX_RECORDER_NUM"

fun sync_queue :: "agent_pc \<Rightarrow> (nat \<times> u64) list" where
  "sync_queue (A_Copy n) = []"
| "sync_queue (A_Snap k q) = q"
| "sync_queue (A_Wait q) = q"
| "sync_queue A_Done = []"

definition table_at :: "u16 list \<Rightarrow> u16 list \<Rightarrow> agent_pc \<Rightarrow> u16 list" where
  "table_at old new a = (case a of A_Copy n \<Rightarrow> take (4 * n) new @ drop (4 * n) old | _ \<Rightarrow> new)"

text \<open>
  The state in which the hand-over of \<open>new\<close> starts: the tables have their size, and a queue pair that is
  posting an operation is marked as running.
\<close>

definition handover_start :: "u16 list \<Rightarrow> cstate \<Rightarrow> bool" where
  "handover_start new c \<longleftrightarrow> c_agent c = A_Copy 0 \<and> length new = COUNTER_TOTAL \<and>
     length (strag_credit (c_shm c)) = COUNTER_TOTAL \<and>
     (\<forall>i. c_pcs c i \<noteq> Q_Idle \<longrightarrow> i < length (running (c_shm c)) \<and> running (c_shm c) ! i \<noteq> 0)"

definition handover_inv :: "u16 list \<Rightarrow> u16 list \<Rightarrow> cstate \<Rightarrow> bool" where
  "handover_inv old new c \<longleftrightarrow>
     (\<forall>i. c_pcs c i \<noteq> Q_Idle \<longrightarrow> i < length (running (c_shm c)) \<and> running (c_shm c) ! i \<noteq> 0) \<and>
     strag_credit (c_shm c) = table_at old new (c_agent c) \<and>
     (\<forall>(j, ep) \<in> set (sync_queue (c_agent c)). ep \<noteq> epoch (c_shm c) ! j \<longrightarrow> fresh new (c_pcs c j)) \<and>
     (\<forall>j < seen (c_agent c). registered c j \<longrightarrow>
        j \<in> fst ` set (sync_queue (c_agent c)) \<or> fresh new (c_pcs c j))"

lemma handover_inv_start: "handover_start new c \<Longrightarrow> handover_inv (strag_credit (c_shm c)) new c"
  by (simp add: handover_start_def handover_inv_def table_at_def)

text \<open>A step of a queue pair after the copy leaves it fresh.\<close>

lemma qp_step_fresh:
  assumes "step new (QP i) c c'" "strag_credit (c_shm c) = new"
  shows "fresh new (c_pcs c' i)"
  using assms by (auto elim!: qp_step simp: fresh_def arr_get_eq_Some_iff)

lemma qp_step_running:
  assumes "step new (QP i) c c'" "\<forall>i. c_pcs c i \<noteq> Q_Idle \<longrightarrow> i < length (running (c_shm c)) \<and> running (c_shm c) ! i \<noteq> 0"
    "c_pcs c' j \<noteq> Q_Idle"
  shows "j < length (running (c_shm c')) \<and> running (c_shm c') ! j \<noteq> 0"
proof (cases "j = i")
  case True
  have act: "c_pcs c i \<noteq> Q_Idle \<Longrightarrow> i < length (running (c_shm c)) \<and> running (c_shm c) ! i \<noteq> 0"
    using assms(2) by blast
  from assms(1) show ?thesis
  proof cases
    case (mark ci s)
    then show ?thesis by (simp add: post_mark_frame True)
  qed (use act assms(3) True in \<open>simp_all add: post_epoch_frame\<close>)
next
  case False
  then show ?thesis using qp_step_frame [OF assms(1)] assms(2,3) by auto
qed

lemma qp_step_inv:
  assumes st: "step new (QP i) c c'" and inv: "handover_inv old new c"
  shows "handover_inv old new c'"
proof -
  note fr = qp_step_frame [OF st]
  have tab: "strag_credit (c_shm c) = table_at old new (c_agent c)" using inv by (simp add: handover_inv_def)
  have reg: "registered c' j = registered c j" for j
    using fr(3) by (metis registered_def length_map)
  have other: "c_pcs c' j = c_pcs c j \<and> epoch (c_shm c') ! j = epoch (c_shm c) ! j \<or> fresh new (c_pcs c' j)"
    if "seen (c_agent c) \<noteq> 0 \<or> sync_queue (c_agent c) \<noteq> []" for j
  proof (cases "j = i")
    case True
    have "strag_credit (c_shm c) = new" using that tab by (simp add: table_at_def split: agent_pc.splits)
    then show ?thesis using qp_step_fresh [OF st] True by blast
  qed (use fr(6) in blast)
  have "c_agent c' = c_agent c" "strag_credit (c_shm c') = strag_credit (c_shm c)" using fr by blast+
  moreover have "\<forall>(j, ep) \<in> set (sync_queue (c_agent c)). ep \<noteq> epoch (c_shm c') ! j \<longrightarrow> fresh new (c_pcs c' j)"
  proof (intro ballI, clarify)
    fix j ep assume q: "(j, ep) \<in> set (sync_queue (c_agent c))" and ne: "ep \<noteq> epoch (c_shm c') ! j"
    have "ep \<noteq> epoch (c_shm c) ! j \<longrightarrow> fresh new (c_pcs c j)"
      using inv q by (auto simp: handover_inv_def)
    then show "fresh new (c_pcs c' j)" using other [of j] q ne by (metis list.set(1) empty_iff)
  qed
  moreover have "\<forall>j < seen (c_agent c). registered c j \<longrightarrow>
      j \<in> fst ` set (sync_queue (c_agent c)) \<or> fresh new (c_pcs c' j)"
  proof (intro allI impI)
    fix j assume j: "j < seen (c_agent c)" "registered c j"
    then have "j \<in> fst ` set (sync_queue (c_agent c)) \<or> fresh new (c_pcs c j)"
      using inv by (simp add: handover_inv_def)
    then show "j \<in> fst ` set (sync_queue (c_agent c)) \<or> fresh new (c_pcs c' j)"
      using other [of j] j(1) by (metis not_less_zero)
  qed
  moreover have "\<forall>i. c_pcs c' i \<noteq> Q_Idle \<longrightarrow> i < length (running (c_shm c')) \<and> running (c_shm c') ! i \<noteq> 0"
    using qp_step_running [OF st] inv by (simp add: handover_inv_def)
  ultimately show ?thesis using tab reg by (simp add: handover_inv_def)
qed

lemma copy_word_at:
  assumes "length new = length old" "4 * Suc n \<le> length new"
  shows "copy_word new n (take (4 * n) new @ drop (4 * n) old) = Some (take (4 * Suc n) new @ drop (4 * Suc n) old)"
proof -
  have e: "4 * Suc n = 4 * n + 4" by simp
  show ?thesis using copy_range_ok [of "4 * n" "4 * n + 4" new old] assms unfolding e copy_word_def by simp
qed

lemma words_total: "4 * strategy_words = COUNTER_TOTAL"
  by (simp add: strategy_words_def sizeof_strategies_def layout_consts)

text \<open>The step in which a queue entry is popped.\<close>

lemma pop_inv:
  assumes inv: "handover_inv old new c" and ag: "c_agent c = A_Wait ((k, e) # q)"
    and pop: "sync_moved (c_shm c) (k, e) = Some True \<or> sync_idle (c_shm c) (k, e) = Some True"
  shows "handover_inv old new (c\<lparr>c_agent := A_Wait q\<rparr>)"
proof -
  have "fresh new (c_pcs c k)" if "e \<noteq> epoch (c_shm c) ! k" using inv ag that by (auto simp: handover_inv_def)
  moreover have "c_pcs c k = Q_Idle" if "running (c_shm c) ! k = 0" using inv that by (auto simp: handover_inv_def)
  ultimately have "fresh new (c_pcs c k)"
    using pop by (auto simp: sync_moved_def sync_idle_def bind_eq_Some_conv arr_get_eq_Some_iff fresh_def)
  then show ?thesis using inv ag
    by (auto simp: handover_inv_def table_at_def registered_def)
qed

lemma push_inv:
  assumes inv: "handover_inv old new c" and ag: "c_agent c = A_Snap k q"
    and push: "sync_push (c_shm c) k q = Some q'"
  shows "handover_inv old new (c\<lparr>c_agent := A_Snap (Suc k) q'\<rparr>)"
  using push inv ag
  by (auto simp: handover_inv_def table_at_def registered_def sync_push_def bind_eq_Some_conv arr_get_eq_Some_iff
      less_Suc_eq split: if_splits)

lemma agent_step_inv:
  assumes st: "step new Agent c c'" and inv: "handover_inv old new c"
    and len: "length new = COUNTER_TOTAL" "length old = COUNTER_TOTAL"
  shows "handover_inv old new c'"
  using st
proof cases
  case (copy n cr)
  have "4 * Suc n \<le> 4 * strategy_words" using copy(3) by simp
  then have "4 * Suc n \<le> length new" by (simp only: words_total len(1))
  moreover have "strag_credit (c_shm c) = take (4 * n) new @ drop (4 * n) old"
    using inv copy(2) by (simp add: handover_inv_def table_at_def)
  ultimately have "cr = take (4 * Suc n) new @ drop (4 * Suc n) old"
    using copy_word_at [of new old n] copy(4) len by simp
  then show ?thesis using inv copy(1,2) by (simp add: handover_inv_def table_at_def registered_def)
next
  case copied
  then show ?thesis using inv words_total len
    by (simp add: handover_inv_def table_at_def registered_def)
next
  case (push i q q')
  then show ?thesis using push_inv [OF inv] by blast
next
  case (pushed q)
  then show ?thesis using inv by (simp add: handover_inv_def table_at_def registered_def) blast
next
  case (pop_moved f q)
  then show ?thesis using pop_inv [OF inv, of "fst f" "snd f" q] by simp
next
  case (pop_idle f q)
  then show ?thesis using pop_inv [OF inv, of "fst f" "snd f" q] by simp
next
  case popped
  then show ?thesis using inv by (simp add: handover_inv_def table_at_def registered_def) blast
qed

lemma run_inv:
  assumes "run new actors c c'" "handover_start new c"
  shows "handover_inv (strag_credit (c_shm c)) new c'"
  using assms
proof (induction rule: run.induct)
  case (stop c)
  then show ?case by (rule handover_inv_start)
next
  case (more c c' a c'')
  then show ?case using qp_step_inv agent_step_inv
    by (cases a) (auto simp: handover_start_def)
qed

section \<open>Runs of the agent alone\<close>

lemma run_trans: "run new A c' c'' \<Longrightarrow> run new A c c' \<Longrightarrow> run new A c c''"
  by (induction rule: run.induct) (auto intro: run.more)

lemma run_mono: "run new A c c' \<Longrightarrow> A \<subseteq> B \<Longrightarrow> run new B c c'"
  by (induction rule: run.induct) (auto intro: run.intros)

lemma run_one: "step new a c c' \<Longrightarrow> a \<in> A \<Longrightarrow> run new A c c'"
  by (rule run.more [OF run.stop])

text \<open>The copy takes \<open>strategy_words\<close> steps, whatever the queue pairs do.\<close>

lemma run_copy:
  assumes "c_agent c = A_Copy 0" "length new = COUNTER_TOTAL" "length (strag_credit (c_shm c)) = COUNTER_TOTAL"
    "n \<le> strategy_words"
  shows "run new {Agent} c (c\<lparr>c_shm := (c_shm c)\<lparr>strag_credit :=
    take (4 * n) new @ drop (4 * n) (strag_credit (c_shm c))\<rparr>, c_agent := A_Copy n\<rparr>)"
  using assms(4)
proof (induction n)
  case 0
  have "c = c\<lparr>c_shm := (c_shm c)\<lparr>strag_credit := strag_credit (c_shm c)\<rparr>, c_agent := A_Copy 0\<rparr>"
    using assms(1) by simp
  then show ?case using run.stop [of new "{Agent}" c] by simp
next
  case (Suc n)
  let ?c = "\<lambda>n. c\<lparr>c_shm := (c_shm c)\<lparr>strag_credit :=
    take (4 * n) new @ drop (4 * n) (strag_credit (c_shm c))\<rparr>, c_agent := A_Copy n\<rparr>"
  have "4 * Suc n \<le> 4 * strategy_words" using Suc.prems by simp
  then have "4 * Suc n \<le> length new" by (simp only: words_total assms(2))
  then have cw: "copy_word new n (strag_credit (c_shm (?c n))) =
      Some (take (4 * Suc n) new @ drop (4 * Suc n) (strag_credit (c_shm c)))"
    using copy_word_at [of new "strag_credit (c_shm c)" n] assms(2,3) by simp
  have "step new Agent (?c n) (?c (Suc n))"
    using step.copy [of "?c n" n new, OF _ _ cw] Suc.prems by simp
  then show ?case using Suc by (auto intro: run.more)
qed

lemma run_push:
  assumes "length (records (c_shm c)) = MAX_RECORDER_NUM" "length (epoch (c_shm c)) = MAX_RECORDER_NUM"
    "c_agent c = A_Snap 0 []" "n \<le> MAX_RECORDER_NUM"
  shows "\<exists>q. run new {Agent} c (c\<lparr>c_agent := A_Snap n q\<rparr>) \<and> (\<forall>f \<in> set q. fst f < MAX_RECORDER_NUM)"
  using assms(4)
proof (induction n)
  case 0
  have "c = c\<lparr>c_agent := A_Snap 0 []\<rparr>" using assms(3) by (cases c) simp
  then have "run new {Agent} c (c\<lparr>c_agent := A_Snap 0 []\<rparr>)" using run.stop [of new "{Agent}" c] by simp
  then show ?case by (intro exI [of _ "[]"]) simp
next
  case (Suc n)
  then obtain q where q: "run new {Agent} c (c\<lparr>c_agent := A_Snap n q\<rparr>)" "\<forall>f \<in> set q. fst f < MAX_RECORDER_NUM"
    by auto
  obtain q' where q': "sync_push (c_shm c) n q = Some q'" "\<forall>f \<in> set q'. fst f < MAX_RECORDER_NUM"
    using q(2) Suc.prems assms(1,2) by (auto simp: sync_push_def c_access)
  have "step new Agent (c\<lparr>c_agent := A_Snap n q\<rparr>) (c\<lparr>c_agent := A_Snap (Suc n) q'\<rparr>)"
    using step.push [of "c\<lparr>c_agent := A_Snap n q\<rparr>" n q q' new] q'(1) Suc.prems by simp
  then show ?case using run.more [OF q(1)] q'(2) by blast
qed

lemma run_pop:
  assumes "\<forall>i < MAX_RECORDER_NUM. running (c_shm c) ! i = 0" "length (running (c_shm c)) = MAX_RECORDER_NUM"
    "\<forall>f \<in> set q. fst f < MAX_RECORDER_NUM" "c_agent c = A_Wait q"
  shows "run new {Agent} c (c\<lparr>c_agent := A_Done\<rparr>)"
  using assms(3,4,1,2)
proof (induction q arbitrary: c)
  case Nil
  then show ?case using run_one [OF step.popped [of c new]] by simp
next
  case (Cons f q)
  let ?c = "c\<lparr>c_agent := A_Wait q\<rparr>"
  have "step new Agent c ?c"
    by (rule step.pop_idle [of c f q]) (use Cons.prems in \<open>simp_all add: sync_idle_def c_access\<close>)
  then have "run new {Agent} c ?c" by (rule run_one) simp
  moreover have "run new {Agent} ?c (?c\<lparr>c_agent := A_Done\<rparr>)"
    by (rule Cons.IH) (use Cons.prems in simp_all)
  ultimately have "run new {Agent} c (?c\<lparr>c_agent := A_Done\<rparr>)" by (rule run_trans [rotated])
  then show ?case by simp
qed

lemma run_alone:
  assumes "handover_start new c" "length (records (c_shm c)) = MAX_RECORDER_NUM"
    "length (epoch (c_shm c)) = MAX_RECORDER_NUM" "length (running (c_shm c)) = MAX_RECORDER_NUM"
    "\<forall>i < MAX_RECORDER_NUM. running (c_shm c) ! i = 0"
  shows "run new {Agent} c (c\<lparr>c_shm := (c_shm c)\<lparr>strag_credit := new\<rparr>, c_agent := A_Done\<rparr>)"
proof -
  let ?c = "\<lambda>a. c\<lparr>c_shm := (c_shm c)\<lparr>strag_credit := new\<rparr>, c_agent := a\<rparr>"
  have st: "c_agent c = A_Copy 0" "length new = COUNTER_TOTAL" "length (strag_credit (c_shm c)) = COUNTER_TOTAL"
    using assms(1) by (simp_all add: handover_start_def)
  have copied: "run new {Agent} c (?c (A_Copy strategy_words))"
    using run_copy [OF st order_refl] st by (simp add: words_total)
  have "step new Agent (?c (A_Copy strategy_words)) (?c (A_Snap 0 []))"
    using step.copied [of "?c (A_Copy strategy_words)" new] by simp
  then have r1: "run new {Agent} c (?c (A_Snap 0 []))" using run.more [OF copied] by simp
  obtain q where q: "run new {Agent} (?c (A_Snap 0 [])) (?c (A_Snap MAX_RECORDER_NUM q))"
    "\<forall>f \<in> set q. fst f < MAX_RECORDER_NUM"
    using run_push [of "?c (A_Snap 0 [])" MAX_RECORDER_NUM new] assms(2,3) by auto
  have "step new Agent (?c (A_Snap MAX_RECORDER_NUM q)) (?c (A_Wait q))"
    using step.pushed [of "?c (A_Snap MAX_RECORDER_NUM q)" q new] by simp
  then have r2: "run new {Agent} c (?c (A_Wait q))" using run.more [OF run_trans [OF q(1) r1]] by simp
  have "run new {Agent} (?c (A_Wait q)) (?c (A_Wait q)\<lparr>c_agent := A_Done\<rparr>)"
    by (rule run_pop) (use assms(4,5) q(2) in simp_all)
  then show ?thesis using run_trans [OF _ r2] by simp
qed

section \<open>A queue pair that stays marked\<close>

text \<open>Once the agent has looked at the record, it keeps the current epoch of the queue pair in its queue.\<close>

definition held :: "nat \<Rightarrow> cstate \<Rightarrow> bool" where
  "held i c \<longleftrightarrow> registered c i \<and> running (c_shm c) ! i \<noteq> 0 \<and>
     (i < seen (c_agent c) \<longrightarrow> (i, epoch (c_shm c) ! i) \<in> set (sync_queue (c_agent c)))"

lemma held_step:
  assumes "step new a c c'" "a \<noteq> QP i" "held i c"
  shows "held i c'"
proof (cases a)
  case (QP j)
  then have st: "step new (QP j) c c'" "j \<noteq> i" using assms(1,2) by auto
  note fr = qp_step_frame [OF st(1)]
  have "registered c' i = registered c i" using fr(3) by (metis registered_def length_map)
  then show ?thesis using assms(3) fr st(2) by (auto simp: held_def)
next
  case Agent
  then have "step new Agent c c'" using assms(1) by simp
  then show ?thesis using assms(3)
    by cases (auto simp: held_def registered_def sync_push_def sync_moved_def sync_idle_def bind_eq_Some_conv
        arr_get_eq_Some_iff less_Suc_eq split: if_splits)
qed

lemma held_run:
  assumes "run new (UNIV - {QP i}) c c'" "held i c"
  shows "held i c'"
  using assms
proof (induction rule: run.induct)
  case (more c c' a c'')
  then show ?case using held_step [of new a c' c'' i] by auto
qed simp

lemma held_not_done: "held i c \<Longrightarrow> i < MAX_RECORDER_NUM \<Longrightarrow> c_agent c \<noteq> A_Done"
  by (auto simp: held_def)

section \<open>The driver as steps\<close>

lemma post_rpc_finish:
  assumes "post_rpc nic qp i ci wr d = Some (ret, wr', d')"
  shows "finish_rpc i ci (shm d) = Some (shm d')"
  using assms by (auto simp: post_rpc_def finish_rpc_def bind_eq_Some_conv Let_def)

lemma post_send_parts:
  assumes "mlx5_post_send nic qp wr d = Some (ret, wr', d')" "is_atomic (opcode wr)"
    "map_qpn_to_idx (records (shm d)) (ucast qp) False = Some i"
  obtains s1 s2 cr where "post_mark i (shm d) = Some s1" "post_epoch i s1 = Some s2"
    "arr_get (strag_credit s2) (counter_idx (wr_remote_addr wr)) = Some cr"
    "cr = 0 \<longrightarrow> count_rnic i (counter_idx (wr_remote_addr wr)) s2 = Some (shm d')"
    "cr \<noteq> 0 \<longrightarrow> finish_rpc i (counter_idx (wr_remote_addr wr)) s2 = Some (shm d')"
  using assms post_rpc_finish [of nic qp i "counter_idx (wr_remote_addr wr)" wr "d\<lparr>shm := _\<rparr>" ret wr' d']
  by (auto simp: mlx5_post_send_def bind_eq_Some_conv Let_def split: if_splits)

lemma post_send_run:
  assumes "mlx5_post_send nic qp wr d = Some (ret, wr', d')" "is_atomic (opcode wr)"
    "map_qpn_to_idx (records (shm d)) (ucast qp) False = Some i" "c_shm c = shm d" "c_pcs c i = Q_Idle"
  shows "run new {QP i} c (c\<lparr>c_shm := shm d'\<rparr>)"
proof -
  let ?ci = "counter_idx (wr_remote_addr wr)"
  obtain s1 s2 cr where s: "post_mark i (shm d) = Some s1" "post_epoch i s1 = Some s2"
    "arr_get (strag_credit s2) ?ci = Some cr"
    and fin: "cr = 0 \<longrightarrow> count_rnic i ?ci s2 = Some (shm d')" "cr \<noteq> 0 \<longrightarrow> finish_rpc i ?ci s2 = Some (shm d')"
    by (rule post_send_parts [OF assms(1-3)])
  let ?c1 = "c\<lparr>c_shm := s1, c_pcs := (c_pcs c)(i := Q_Marked ?ci)\<rparr>"
  let ?c2 = "c\<lparr>c_shm := s2, c_pcs := (c_pcs c)(i := Q_Bumped ?ci)\<rparr>"
  let ?c3 = "c\<lparr>c_shm := s2, c_pcs := (c_pcs c)(i := Q_Decided ?ci cr)\<rparr>"
  have "step new (QP i) c ?c1" using s(1) assms(4,5) counter_idx_lt by (intro step.mark) simp_all
  moreover have "step new (QP i) ?c1 ?c2" using step.bump [of ?c1 i ?ci s2 new] s(2) by simp
  moreover have "step new (QP i) ?c2 ?c3" using step.decide [of ?c2 i ?ci cr new] s(3) by simp
  moreover have "step new (QP i) ?c3 (c\<lparr>c_shm := shm d'\<rparr>)"
  proof -
    have idle: "(c_pcs c)(i := Q_Idle) = c_pcs c" using assms(5) by auto
    show ?thesis using step.to_card [of ?c3 i ?ci "shm d'" new] step.to_cpu [of ?c3 i ?ci cr "shm d'" new] fin
      by (cases "cr = 0") (simp_all add: idle)
  qed
  ultimately show ?thesis by (meson run.more run.stop singletonI)
qed

lemma rnic_keeps_running:
  assumes "mlx5_post_send nic qp wr d = Some (ret, wr', d')" "is_atomic (opcode wr)"
    "map_qpn_to_idx (records (shm d)) (ucast qp) False = Some i"
    "strag_credit (shm d) ! counter_idx (wr_remote_addr wr) = 0"
  shows "running (shm d') ! i \<noteq> 0"
proof -
  let ?ci = "counter_idx (wr_remote_addr wr)"
  obtain s1 s2 cr where s: "post_mark i (shm d) = Some s1" "post_epoch i s1 = Some s2"
    "arr_get (strag_credit s2) ?ci = Some cr" "cr = 0 \<longrightarrow> count_rnic i ?ci s2 = Some (shm d')"
    "cr \<noteq> 0 \<longrightarrow> finish_rpc i ?ci s2 = Some (shm d')"
    by (rule post_send_parts [OF assms(1-3)])
  note fr = post_mark_frame [OF s(1)] post_epoch_frame [OF s(2)]
  have "cr = 0" using s(3) assms(4) fr by (simp add: arr_get_eq_Some_iff)
  then have "running (shm d') = running s2" using count_rnic_frame(2) s(4) by blast
  then show ?thesis using fr by simp
qed

text \<open>A queue pair that is idle can get as far as its decision.\<close>

lemma start_operation:
  assumes "c_pcs c i = Q_Idle" "ci < COUNTER_TOTAL" "length (strag_credit (c_shm c)) = COUNTER_TOTAL"
    "i < length (running (c_shm c))" "i < length (epoch (c_shm c))"
  shows "\<exists>c'. run new {QP i} c c' \<and> c_agent c' = c_agent c \<and> registered c' = registered c \<and>
    c_pcs c' i = Q_Decided ci (strag_credit (c_shm c) ! ci)"
proof -
  obtain s1 where s1: "post_mark i (c_shm c) = Some s1"
    using assms(4) by (simp add: post_mark_def c_access)
  obtain s2 where s2: "post_epoch i s1 = Some s2"
    using assms(5) post_mark_frame [OF s1] by (simp add: post_epoch_def c_access)
  note fr = post_mark_frame [OF s1] post_epoch_frame [OF s2]
  let ?c1 = "c\<lparr>c_shm := s1, c_pcs := (c_pcs c)(i := Q_Marked ci)\<rparr>"
  let ?c2 = "c\<lparr>c_shm := s2, c_pcs := (c_pcs c)(i := Q_Bumped ci)\<rparr>"
  let ?c3 = "c\<lparr>c_shm := s2, c_pcs := (c_pcs c)(i := Q_Decided ci (strag_credit (c_shm c) ! ci))\<rparr>"
  have "step new (QP i) c ?c1" using s1 assms(1,2) by (intro step.mark)
  moreover have "step new (QP i) ?c1 ?c2" using step.bump [of ?c1 i ci s2 new] s2 by simp
  moreover have "step new (QP i) ?c2 ?c3"
    using step.decide [of ?c2 i ci "strag_credit (c_shm c) ! ci" new] assms(2,3) fr by (simp add: c_access)
  ultimately have "run new {QP i} c ?c3" by (meson run.more run.stop singletonI)
  moreover have "registered ?c3 = registered c" using fr by (simp add: registered_def fun_eq_iff)
  ultimately show ?thesis by (intro exI [of _ ?c3]) simp
qed

text \<open>
  The example of the properties: queue pair 7 is registered, nothing is running, and a table of ones is
  to replace a table of the given credits.
\<close>

definition example_handover :: "u16 \<Rightarrow> cstate" where
  "example_handover cr = \<lparr>c_shm = shm (example_state cr), c_pcs = (\<lambda>_. Q_Idle), c_agent = A_Copy 0\<rparr>"

lemma example_handover_ok:
  "handover_start (replicate COUNTER_TOTAL 1) (example_handover cr)" "registered (example_handover cr) 7"
  "\<forall>i < MAX_RECORDER_NUM. running (c_shm (example_handover cr)) ! i = 0"
  by (simp_all add: handover_start_def registered_def example_handover_def example_state_def zero_region_def
      zero_recorder_def MAX_RECORDER_NUM_def)

section \<open>Properties\<close>

text \<open>
  Property C6. The hand-over is safe under every interleaving of the agent and the queue pairs: once the
  agent has reached the end of \<open>wait_sync\<close>, no registered queue pair works with a credit that is not the
  one of the new table, so that the server may act on the new table when all machines have reported.
\<close>

theorem handover_safe:
  assumes "handover_start new c" "run new UNIV c c'" "c_agent c' = A_Done"
    "i < MAX_RECORDER_NUM" "registered c' i" "c_pcs c' i = Q_Decided ci cr"
  shows "strag_credit (c_shm c') = new \<and> cr = new ! ci"
proof -
  have "handover_inv (strag_credit (c_shm c)) new c'" by (rule run_inv [OF assms(2,1)])
  then show ?thesis using assms(3-6) by (auto simp: handover_inv_def table_at_def fresh_def)
qed

theorem handover_safe_witness:
  "\<exists>c cr. run (replicate COUNTER_TOTAL 1) UNIV (example_handover 0) c \<and> c_agent c = A_Done \<and>
     c_pcs c 7 = Q_Decided 100 cr \<and> cr = 1"
proof -
  let ?new = "replicate COUNTER_TOTAL 1" and ?c = "example_handover 0"
  let ?d = "?c\<lparr>c_shm := (c_shm ?c)\<lparr>strag_credit := ?new\<rparr>, c_agent := A_Done\<rparr>"
  have len: "length (records (c_shm ?c)) = MAX_RECORDER_NUM" "length (epoch (c_shm ?c)) = MAX_RECORDER_NUM"
    "length (running (c_shm ?c)) = MAX_RECORDER_NUM"
    by (simp_all add: example_handover_def example_state_def zero_region_def)
  have seven: "7 < MAX_RECORDER_NUM" "100 < COUNTER_TOTAL"
    by (simp_all add: MAX_RECORDER_NUM_def MAX_COUNTER_NUM_def SLOT_GRANULARITY_def)
  have run1: "run ?new UNIV ?c ?d"
    by (rule run_mono [OF run_alone [OF example_handover_ok(1) len example_handover_ok(3)]]) simp
  obtain c' where c': "run ?new {QP 7} ?d c'" "c_agent c' = A_Done" "registered c' = registered ?d"
    "c_pcs c' 7 = Q_Decided 100 (?new ! 100)"
    using start_operation [of ?d 7 100 ?new] len seven by (auto simp: example_handover_def)
  have run2: "run ?new UNIV ?c c'" by (rule run_trans [OF run_mono [OF c'(1)] run1]) simp
  have "registered ?d = registered ?c" by (simp add: registered_def fun_eq_iff)
  then have "registered c' 7" using c'(3) example_handover_ok(2) [of 0] by metis
  from handover_safe [OF example_handover_ok(1) run2 c'(2) seven(1) this c'(4)] show ?thesis
    using run2 c' seven(2) by (intro exI [of _ c'] exI [of _ 1]) simp
qed

text \<open>
  Property C18. The path to the card never clears \<open>running\<close>: a registered queue pair that posts an operation
  to the card and then posts nothing keeps the agent in \<open>wait_sync\<close> for ever, whatever the other queue
  pairs do, and with it the server, which waits for all machines.
\<close>

theorem handover_stuck:
  assumes "mlx5_post_send nic qp wr d = Some (ret, wr', d')" "is_atomic (opcode wr)"
    "map_qpn_to_idx (records (shm d)) (ucast qp) False = Some i"
    "strag_credit (shm d) ! counter_idx (wr_remote_addr wr) = 0"
    "c_shm c = shm d'" "handover_start new c" "registered c i" "i < MAX_RECORDER_NUM"
    "run new (UNIV - {QP i}) c c'"
  shows "c_agent c' \<noteq> A_Done"
proof -
  have "held i c" using rnic_keeps_running [OF assms(1-4)] assms(5,6,7) by (simp add: held_def handover_start_def)
  then show ?thesis using held_run [OF assms(9)] held_not_done assms(8) by blast
qed

theorem handover_stuck_witness:
  "\<exists>d' c'. mlx5_post_send (\<lambda>_ _. 0) 7 example_wr (example_state 0) = Some (0, example_wr, d') \<and>
     run (replicate COUNTER_TOTAL 1) (UNIV - {QP 7}) ((example_handover 0)\<lparr>c_shm := shm d'\<rparr>) c' \<and>
     c_agent c' \<noteq> A_Done"
proof -
  obtain d' where d': "mlx5_post_send (\<lambda>_ _. 0) 7 example_wr (example_state 0) = Some (0, example_wr, d')"
    "shm_ok (shm d')" "qpns (records (shm d')) = qpns (records (shm (example_state 0)))"
    using post_send_rnic [OF example_ok(1) example_wr_sel(1) example_lookup example_credit, where nic = "\<lambda>_ _. 0"] by blast
  let ?c = "(example_handover 0)\<lparr>c_shm := shm d'\<rparr>"
  have "handover_start (replicate COUNTER_TOTAL 1) ?c"
    using d'(2) by (simp add: handover_start_def example_handover_def shm_ok_def)
  moreover have "map rec_qpn (records (c_shm ?c)) = map rec_qpn (records (c_shm (example_handover 0)))"
    using d'(3) by (simp add: qpns_def example_handover_def)
  then have "registered ?c 7 = registered (example_handover 0) 7" unfolding registered_def by (metis length_map)
  then have "registered ?c 7" using example_handover_ok(2) [of 0] by simp
  ultimately have "c_agent ?c \<noteq> A_Done"
    using handover_stuck [OF d'(1) example_wr_sel(1) example_lookup example_credit, of ?c "replicate COUNTER_TOTAL 1" ?c]
    by (simp add: MAX_RECORDER_NUM_def run.stop)
  then show ?thesis using d'(1) run.stop by blast
qed

text \<open>
  Property C20. The hand-over completes: while no operation is running, the agent alone reaches the end of
  \<open>wait_sync\<close> in finitely many steps, with the new table in place and everything else unchanged.
\<close>

theorem handover_completes:
  assumes "handover_start new c" "shm_ok (c_shm c)" "\<forall>i < MAX_RECORDER_NUM. running (c_shm c) ! i = 0"
  shows "run new {Agent} c (c\<lparr>c_shm := (c_shm c)\<lparr>strag_credit := new\<rparr>, c_agent := A_Done\<rparr>)"
  by (rule run_alone) (use assms in \<open>simp_all add: shm_ok_def\<close>)

theorem handover_completes_witness:
  "run (replicate COUNTER_TOTAL 1) {Agent} (example_handover 0)
     ((example_handover 0)\<lparr>c_shm := (shm (example_state 0))\<lparr>strag_credit := replicate COUNTER_TOTAL 1\<rparr>, c_agent := A_Done\<rparr>)"
  using handover_completes [OF example_handover_ok(1) _ example_handover_ok(3), of 0] example_ok(1) [of 0]
  by (simp add: example_handover_def)

text \<open>
  Property C19. The steps of a queue pair are those of the driver: what \<open>mlx5_post_send\<close> does to the shared
  memory for an atomic operation is a run of steps of that queue pair alone, from idle to idle.
\<close>

theorem post_send_refines_steps:
  assumes "mlx5_post_send nic qp wr d = Some (ret, wr', d')" "is_atomic (opcode wr)"
    "map_qpn_to_idx (records (shm d)) (ucast qp) False = Some i" "c_shm c = shm d" "c_pcs c i = Q_Idle"
  shows "run new {QP i} c (c\<lparr>c_shm := shm d'\<rparr>)"
  by (rule post_send_run [OF assms])

theorem post_send_refines_steps_witness:
  "\<exists>d'. mlx5_post_send (\<lambda>_ _. 0) 7 example_wr (example_state 0) = Some (0, example_wr, d') \<and>
     run (replicate COUNTER_TOTAL 1) {QP 7} (example_handover 0) ((example_handover 0)\<lparr>c_shm := shm d'\<rparr>)"
proof -
  obtain d' where d': "mlx5_post_send (\<lambda>_ _. 0) 7 example_wr (example_state 0) = Some (0, example_wr, d')"
    using post_send_rnic [OF example_ok(1) example_wr_sel(1) example_lookup example_credit, where nic = "\<lambda>_ _. 0"] by blast
  from post_send_refines_steps [OF d' example_wr_sel(1) example_lookup, of "example_handover 0" "replicate COUNTER_TOTAL 1"]
  show ?thesis using d' by (simp add: example_handover_def)
qed

end
