(* ===== verification/Rpc_Server.thy ===== *)
theory Rpc_Server
  imports Agent_Client
begin

text \<open>
  The memory server that executes the operations the driver sends as messages
  (\<^verbatim>\<open>providers/mlx5/fusioncas/test/server.cpp\<close>, \<open>Server::rpc_func_impl\<close>): its threads scan the
  slots of the queue pairs, decide by the credits and the consensus counter of the server agent
  whether an operation is executed or rejected, execute a compare-and-swap on the memory, and send
  the value found back.

  Memory is a function from addresses to 64-bit cells. The slots are the lists of requests and
  responses from \<open>req_buf\<close> and \<open>resp_buf\<close> on. Between the accesses of a thread to a cell other
  threads and the card may change the memory, by the parameter \<open>env\<close>. That a completion is there
  when it is polled for is assumed; the calls made are recorded.
\<close>

section \<open>Configuration and state\<close>

record srv_cfg =
  machine_num :: u64
  rpc_region_size :: u64
  rpc_addr :: u64
  rpc_thread_num :: u64
  thread_qp_batch :: u64
  unsignal_batch :: u64
  remote_rkey :: "nat \<Rightarrow> u32"
  qp_size :: "nat \<Rightarrow> u64"

record reply =
  rp_wr_id :: u64
  rp_flags :: u32
  rp_rkey :: u32
  rp_addr :: u64

datatype srv_call = PollCq nat | PostReplies nat "reply list"

record srv =
  rs_mem :: "u64 \<Rightarrow> u64"
  rs_req :: "rpc_op list"
  rs_resp :: "rpc_op list"
  rs_send_tx :: "u64 list"
  rs_last_signaled :: "u64 list"
  rs_batch_cnt :: "u64 list"
  rs_wr :: "reply list list"
  rs_reject_cnt :: u64
  rs_calls :: "srv_call list"

text \<open>
  The table from the number of a client's queue pair to the server's: \<open>emplace\<close> keeps the first
  entry of a key. \<open>sizes\<close> are the numbers of queue pairs of the machines, \<open>dest\<close> the numbers of
  their remote ends.
\<close>

definition qpn_entries :: "nat list \<Rightarrow> (nat \<Rightarrow> u64) \<Rightarrow> (u64 \<times> nat) list" where
  "qpn_entries sizes dest = concat (map (\<lambda>i. map (\<lambda>j.
     (dest (sum_list (take i sizes) + j) + of_nat i * QP_OFF, sum_list (take i sizes) + j))
     [0..<sizes ! i]) [0..<length sizes])"

definition qpn_table :: "nat list \<Rightarrow> (nat \<Rightarrow> u64) \<Rightarrow> u64 \<Rightarrow> nat option" where
  "qpn_table sizes dest = map_of (qpn_entries sizes dest)"

text \<open>What the server publishes of itself in shared memory.\<close>

definition publish_meta :: "srv_cfg \<Rightarrow> u64 \<Rightarrow> rpc_meta \<Rightarrow> rpc_meta" where
  "publish_meta cfg rkey meta = meta\<lparr>rm_machine_num := machine_num cfg, rm_rkey := rkey, rm_rpc_addr := rpc_addr cfg,
     rm_length := rpc_region_size cfg div 2, rm_crc := CRC_COMPLETE\<rparr>"

definition window_size :: "srv_cfg \<Rightarrow> u64 option" where
  "window_size cfg = c_div (rpc_region_size cfg) (2 * (of_nat MAX_RECORDER_NUM * machine_num cfg) * sizeof_rpc_op)"

text \<open>The addresses of slot \<open>n\<close> of the requests, and of the member \<open>comp\<close> of slot \<open>n\<close> of the responses.\<close>

definition req_slot :: "srv_cfg \<Rightarrow> nat \<Rightarrow> u64" where
  "req_slot cfg n = rpc_addr cfg + sizeof_rpc_op * of_nat n"

definition resp_comp :: "srv_cfg \<Rightarrow> nat \<Rightarrow> u64" where
  "resp_comp cfg n = rpc_addr cfg + rpc_region_size cfg div 2 + sizeof_rpc_op * of_nat n + 48"

section \<open>Serving a request\<close>

definition reject_resp :: "srv_cfg \<Rightarrow> server_layout \<Rightarrow> u64 \<Rightarrow> bool option" where
  "reject_resp cfg layout addr = do {
     let ci = counter_idx addr;
     new_credit \<leftarrow> arr_get (resp_credit (sl_strategies layout)) ci;
     old_credit \<leftarrow> arr_get (resp_credit (sl_old_strategies layout)) ci;
     if new_credit XOR old_credit = 1 \<and> new_credit = 1 then do {
       m \<leftarrow> c_mod (sl_consensus layout) (machine_num cfg);
       Some (m \<noteq> 0)
     }
     else Some (new_credit = 0)
   }"

text \<open>
  The compare-and-swap. The cell is read first; the atomic instruction stores the value it found in
  the request when it fails; on the other branch the cell is read again.
\<close>

definition execute_cas :: "((u64 \<Rightarrow> u64) \<Rightarrow> u64 \<Rightarrow> u64) \<Rightarrow> rpc_op \<Rightarrow> rpc_op \<Rightarrow> (u64 \<Rightarrow> u64) \<Rightarrow>
    (u64 \<Rightarrow> u64) \<times> rpc_op \<times> rpc_op" where
  "execute_cas env req resp mem = (
     let a = op_remote_addr req; mem' = env mem in
     if mem a = op_cmp req then
       let (found, v) = CAS_cell (mem' a) (op_cmp req) (op_swap req) in
       (mem'(a := v), req\<lparr>op_cmp := found\<rparr>, resp\<lparr>op_comp := found, op_crc := CRC_CHECK_MAGIC\<rparr>)
     else (mem', req, resp\<lparr>op_comp := mem' a, op_crc := CRC_CHECK_MAGIC\<rparr>))"

definition execute :: "((u64 \<Rightarrow> u64) \<Rightarrow> u64 \<Rightarrow> u64) \<Rightarrow> u64 \<Rightarrow> bool \<Rightarrow> rpc_op \<Rightarrow> rpc_op \<Rightarrow> (u64 \<Rightarrow> u64) \<Rightarrow>
    ((u64 \<Rightarrow> u64) \<times> rpc_op \<times> rpc_op) option" where
  "execute env nr_qp reject req resp mem =
     (if op_opcode req = 1 \<and> reject = False then do {
        t_local_id \<leftarrow> c_mod (op_qpn req) nr_qp;
        Some (execute_cas env req resp mem)
      }
      else if op_opcode req = FAA_OP_CODE then Some (mem, req, resp)
      else if reject then Some (mem, req, resp\<lparr>op_comp := op_swap req, op_crc := CRC_CHECK_MAGIC\<rparr>)
      else Some (mem, req, resp))"

text \<open>The reply: its work request, the poll for the previous signalled one, and the batch.\<close>

definition send_reply :: "srv_cfg \<Rightarrow> nat \<Rightarrow> nat \<Rightarrow> nat \<Rightarrow> nat \<Rightarrow> srv \<Rightarrow> srv option" where
  "send_reply cfg t k cur_idx n st = do {
     let signal_mask = unsignal_batch cfg - 1;
     b \<leftarrow> arr_get (rs_batch_cnt st) cur_idx;
     tx \<leftarrow> arr_get (rs_send_tx st) cur_idx;
     ls \<leftarrow> arr_get (rs_last_signaled st) cur_idx;
     ws \<leftarrow> arr_get (rs_wr st) cur_idx;
     let flags = (if tx AND signal_mask = 0 then IBV_SEND_SIGNALED else 0);
     ws \<leftarrow> arr_set ws (unat b) \<lparr>rp_wr_id = tx, rp_flags = flags, rp_rkey = remote_rkey cfg k, rp_addr = resp_comp cfg n\<rparr>;
     let polls = (if tx AND signal_mask = 0 \<and> ls \<noteq> tx then [PollCq t] else []);
     let posts = (if b AND (thread_qp_batch cfg - 1) = thread_qp_batch cfg - 1 then [PostReplies t ws] else []);
     b' \<leftarrow> c_mod (b + 1) (thread_qp_batch cfg);
     Some (st\<lparr>rs_wr := (rs_wr st)[cur_idx := ws],
       rs_last_signaled := (rs_last_signaled st)[cur_idx := if flags = IBV_SEND_SIGNALED then tx else ls],
       rs_batch_cnt := (rs_batch_cnt st)[cur_idx := b'],
       rs_send_tx := (rs_send_tx st)[cur_idx := tx + 1],
       rs_calls := rs_calls st @ polls @ posts\<rparr>)
   }"

definition serve :: "(nat \<Rightarrow> (u64 \<Rightarrow> u64) \<Rightarrow> u64 \<Rightarrow> u64) \<Rightarrow> srv_cfg \<Rightarrow> (u64 \<Rightarrow> nat option) \<Rightarrow> server_layout \<Rightarrow>
    nat \<Rightarrow> nat \<Rightarrow> nat \<Rightarrow> srv \<Rightarrow> srv option" where
  "serve env cfg table layout k cur_idx n st = do {
     req \<leftarrow> arr_get (rs_req st) n;
     if op_crc req = CRC_CHECK_MAGIC then do {
       reject \<leftarrow> reject_resp cfg layout (op_remote_addr req);
       t \<leftarrow> table (op_qpn req);
       resp \<leftarrow> arr_get (rs_resp st) n;
       (mem, req, resp) \<leftarrow> execute (env n) (qp_size cfg k) reject req resp (rs_mem st);
       send_reply cfg t k cur_idx n (st\<lparr>rs_mem := mem, rs_req := (rs_req st)[n := req\<lparr>op_crc := 0\<rparr>],
         rs_resp := (rs_resp st)[n := resp], rs_reject_cnt := rs_reject_cnt st + (if reject then 1 else 0)\<rparr>)
     }
     else Some st
   }"

text \<open>One round of the endless loop of thread \<open>logic_id\<close>.\<close>

definition rpc_round :: "(nat \<Rightarrow> (u64 \<Rightarrow> u64) \<Rightarrow> u64 \<Rightarrow> u64) \<Rightarrow> srv_cfg \<Rightarrow> (u64 \<Rightarrow> nat option) \<Rightarrow> server_layout \<Rightarrow>
    nat \<Rightarrow> srv \<Rightarrow> srv option" where
  "rpc_round env cfg table layout logic_id st = do {
     w \<leftarrow> window_size cfg;
     per_thread \<leftarrow> c_div (of_nat MAX_RECORDER_NUM) (rpc_thread_num cfg);
     for_loop 0 (unat (machine_num cfg)) (\<lambda>k.
       for_loop (unat per_thread * logic_id) (unat per_thread * (logic_id + 1)) (\<lambda>i.
         for_loop 0 (unat w) (\<lambda>j.
           let cur_idx = k * MAX_RECORDER_NUM + i in
           serve env cfg table layout k cur_idx (cur_idx * unat w + j)))) st
   }"

section \<open>The decision\<close>

lemma reject_resp_eq:
  assumes "length (resp_credit (sl_strategies layout)) = COUNTER_TOTAL"
    "length (resp_credit (sl_old_strategies layout)) = COUNTER_TOTAL" "machine_num cfg \<noteq> 0"
  shows "reject_resp cfg layout a = Some (
    if resp_credit (sl_strategies layout) ! counter_idx a XOR resp_credit (sl_old_strategies layout) ! counter_idx a = 1 \<and>
       resp_credit (sl_strategies layout) ! counter_idx a = 1
    then sl_consensus layout mod machine_num cfg \<noteq> 0
    else resp_credit (sl_strategies layout) ! counter_idx a = 0)"
proof -
  define n where "n = resp_credit (sl_strategies layout) ! counter_idx a"
  define k where "k = resp_credit (sl_old_strategies layout) ! counter_idx a"
  have "arr_get (resp_credit (sl_strategies layout)) (counter_idx a) = Some n"
    "arr_get (resp_credit (sl_old_strategies layout)) (counter_idx a) = Some k"
    using assms(1,2) counter_idx_lt [of a] by (simp_all add: c_access n_def k_def)
  then show ?thesis using assms(3) unfolding n_def [symmetric] k_def [symmetric]
    by (cases "n XOR k = 1 \<and> n = 1") (auto simp: reject_resp_def c_mod_def)
qed

text \<open>With credits 0 and 1, which are all the agent produces.\<close>

lemma reject_resp_binary:
  assumes "length (resp_credit (sl_strategies layout)) = COUNTER_TOTAL"
    "length (resp_credit (sl_old_strategies layout)) = COUNTER_TOTAL" "machine_num cfg \<noteq> 0"
    "set (resp_credit (sl_strategies layout)) \<subseteq> {0, 1}" "set (resp_credit (sl_old_strategies layout)) \<subseteq> {0, 1}"
  shows "reject_resp cfg layout a = Some (\<not> (resp_credit (sl_strategies layout) ! counter_idx a = 1 \<and>
    (resp_credit (sl_old_strategies layout) ! counter_idx a = 1 \<or> sl_consensus layout mod machine_num cfg = 0)))"
proof -
  let ?n = "resp_credit (sl_strategies layout) ! counter_idx a"
  let ?o = "resp_credit (sl_old_strategies layout) ! counter_idx a"
  have "?n \<in> {0, 1}" "?o \<in> {0, 1}"
    using assms counter_idx_lt [of a] nth_mem [of "counter_idx a"] by (metis subsetD)+
  then show ?thesis unfolding reject_resp_eq [OF assms(1-3)] by auto
qed

section \<open>Well-formed server state\<close>

definition srv_ok :: "srv_cfg \<Rightarrow> srv \<Rightarrow> bool" where
  "srv_ok cfg st \<longleftrightarrow> (let c = MAX_RECORDER_NUM * unat (machine_num cfg) in
     length (rs_send_tx st) = c \<and> length (rs_last_signaled st) = c \<and> length (rs_batch_cnt st) = c \<and>
     length (rs_wr st) = c \<and> length (rs_resp st) = length (rs_req st) \<and> thread_qp_batch cfg \<noteq> 0 \<and>
     (\<forall>i < c. length (rs_wr st ! i) = unat (thread_qp_batch cfg) \<and> rs_batch_cnt st ! i < thread_qp_batch cfg))"

lemma send_reply_ok:
  assumes ok: "srv_ok cfg st" and cur: "cur < MAX_RECORDER_NUM * unat (machine_num cfg)"
  shows "\<exists>st'. send_reply cfg t k cur n st = Some st' \<and> srv_ok cfg st' \<and> rs_mem st' = rs_mem st \<and>
    rs_req st' = rs_req st \<and> rs_resp st' = rs_resp st \<and> rs_reject_cnt st' = rs_reject_cnt st \<and>
    (thread_qp_batch cfg = 1 \<longrightarrow> (\<exists>polls r. rs_calls st' = rs_calls st @ polls @ [PostReplies t [r]] \<and>
       set polls \<subseteq> {PollCq t} \<and> rp_addr r = resp_comp cfg n))"
proof -
  have l: "cur < length (rs_send_tx st)" "cur < length (rs_last_signaled st)" "cur < length (rs_batch_cnt st)"
    "cur < length (rs_wr st)" and b: "length (rs_wr st ! cur) = unat (thread_qp_batch cfg)"
    "rs_batch_cnt st ! cur < thread_qp_batch cfg" "thread_qp_batch cfg \<noteq> 0"
    using ok cur by (simp_all add: srv_ok_def Let_def)
  have ub: "unat (rs_batch_cnt st ! cur) < length (rs_wr st ! cur)" using b by (simp add: word_less_nat_alt)
  have md: "(rs_batch_cnt st ! cur + 1) mod thread_qp_batch cfg < thread_qp_batch cfg"
    using b(3) by (simp add: word_mod_less_divisor word_neq_0_conv)
  have one: "thread_qp_batch cfg = 1 \<Longrightarrow> rs_batch_cnt st ! cur = 0 \<and> length (rs_wr st ! cur) = 1"
    using b by (simp add: word_less_1)
  define r where "r = \<lparr>rp_wr_id = rs_send_tx st ! cur,
    rp_flags = (if rs_send_tx st ! cur AND (unsignal_batch cfg - 1) = 0 then IBV_SEND_SIGNALED else 0),
    rp_rkey = remote_rkey cfg k, rp_addr = resp_comp cfg n\<rparr>"
  define ws where "ws = (rs_wr st ! cur)[unat (rs_batch_cnt st ! cur) := r]"
  have ws1: "thread_qp_batch cfg = 1 \<Longrightarrow> ws = [r]"
    using one by (cases "rs_wr st ! cur") (auto simp: ws_def)
  let ?st = "st\<lparr>rs_wr := (rs_wr st)[cur := ws],
       rs_last_signaled := (rs_last_signaled st)[cur := if rp_flags r = IBV_SEND_SIGNALED then rs_send_tx st ! cur else rs_last_signaled st ! cur],
       rs_batch_cnt := (rs_batch_cnt st)[cur := (rs_batch_cnt st ! cur + 1) mod thread_qp_batch cfg],
       rs_send_tx := (rs_send_tx st)[cur := rs_send_tx st ! cur + 1],
       rs_calls := rs_calls st @
         (if rs_send_tx st ! cur AND (unsignal_batch cfg - 1) = 0 \<and> rs_last_signaled st ! cur \<noteq> rs_send_tx st ! cur then [PollCq t] else []) @
         (if rs_batch_cnt st ! cur AND (thread_qp_batch cfg - 1) = thread_qp_batch cfg - 1 then [PostReplies t ws] else [])\<rparr>"
  have "send_reply cfg t k cur n st = Some ?st"
    using l ub b(3) by (simp add: send_reply_def Let_def c_access c_mod_def r_def ws_def)
  moreover have "srv_ok cfg ?st"
    using ok b md l by (auto simp: srv_ok_def Let_def ws_def nth_list_update)
  moreover have "thread_qp_batch cfg = 1 \<longrightarrow> (\<exists>polls r. rs_calls ?st = rs_calls st @ polls @ [PostReplies t [r]] \<and>
       set polls \<subseteq> {PollCq t} \<and> rp_addr r = resp_comp cfg n)"
    using one ws1 by (auto simp: r_def)
  ultimately show ?thesis by (intro exI [of _ ?st]) simp
qed

section \<open>Serving slots\<close>

text \<open>Every pending message is from a queue pair of the table.\<close>

definition known :: "(u64 \<Rightarrow> nat option) \<Rightarrow> srv \<Rightarrow> bool" where
  "known table st \<longleftrightarrow> (\<forall>req \<in> set (rs_req st). op_crc req = CRC_CHECK_MAGIC \<longrightarrow> table (op_qpn req) \<noteq> None)"

lemma execute_ok: "nr_qp \<noteq> 0 \<Longrightarrow> \<exists>mem' req' resp'. execute env nr_qp rej req resp mem = Some (mem', req', resp')"
  by (cases "execute_cas env req resp mem") (simp add: execute_def c_mod_def)

lemma serve_ok:
  assumes ok: "srv_ok cfg st" "known table st" and n: "n < length (rs_req st)"
    and cur: "cur < MAX_RECORDER_NUM * unat (machine_num cfg)" and qp: "qp_size cfg k \<noteq> 0"
    and lay: "length (resp_credit (sl_strategies layout)) = COUNTER_TOTAL"
      "length (resp_credit (sl_old_strategies layout)) = COUNTER_TOTAL" "machine_num cfg \<noteq> 0"
  shows "\<exists>st'. serve env cfg table layout k cur n st = Some st' \<and> srv_ok cfg st' \<and> known table st' \<and>
    length (rs_req st') = length (rs_req st) \<and> op_crc (rs_req st' ! n) \<noteq> CRC_CHECK_MAGIC \<and>
    (\<forall>m. m \<noteq> n \<longrightarrow> rs_req st' ! m = rs_req st ! m)"
proof (cases "op_crc (rs_req st ! n) = CRC_CHECK_MAGIC")
  case False
  then show ?thesis using ok n by (auto simp: serve_def c_access)
next
  case True
  let ?req = "rs_req st ! n"
  obtain t where t: "table (op_qpn ?req) = Some t" using ok(2) n True by (auto simp: known_def)
  obtain rej where rej: "reject_resp cfg layout (op_remote_addr ?req) = Some rej"
    using reject_resp_eq [OF lay] by blast
  obtain mem' req' resp' where ex: "execute (env n) (qp_size cfg k) rej ?req (rs_resp st ! n) (rs_mem st) = Some (mem', req', resp')"
    using execute_ok [OF qp] by blast
  let ?st = "st\<lparr>rs_mem := mem', rs_req := (rs_req st)[n := req'\<lparr>op_crc := 0\<rparr>],
         rs_resp := (rs_resp st)[n := resp'], rs_reject_cnt := rs_reject_cnt st + (if rej then 1 else 0)\<rparr>"
  have ok': "srv_ok cfg ?st" using ok(1) by (simp add: srv_ok_def Let_def)
  have kn: "known table ?st" using ok(2) set_update_subset_insert [of "rs_req st" n "req'\<lparr>op_crc := 0\<rparr>"]
    by (auto simp: known_def CRC_CHECK_MAGIC_def)
  obtain st' where st': "send_reply cfg t k cur n ?st = Some st'" "srv_ok cfg st'" "rs_req st' = rs_req ?st"
    using send_reply_ok [OF ok' cur] by blast
  have "n < length (rs_resp st)" using ok(1) n by (simp add: srv_ok_def Let_def)
  then have "serve env cfg table layout k cur n st = Some st'"
    using n True t rej ex st'(1) by (simp add: serve_def c_access)
  moreover have "known table st'" using kn st'(3) by (simp add: known_def)
  ultimately show ?thesis using st' n by (auto simp: CRC_CHECK_MAGIC_def)
qed

text \<open>A loop whose rounds each deal with a set of slots deals with all of them.\<close>

lemma loop_visits:
  assumes "lo \<le> hi" "Q V st" "\<And>i V st. lo \<le> i \<Longrightarrow> i < hi \<Longrightarrow> Q V st \<Longrightarrow> \<exists>st'. f i st = Some st' \<and> Q (V \<union> S i) st'"
  shows "\<exists>st'. for_loop lo hi f st = Some st' \<and> Q (V \<union> (\<Union>i \<in> {lo..<hi}. S i)) st'"
proof (rule for_loop_inv [where I = "\<lambda>n. Q (V \<union> (\<Union>i \<in> {lo..<n}. S i))"])
  fix i st assume i: "lo \<le> i" "i < hi" "Q (V \<union> (\<Union>i \<in> {lo..<i}. S i)) st"
  have "V \<union> (\<Union>i \<in> {lo..<Suc i}. S i) = (V \<union> (\<Union>i \<in> {lo..<i}. S i)) \<union> S i"
    using i(1) by (auto simp: atLeastLessThanSuc)
  then show "\<exists>st'. f i st = Some st' \<and> Q (V \<union> (\<Union>i \<in> {lo..<Suc i}. S i)) st'"
    using assms(3) [OF i] by simp
qed (use assms in simp_all)

text \<open>The slots of the queue pairs that a thread scans.\<close>

definition slots :: "srv_cfg \<Rightarrow> nat \<Rightarrow> nat \<Rightarrow> nat \<Rightarrow> nat set" where
  "slots cfg per w l = (\<Union>k \<in> {0..<unat (machine_num cfg)}. \<Union>i \<in> {per * l..<per * (l + 1)}. \<Union>j \<in> {0..<w}.
     {(k * MAX_RECORDER_NUM + i) * w + j})"

text \<open>The state in which the slots \<open>V\<close> have been dealt with, starting from \<open>st0\<close>.\<close>

definition served :: "srv_cfg \<Rightarrow> (u64 \<Rightarrow> nat option) \<Rightarrow> srv \<Rightarrow> nat set \<Rightarrow> srv \<Rightarrow> bool" where
  "served cfg table st0 V st \<longleftrightarrow> srv_ok cfg st \<and> known table st \<and> length (rs_req st) = length (rs_req st0) \<and>
     (\<forall>n \<in> V. op_crc (rs_req st ! n) \<noteq> CRC_CHECK_MAGIC) \<and> (\<forall>n. n \<notin> V \<longrightarrow> rs_req st ! n = rs_req st0 ! n)"

lemma served_step:
  assumes "served cfg table st0 V st" "n < length (rs_req st0)" "cur < MAX_RECORDER_NUM * unat (machine_num cfg)"
    "qp_size cfg k \<noteq> 0" "length (resp_credit (sl_strategies layout)) = COUNTER_TOTAL"
    "length (resp_credit (sl_old_strategies layout)) = COUNTER_TOTAL" "machine_num cfg \<noteq> 0"
  shows "\<exists>st'. serve env cfg table layout k cur n st = Some st' \<and> served cfg table st0 (V \<union> {n}) st'"
proof -
  obtain st' where st': "serve env cfg table layout k cur n st = Some st'" "srv_ok cfg st'" "known table st'"
    "length (rs_req st') = length (rs_req st)" "op_crc (rs_req st' ! n) \<noteq> CRC_CHECK_MAGIC"
    "\<forall>m. m \<noteq> n \<longrightarrow> rs_req st' ! m = rs_req st ! m"
    using serve_ok [of cfg st table n cur k layout env] assms by (auto simp: served_def)
  have "op_crc (rs_req st' ! m) \<noteq> CRC_CHECK_MAGIC" if "m \<in> V \<union> {n}" for m
    using that st'(5,6) assms(1) by (cases "m = n") (auto simp: served_def)
  moreover have "rs_req st' ! m = rs_req st0 ! m" if "m \<notin> V \<union> {n}" for m
    using that st'(6) assms(1) by (simp add: served_def)
  ultimately have "served cfg table st0 (V \<union> {n}) st'" using st'(2-4) assms(1) by (simp add: served_def)
  then show ?thesis using st'(1) by blast
qed

text \<open>One round of a thread deals with exactly the slots of its queue pairs.\<close>

lemma slot_lt:
  assumes "k < m" "i < MAX_RECORDER_NUM" "j < w"
  shows "k * MAX_RECORDER_NUM + i < MAX_RECORDER_NUM * m"
    "(k * MAX_RECORDER_NUM + i) * w + j < MAX_RECORDER_NUM * m * w"
proof -
  have "Suc k * MAX_RECORDER_NUM \<le> m * MAX_RECORDER_NUM" using assms(1) by (intro mult_le_mono) simp_all
  then show c: "k * MAX_RECORDER_NUM + i < MAX_RECORDER_NUM * m" using assms(2) by (simp add: mult.commute)
  then have "Suc (k * MAX_RECORDER_NUM + i) * w \<le> (MAX_RECORDER_NUM * m) * w" by (intro mult_le_mono) simp_all
  then show "(k * MAX_RECORDER_NUM + i) * w + j < MAX_RECORDER_NUM * m * w" using assms(3) by simp
qed

lemma rpc_round_served:
  assumes ok: "srv_ok cfg st" "known table st" and w: "window_size cfg = Some w"
    and len: "length (rs_req st) = MAX_RECORDER_NUM * unat (machine_num cfg) * unat w"
    and th: "l < unat (rpc_thread_num cfg)" and qp: "\<forall>k < unat (machine_num cfg). qp_size cfg k \<noteq> 0"
    and lay: "length (resp_credit (sl_strategies layout)) = COUNTER_TOTAL"
      "length (resp_credit (sl_old_strategies layout)) = COUNTER_TOTAL" "machine_num cfg \<noteq> 0"
  defines "per \<equiv> MAX_RECORDER_NUM div unat (rpc_thread_num cfg)"
  shows "\<exists>st'. rpc_round env cfg table layout l st = Some st' \<and> served cfg table st (slots cfg per (unat w) l) st'"
proof -
  let ?m = "unat (machine_num cfg)" and ?w = "unat w" and ?R = "served cfg table st"
  have tn: "rpc_thread_num cfg \<noteq> 0" using th by auto
  have lt: "32 div unat (rpc_thread_num cfg) < 18446744073709551616"
    by (rule le_less_trans [OF div_le_dividend]) simp
  have per: "c_div (of_nat MAX_RECORDER_NUM) (rpc_thread_num cfg) = Some (of_nat per)"
    "unat (of_nat per :: u64) = per"
    unfolding word_unat_eq_iff c_div_def per_def using tn
    by (simp_all add: unat_div MAX_RECORDER_NUM_def unat_of_nat word_unat_eq_iff mod_less [OF lt])
  have "per * Suc l \<le> per * unat (rpc_thread_num cfg)" using th by (intro mult_le_mono) simp_all
  also have "\<dots> \<le> MAX_RECORDER_NUM" by (simp add: per_def)
  finally have top: "per * (l + 1) \<le> MAX_RECORDER_NUM" by simp
  let ?g = "\<lambda>k i j. let cur_idx = k * MAX_RECORDER_NUM + i in serve env cfg table layout k cur_idx (cur_idx * ?w + j)"
  have one: "\<exists>st''. ?g k i j st' = Some st'' \<and> ?R (V \<union> {(k * MAX_RECORDER_NUM + i) * ?w + j}) st''"
    if "k < ?m" "i < MAX_RECORDER_NUM" "j < ?w" "?R V st'" for k i j V st'
    unfolding Let_def using that slot_lt [OF that(1-3)] qp len
    by (intro served_step [OF that(4) _ _ _ lay]) simp_all
  have row: "\<exists>st''. for_loop 0 ?w (?g k i) st' = Some st'' \<and>
      ?R (V \<union> (\<Union>j \<in> {0..<?w}. {(k * MAX_RECORDER_NUM + i) * ?w + j})) st''"
    if "k < ?m" "i < MAX_RECORDER_NUM" "?R V st'" for k i V st'
    by (rule loop_visits [where Q = ?R, OF _ that(3)]) (use one that in auto)
  have mach: "\<exists>st''. for_loop (per * l) (per * (l + 1)) (\<lambda>i. for_loop 0 ?w (?g k i)) st' = Some st'' \<and>
      ?R (V \<union> (\<Union>i \<in> {per * l..<per * (l + 1)}. \<Union>j \<in> {0..<?w}. {(k * MAX_RECORDER_NUM + i) * ?w + j})) st''"
    if "k < ?m" "?R V st'" for k V st'
    by (rule loop_visits [where Q = ?R, OF _ that(2)]) (use row that top in auto)
  have "\<exists>st'. for_loop 0 ?m (\<lambda>k. for_loop (per * l) (per * (l + 1)) (\<lambda>i. for_loop 0 ?w (?g k i))) st = Some st' \<and>
      ?R ({} \<union> slots cfg per ?w l) st'"
    unfolding slots_def
    by (rule loop_visits [where Q = ?R]) (use mach ok in \<open>auto simp: served_def\<close>)
  then show ?thesis by (simp add: rpc_round_def w per)
qed

lemma threads_slots:
  assumes "0 < w"
  shows "n \<in> (\<Union>l \<in> {..<tn}. slots cfg (MAX_RECORDER_NUM div tn) w l) \<longleftrightarrow>
    n div w div MAX_RECORDER_NUM < unat (machine_num cfg) \<and>
    n div w mod MAX_RECORDER_NUM < MAX_RECORDER_NUM div tn * tn" (is "?L \<longleftrightarrow> ?R")
proof -
  let ?m = "unat (machine_num cfg)" and ?p = "MAX_RECORDER_NUM div tn"
  have le: "?p * tn \<le> MAX_RECORDER_NUM" by simp
  show ?thesis
  proof
    assume "n \<in> (\<Union>l \<in> {..<tn}. slots cfg ?p w l)"
    then obtain l k i j where x: "l < tn" "k < ?m" "i < ?p * (l + 1)" "j < w" "n = (k * MAX_RECORDER_NUM + i) * w + j"
      by (auto simp: slots_def)
    have "?p * (l + 1) \<le> ?p * tn" using x(1) by (intro mult_le_mono) simp_all
    then have i: "i < ?p * tn" "i < MAX_RECORDER_NUM" using x(3) le by linarith+
    have "n div w = k * MAX_RECORDER_NUM + i" using x(4,5) by simp
    then show "n div w div MAX_RECORDER_NUM < ?m \<and> n div w mod MAX_RECORDER_NUM < ?p * tn" using x(2) i by simp
  next
    assume h: "n div w div MAX_RECORDER_NUM < ?m \<and> n div w mod MAX_RECORDER_NUM < ?p * tn"
    let ?i = "n div w mod MAX_RECORDER_NUM"
    have p: "0 < ?p" using h by (cases "?p") auto
    have l: "?i div ?p < tn" using h p by (simp add: less_mult_imp_div_less mult.commute)
    have "?p * (?i div ?p) \<le> ?i" "?i < ?p * (?i div ?p + 1)"
      using p dividend_less_times_div [OF p, of ?i] by simp_all
    moreover have "n = (n div w div MAX_RECORDER_NUM * MAX_RECORDER_NUM + ?i) * w + n mod w"
      by (simp only: div_mult_mod_eq)
    moreover have "n mod w < w" using assms by simp
    ultimately have "n \<in> slots cfg ?p w (?i div ?p)" using h unfolding slots_def
      by (intro UN_I [of "n div w div MAX_RECORDER_NUM"] UN_I [of ?i] UN_I [of "n mod w"]) auto
    with l show "n \<in> (\<Union>l \<in> {..<tn}. slots cfg ?p w l)" by blast
  qed
qed

text \<open>The threads together scan all slots exactly when their number divides that of the queue pairs.\<close>

lemma threads_cover:
  assumes "0 < tn" "0 < w" "machine_num cfg \<noteq> 0"
  shows "(\<Union>l \<in> {..<tn}. slots cfg (MAX_RECORDER_NUM div tn) w l) = {..<MAX_RECORDER_NUM * unat (machine_num cfg) * w} \<longleftrightarrow>
    tn dvd MAX_RECORDER_NUM"
proof -
  let ?m = "unat (machine_num cfg)" and ?p = "MAX_RECORDER_NUM div tn"
  have m: "0 < ?m" using assms(3) by (simp add: unat_gt_0)
  have le: "?p * tn \<le> MAX_RECORDER_NUM" by simp
  note in_iff = threads_slots [OF assms(2), where tn = tn and cfg = cfg]
  have lt: "n < MAX_RECORDER_NUM * ?m * w \<longleftrightarrow> n div w div MAX_RECORDER_NUM < ?m" for n
    using assms(2) by (simp add: div_less_iff_less_mult MAX_RECORDER_NUM_def mult_ac)
  have full: "?p * tn = MAX_RECORDER_NUM \<longleftrightarrow> tn dvd MAX_RECORDER_NUM"
    by (metis dvd_triv_right dvd_div_mult_self)
  show ?thesis
  proof
    assume eq: "(\<Union>l \<in> {..<tn}. slots cfg ?p w l) = {..<MAX_RECORDER_NUM * ?m * w}"
    let ?n = "(MAX_RECORDER_NUM - 1) * w"
    have d: "?n div w = MAX_RECORDER_NUM - 1" using assms(2) by simp
    then have "?n < MAX_RECORDER_NUM * ?m * w" using m unfolding lt by (simp add: MAX_RECORDER_NUM_def)
    then have "?n div w mod MAX_RECORDER_NUM < ?p * tn" using eq in_iff [of ?n] by blast
    then have "MAX_RECORDER_NUM \<le> ?p * tn" unfolding d by (simp add: MAX_RECORDER_NUM_def)
    then show "tn dvd MAX_RECORDER_NUM" using le full by simp
  next
    assume "tn dvd MAX_RECORDER_NUM"
    then have "?p * tn = MAX_RECORDER_NUM" using full by simp
    then show "(\<Union>l \<in> {..<tn}. slots cfg ?p w l) = {..<MAX_RECORDER_NUM * ?m * w}"
      unfolding set_eq_iff in_iff lessThan_iff lt by (simp add: MAX_RECORDER_NUM_def)
  qed
qed

section \<open>The driver's slots and the server's\<close>

lemma publish_sel [simp]:
  "rm_machine_num (publish_meta cfg rkey m) = machine_num cfg" "rm_rpc_addr (publish_meta cfg rkey m) = rpc_addr cfg"
  "rm_length (publish_meta cfg rkey m) = rpc_region_size cfg div 2"
  by (simp_all add: publish_meta_def)

lemma window_chunk:
  assumes ok: "rpc_ok s" and pub: "rmeta s = publish_meta cfg rkey m"
  shows "\<exists>w. window_size cfg = Some w \<and> unat w = rpc_chunk s div 64"
proof -
  let ?M = "unat (machine_num cfg)" and ?R = "unat (rpc_region_size cfg)"
  have c: "rpc_chunk s = ?R div 2 div (?M * 32)"
    by (simp add: rpc_chunk_def pub unat_div MAX_RECORDER_NUM_def)
  have M: "0 < ?M" using ok by (auto simp: rpc_ok_def pub word_less_nat_alt)
  have "64 * (?M * 32) \<le> ?R div 2"
    using ok M by (simp add: rpc_ok_def c less_eq_div_iff_mult_less_eq)
  then have le: "?M * 4096 \<le> ?R" by linarith
  then have "?M * 4096 < 2 ^ 64" using unat_lt_2p64 [of "rpc_region_size cfg"] by simp
  then have u: "unat (4096 * machine_num cfg) = 4096 * ?M"
    by (simp add: unat_word_ariths)
  then have "4096 * machine_num cfg \<noteq> 0" using M by (metis mult_eq_0_iff neq0_conv unat_0 zero_neq_numeral)
  moreover have "?R div (4096 * ?M) = ?R div 2 div (?M * 32) div 64"
    by (simp add: div_mult2_eq [symmetric] mult_ac)
  ultimately show ?thesis
    by (simp add: window_size_def c_div_def sizeof_rpc_op_def MAX_RECORDER_NUM_def unat_div u c)
qed

lemma req_slot_unat:
  assumes "unat (rpc_addr cfg) + 64 * n < 2 ^ 64"
  shows "unat (req_slot cfg n) = unat (rpc_addr cfg) + 64 * n"
  using assms by (simp add: req_slot_def sizeof_rpc_op_def unat_word_ariths unat_of_nat)

lemma slots_agree:
  assumes ok: "rpc_ok s" and pub: "rmeta s = publish_meta cfg rkey m" and idx: "idx < MAX_RECORDER_NUM"
  defines "q \<equiv> unat (lm_machine_id (lmeta s)) * MAX_RECORDER_NUM + idx" and "off \<equiv> unat (remote_off s ! idx)"
  assumes a: "unat a = unat (rm_rpc_addr (rmeta s)) + rpc_chunk s * q + 64 * off"
  shows "a = req_slot cfg (q * (rpc_chunk s div 64) + off) \<longleftrightarrow> q = 0 \<or> 64 dvd rpc_chunk s"
    "q * (rpc_chunk s div 64) + off < MAX_RECORDER_NUM * unat (machine_num cfg) * (rpc_chunk s div 64)"
proof -
  let ?c = "rpc_chunk s"
  note P = rpc_place [OF ok idx, folded q_def off_def]
  have le: "64 * (?c div 64) \<le> ?c" by simp
  then have le': "64 * (?c div 64) * q \<le> ?c * q" by (rule mult_le_mono1)
  have "unat (rpc_addr cfg) + 64 * (q * (?c div 64) + off) \<le> unat (rpc_addr cfg) + (?c * q + 64 * off)"
    using le' by (simp add: algebra_simps)
  also have "\<dots> < 2 ^ 64" using ok P(2,3) by (simp add: rpc_ok_def pub)
  finally have r: "unat (req_slot cfg (q * (?c div 64) + off)) = unat (rpc_addr cfg) + 64 * (q * (?c div 64) + off)"
    by (rule req_slot_unat)
  have "a = req_slot cfg (q * (?c div 64) + off) \<longleftrightarrow> ?c * q = 64 * (?c div 64) * q"
    unfolding word_unat_eq_iff r a pub by (simp add: algebra_simps)
  also have "\<dots> \<longleftrightarrow> q = 0 \<or> 64 dvd ?c" by (auto simp: dvd_mult_div_cancel) (metis dvd_triv_left)
  finally show "a = req_slot cfg (q * (?c div 64) + off) \<longleftrightarrow> q = 0 \<or> 64 dvd ?c" .
  have "off < ?c div 64" using P(3) by linarith
  moreover have "Suc q * (?c div 64) \<le> MAX_RECORDER_NUM * unat (machine_num cfg) * (?c div 64)"
    using P(1) by (intro mult_le_mono1) (simp add: pub mult.commute)
  ultimately show "q * (?c div 64) + off < MAX_RECORDER_NUM * unat (machine_num cfg) * (?c div 64)" by simp
qed

section \<open>A compare-and-swap served\<close>

lemma execute_cas_eq:
  "execute_cas env req resp mem =
    ((if mem (op_remote_addr req) = op_cmp req \<and> env mem (op_remote_addr req) = op_cmp req
      then (env mem)(op_remote_addr req := op_swap req) else env mem),
     (if mem (op_remote_addr req) = op_cmp req then req\<lparr>op_cmp := env mem (op_remote_addr req)\<rparr> else req),
     resp\<lparr>op_comp := env mem (op_remote_addr req), op_crc := CRC_CHECK_MAGIC\<rparr>)"
  by (auto simp: execute_cas_def CAS_cell_def Let_def)

lemma qpn_table_hit:
  assumes "distinct (map fst (qpn_entries sizes dest))" "i < length sizes" "j < sizes ! i"
  shows "qpn_table sizes dest (dest (sum_list (take i sizes) + j) + of_nat i * QP_OFF) = Some (sum_list (take i sizes) + j)"
  unfolding qpn_table_def
proof (rule map_of_is_SomeI [OF assms(1)])
  show "(dest (sum_list (take i sizes) + j) + of_nat i * QP_OFF, sum_list (take i sizes) + j) \<in> set (qpn_entries sizes dest)"
    using assms(2,3) by (auto simp: qpn_entries_def intro!: bexI [of _ i] image_eqI [of _ _ j])
qed

lemma serve_cas:
  assumes ok: "srv_ok cfg st" and n: "n < length (rs_req st)" and req: "rs_req st ! n = req"
    "op_crc req = CRC_CHECK_MAGIC" "op_opcode req = CAS_OP_CODE" "table (op_qpn req) = Some t"
    and rej: "reject_resp cfg layout (op_remote_addr req) = Some rej"
    and cur: "cur < MAX_RECORDER_NUM * unat (machine_num cfg)" and qp: "qp_size cfg k \<noteq> 0"
  shows "\<exists>st'. serve (\<lambda>_ mem. mem) cfg table layout k cur n st = Some st' \<and>
    rs_mem st' = (if \<not> rej \<and> rs_mem st (op_remote_addr req) = op_cmp req
      then (rs_mem st)(op_remote_addr req := op_swap req) else rs_mem st) \<and>
    op_comp (rs_resp st' ! n) = (if rej then op_swap req else rs_mem st (op_remote_addr req)) \<and>
    op_crc (rs_req st' ! n) = 0 \<and>
    (thread_qp_batch cfg = 1 \<longrightarrow> (\<exists>polls r. rs_calls st' = rs_calls st @ polls @ [PostReplies t [r]] \<and>
       set polls \<subseteq> {PollCq t} \<and> rp_addr r = resp_comp cfg n))"
proof -
  have n': "n < length (rs_resp st)" using ok n by (simp add: srv_ok_def Let_def)
  obtain mem' req' resp' where ex: "execute (\<lambda>mem. mem) (qp_size cfg k) rej req (rs_resp st ! n) (rs_mem st) = Some (mem', req', resp')"
    using execute_ok [OF qp] by blast
  then have m: "mem' = (if \<not> rej \<and> rs_mem st (op_remote_addr req) = op_cmp req
      then (rs_mem st)(op_remote_addr req := op_swap req) else rs_mem st)"
    "op_comp resp' = (if rej then op_swap req else rs_mem st (op_remote_addr req))"
    using req(3) qp by (auto simp: execute_def execute_cas_eq c_mod_def CAS_OP_CODE_def FAA_OP_CODE_def split: if_splits)
  let ?st = "st\<lparr>rs_mem := mem', rs_req := (rs_req st)[n := req'\<lparr>op_crc := 0\<rparr>],
         rs_resp := (rs_resp st)[n := resp'], rs_reject_cnt := rs_reject_cnt st + (if rej then 1 else 0)\<rparr>"
  have "srv_ok cfg ?st" using ok by (simp add: srv_ok_def Let_def)
  from send_reply_ok [OF this cur, of t k n] obtain st' where st': "send_reply cfg t k cur n ?st = Some st'"
    "rs_mem st' = mem'" "rs_req st' = rs_req ?st" "rs_resp st' = rs_resp ?st"
    "thread_qp_batch cfg = 1 \<longrightarrow> (\<exists>polls r. rs_calls st' = rs_calls st @ polls @ [PostReplies t [r]] \<and>
       set polls \<subseteq> {PollCq t} \<and> rp_addr r = resp_comp cfg n)"
    by auto
  have "serve (\<lambda>_ mem. mem) cfg table layout k cur n st = Some st'"
    using n n' req rej ex st'(1) by (simp add: serve_def c_access)
  then show ?thesis using st' m n n' by simp
qed

section \<open>Example\<close>

definition example_cfg :: "u64 \<Rightarrow> u64 \<Rightarrow> srv_cfg" where
  "example_cfg mn threads = \<lparr>machine_num = mn, rpc_region_size = 16384, rpc_addr = 4096, rpc_thread_num = threads,
     thread_qp_batch = 1, unsignal_batch = 1, remote_rkey = (\<lambda>_. 5), qp_size = (\<lambda>_. 8)\<rparr>"

definition example_slot :: rpc_op where
  "example_slot = \<lparr>op_remote_addr = 0, op_swap = 0, op_cmp = 0, op_resp_addr = 0, op_qpn = 0, op_opcode = 0,
     op_comp = 0, op_crc = 0\<rparr>"

definition example_srv :: "rpc_op list \<Rightarrow> srv" where
  "example_srv reqs = \<lparr>rs_mem = (\<lambda>_. 0), rs_req = reqs, rs_resp = map (\<lambda>_. example_slot) reqs,
     rs_send_tx = replicate 64 0, rs_last_signaled = replicate 64 0, rs_batch_cnt = replicate 64 0,
     rs_wr = replicate 64 [\<lparr>rp_wr_id = 0, rp_flags = 0, rp_rkey = 0, rp_addr = 0\<rparr>], rs_reject_cnt = 0, rs_calls = []\<rparr>"

definition example_slayout :: "u16 \<Rightarrow> server_layout" where
  "example_slayout credit = \<lparr>sl_strategies = \<lparr>resp_phase = 1, resp_credit = replicate COUNTER_TOTAL credit\<rparr>,
     sl_machine_arr = [], sl_uniform_strag = \<lparr>resp_phase = 1, resp_credit = replicate COUNTER_TOTAL 0\<rparr>,
     sl_old_strategies = \<lparr>resp_phase = 1, resp_credit = replicate COUNTER_TOTAL credit\<rparr>, sl_consensus = 0\<rparr>"

lemma example_srv_ok: "srv_ok (example_cfg 2 t) (example_srv reqs)"
  by (simp add: srv_ok_def example_srv_def example_cfg_def MAX_RECORDER_NUM_def)

lemma example_slayout_ok: "length (resp_credit (sl_strategies (example_slayout c))) = COUNTER_TOTAL"
  "length (resp_credit (sl_old_strategies (example_slayout c))) = COUNTER_TOTAL"
  by (simp_all add: example_slayout_def)

text \<open>The driver of machine 1 with the region that such a server publishes.\<close>

definition example_rpc :: "u64 \<Rightarrow> driver_state" where
  "example_rpc mn = (example_state 1)\<lparr>shm := (shm (example_state 1))\<lparr>rmeta :=
     publish_meta (example_cfg mn 4) 5 (rmeta (shm (example_state 1)))\<rparr>\<rparr>"

lemma example_rpc_sel [simp]:
  "rmeta (shm (example_rpc mn)) = publish_meta (example_cfg mn 4) 5 (rmeta (shm (example_state 1)))"
  "records (shm (example_rpc mn)) = records (shm (example_state 1))"
  "strag_credit (shm (example_rpc mn)) = strag_credit (shm (example_state 1))"
  "lmeta (shm (example_rpc mn)) = lmeta (shm (example_state 1))"
  by (simp_all add: example_rpc_def)

lemma example_rpc_chunk: "rpc_chunk (shm (example_rpc mn)) = 8192 div (unat mn * 32)"
  by (simp add: rpc_chunk_def example_cfg_def MAX_RECORDER_NUM_def unat_div)

lemma example_rpc_ok: "shm_ok (shm (example_rpc mn))" "rpc_ok (shm (example_rpc 2))" "rpc_ok (shm (example_rpc 3))"
proof -
  show "shm_ok (shm (example_rpc mn))" using example_ok(1) [of 1] by (simp add: example_rpc_def shm_ok_def)
  show "rpc_ok (shm (example_rpc 2))" "rpc_ok (shm (example_rpc 3))"
    unfolding rpc_ok_def example_rpc_chunk
    by (simp_all add: example_rpc_def publish_meta_def example_cfg_def example_state_def zero_region_def buf_chunk_def MAX_RECORDER_NUM_def)
qed

lemma example_rpc_place: "unat (lm_machine_id (lmeta (shm (example_rpc mn)))) = 1" "remote_off (shm (example_rpc mn)) ! 7 = 0"
  by (simp_all add: example_rpc_def example_state_def zero_region_def MAX_RECORDER_NUM_def)

section \<open>Properties\<close>



text \<open>
  Property C35. The driver places the messages of a queue pair at multiples of the share of the region that a queue
  pair has, the server scans multiples of whole slots: for every queue pair but the first the two
  places are the same exactly when the share is a multiple of the slot size of 64 bytes. The server's
  configuration does not ensure this: with three machines it fails for the usual region sizes.
\<close>

theorem rpc_slots_agree:
  assumes "shm_ok s" "rpc_ok s" "idx < MAX_RECORDER_NUM" "rmeta s = publish_meta cfg rkey m"
  defines "q \<equiv> unat (lm_machine_id (lmeta s)) * MAX_RECORDER_NUM + idx"
  shows "\<exists>w a s'. window_size cfg = Some w \<and> rpc_remote_slot idx s = Some (a, s') \<and>
    (a = req_slot cfg (q * unat w + unat (remote_off s ! idx)) \<longleftrightarrow> q = 0 \<or> 64 dvd rpc_chunk s)"
proof -
  obtain w where w: "window_size cfg = Some w" "unat w = rpc_chunk s div 64" using window_chunk [OF assms(2,4)] by blast
  obtain a off' where a: "rpc_remote_slot idx s = Some (a, s\<lparr>remote_off := (remote_off s)[idx := off']\<rparr>)"
    "unat a = unat (rm_rpc_addr (rmeta s)) + rpc_chunk s * q + 64 * unat (remote_off s ! idx)"
    using rpc_remote_slot_ok [OF assms(1-3), folded q_def] by blast
  show ?thesis using w a(1) slots_agree(1) [OF assms(2,4,3), folded q_def, OF a(2)] by (auto simp: w(2))
qed

theorem rpc_slots_agree_witness:
  "\<exists>w a s'. window_size (example_cfg 3 4) = Some w \<and> rpc_remote_slot 7 (shm (example_rpc 3)) = Some (a, s') \<and>
    a \<noteq> req_slot (example_cfg 3 4) (39 * unat w)"
proof -
  have "(7::nat) < MAX_RECORDER_NUM" by (simp add: MAX_RECORDER_NUM_def)
  from rpc_slots_agree [OF example_rpc_ok(1,3) this example_rpc_sel(1), unfolded example_rpc_place]
  show ?thesis by (auto simp: MAX_RECORDER_NUM_def example_rpc_chunk)
qed



text \<open>
  Property C17. What a compare-and-swap on the server means while other actors change the memory between its two
  accesses: it stores the new value exactly when both accesses see the expected value, and
  replies what the second one sees. The reply therefore reports a success that
  did not take place exactly when the first access sees another value and the second the expected one.
\<close>

theorem rpc_cas_race:
  "\<exists>mem' req' resp'. execute_cas env req resp mem = (mem', req', resp') \<and>
    (let a = op_remote_addr req; before = env mem; swapped = (mem a = op_cmp req \<and> before a = op_cmp req) in
     mem' = (if swapped then before(a := op_swap req) else before) \<and> op_comp resp' = before a \<and>
     (op_comp resp' = op_cmp req \<and> \<not> swapped \<longleftrightarrow> mem a \<noteq> op_cmp req \<and> before a = op_cmp req))"
  unfolding execute_cas_eq by (auto simp: Let_def)

text \<open>
  Property C36. A fetch-and-add that the driver sends as a message is never performed: the server answers with
  what the slot of the response held before and leaves memory unchanged, whatever the credits say.
\<close>

theorem rpc_faa_ignored:
  assumes "srv_ok cfg st" "n < length (rs_req st)" "op_crc (rs_req st ! n) = CRC_CHECK_MAGIC"
    "op_opcode (rs_req st ! n) = FAA_OP_CODE" "table (op_qpn (rs_req st ! n)) = Some t"
    "cur < MAX_RECORDER_NUM * unat (machine_num cfg)" "machine_num cfg \<noteq> 0"
    "length (resp_credit (sl_strategies layout)) = COUNTER_TOTAL"
    "length (resp_credit (sl_old_strategies layout)) = COUNTER_TOTAL"
  shows "\<exists>st'. serve env cfg table layout k cur n st = Some st' \<and> rs_mem st' = rs_mem st \<and> rs_resp st' = rs_resp st \<and>
    op_crc (rs_req st' ! n) = 0 \<and>
    (thread_qp_batch cfg = 1 \<longrightarrow> (\<exists>polls r. rs_calls st' = rs_calls st @ polls @ [PostReplies t [r]] \<and> rp_addr r = resp_comp cfg n))"
proof -
  obtain rej where rej: "reject_resp cfg layout (op_remote_addr (rs_req st ! n)) = Some rej"
    using reject_resp_eq [OF assms(8,9,7)] by blast
  have n': "n < length (rs_resp st)" using assms(1,2) by (simp add: srv_ok_def Let_def)
  let ?st = "st\<lparr>rs_req := (rs_req st)[n := (rs_req st ! n)\<lparr>op_crc := 0\<rparr>],
    rs_reject_cnt := rs_reject_cnt st + (if rej then 1 else 0)\<rparr>"
  have "srv_ok cfg ?st" using assms(1) by (simp add: srv_ok_def Let_def)
  from send_reply_ok [OF this assms(6), of t k n] obtain st' where st': "send_reply cfg t k cur n ?st = Some st'"
    "rs_mem st' = rs_mem st" "rs_req st' = rs_req ?st" "rs_resp st' = rs_resp st"
    "thread_qp_batch cfg = 1 \<longrightarrow> (\<exists>polls r. rs_calls st' = rs_calls st @ polls @ [PostReplies t [r]] \<and>
       set polls \<subseteq> {PollCq t} \<and> rp_addr r = resp_comp cfg n)"
    by auto
  have same: "st\<lparr>rs_mem := rs_mem st, rs_req := x, rs_resp := (rs_resp st)[n := rs_resp st ! n], rs_reject_cnt := y\<rparr> =
    st\<lparr>rs_req := x, rs_reject_cnt := y\<rparr>" for x y by (cases st) simp
  have "serve env cfg table layout k cur n st = Some st'"
    using assms(2-5) rej n' st'(1) by (simp add: serve_def c_access execute_def FAA_OP_CODE_def same)
  then show ?thesis using st' assms(2) by auto
qed

theorem rpc_faa_ignored_witness:
  "\<exists>st'. serve (\<lambda>_ mem. mem) (example_cfg 2 4) (\<lambda>_. Some 0) (example_slayout 1) 0 0 0
      (example_srv [example_slot\<lparr>op_crc := CRC_CHECK_MAGIC, op_opcode := FAA_OP_CODE, op_cmp := 5\<rparr>]) = Some st' \<and>
    rs_mem st' 0 = 0 \<and> op_comp (rs_resp st' ! 0) = 0"
proof -
  let ?st = "example_srv [example_slot\<lparr>op_crc := CRC_CHECK_MAGIC, op_opcode := FAA_OP_CODE, op_cmp := 5\<rparr>]"
  have r: "0 < length (rs_req ?st)" "op_crc (rs_req ?st ! 0) = CRC_CHECK_MAGIC" "op_opcode (rs_req ?st ! 0) = FAA_OP_CODE"
    "(\<lambda>_. Some 0) (op_qpn (rs_req ?st ! 0)) = Some (0::nat)" by (simp_all add: example_srv_def)
  have c: "0 < MAX_RECORDER_NUM * unat (machine_num (example_cfg 2 4))" "machine_num (example_cfg 2 4) \<noteq> 0"
    by (simp_all add: example_cfg_def MAX_RECORDER_NUM_def)
  show ?thesis
    using rpc_faa_ignored [OF example_srv_ok r(1-3) _ c, where table = "\<lambda>_. Some 0" and t = 0, OF _ example_slayout_ok [of 1],
        where env = "\<lambda>_ mem. mem" and k = 0]
    by (auto simp: example_srv_def example_slot_def)
qed

end
