(* ===== verification/Mad_Table.thy ===== *)
theory Mad_Table
  imports Fusa_Prelude
begin

text \<open>
  The data of the management datagram library: the table \<open>ib_mad_f\<close> of field descriptors
  (\<open>libibmad/fields.c\<close>) and the enumeration \<open>MAD_FIELDS\<close> whose members index it
  (\<open>libibmad/mad.h\<close>). Both are transcribed entry by entry, in the order of the source, in
  pieces that follow the groups of the source.

  An initialiser \<open>{}\<close> is \<open>no_field\<close>. The macros \<open>BITSOFFS\<close> and \<open>BE_OFFS\<close> expand to the first
  two members of a descriptor and are functions of a whole descriptor here; an entry that
  gives the two members without a macro is written with \<open>BE_OFFS\<close>, which has the same
  expansion.
\<close>

section \<open>Field descriptors\<close>

datatype ib_mad_dump_fn =
    mad_dump_rhex
  | mad_dump_hex
  | mad_dump_uint
  | mad_dump_portcapmask
  | mad_dump_linkwidthen
  | mad_dump_linkwidthsup
  | mad_dump_linkwidth
  | mad_dump_linkspeedsup
  | mad_dump_portstate
  | mad_dump_physportstate
  | mad_dump_linkdowndefstate
  | mad_dump_linkspeed
  | mad_dump_linkspeeden
  | mad_dump_mtu
  | mad_dump_vlcap
  | mad_dump_opervls
  | mad_dump_node_type
  | mad_dump_array
  | mad_dump_string
  | mad_dump_portcapmask2
  | mad_dump_linkspeedext
  | mad_dump_linkspeedextsup
  | mad_dump_linkspeedexten
  | mad_dump_linkspeedext2
  | mad_dump_linkspeedextsup2
  | mad_dump_linkspeedexten2

text \<open>
  The name is an array of \<open>IB_FIELD_NAME_LEN\<close> characters in the struct and a string here; that
  the names fit with their terminating zero is part of what is shown of the table.
\<close>

definition IB_FIELD_NAME_LEN :: nat where
  "IB_FIELD_NAME_LEN = 32"

record ib_field =
  bitoffs :: int
  bitlen :: int
  name :: string
  def_dump_fn :: "ib_mad_dump_fn option"

definition no_field :: ib_field where
  "no_field = \<lparr>bitoffs = 0, bitlen = 0, name = [], def_dump_fn = None\<rparr>"

definition BE_TO_BITSOFFS :: "int \<Rightarrow> int \<Rightarrow> int" where
  "BE_TO_BITSOFFS off w = ((off AND NOT 31) OR (32 - (off AND 31) - w))"

definition BITSOFFS :: "int \<Rightarrow> int \<Rightarrow> string \<Rightarrow> ib_mad_dump_fn \<Rightarrow> ib_field" where
  "BITSOFFS off w n d =
     \<lparr>bitoffs = ((off AND NOT 31) OR (32 - (off AND 31) - w)), bitlen = w,
      name = n, def_dump_fn = Some d\<rparr>"

definition BE_OFFS :: "int \<Rightarrow> int \<Rightarrow> string \<Rightarrow> ib_mad_dump_fn \<Rightarrow> ib_field" where
  "BE_OFFS off w n d = \<lparr>bitoffs = off, bitlen = w, name = n, def_dump_fn = Some d\<rparr>"

section \<open>The table\<close>

definition ib_mad_f0 :: "ib_field list" where
  "ib_mad_f0 = [
    no_field,
    BE_OFFS 0 64 ''GidPrefix'' mad_dump_rhex,
    BE_OFFS 64 64 ''GidGuid'' mad_dump_rhex,
    BE_OFFS 0 7 ''MadMethod'' mad_dump_hex,
    BE_OFFS 7 1 ''MadIsResponse'' mad_dump_uint,
    BE_OFFS 8 8 ''MadClassVersion'' mad_dump_uint,
    BE_OFFS 16 8 ''MadMgmtClass'' mad_dump_uint,
    BE_OFFS 24 8 ''MadBaseVersion'' mad_dump_uint,
    BE_OFFS 48 16 ''MadStatus'' mad_dump_hex,
    BE_OFFS 32 8 ''DrSmpHopCnt'' mad_dump_uint,
    BE_OFFS 40 8 ''DrSmpHopPtr'' mad_dump_uint,
    BE_OFFS 48 15 ''DrSmpStatus'' mad_dump_hex,
    BE_OFFS 63 1 ''DrSmpDirection'' mad_dump_uint,
    BE_OFFS 64 64 ''MadTRID'' mad_dump_hex,
    BE_OFFS 144 16 ''MadAttr'' mad_dump_hex,
    BE_OFFS 160 32 ''MadModifier'' mad_dump_hex,
    BE_OFFS 192 64 ''MadMkey'' mad_dump_hex,
    BE_OFFS 256 16 ''DrSmpDLID'' mad_dump_uint,
    BE_OFFS 272 16 ''DrSmpSLID'' mad_dump_uint,
    BE_OFFS 288 64 ''SaSMkey'' mad_dump_hex,
    BE_OFFS (46 * 8) 16 ''SaAttrOffs'' mad_dump_uint,
    BE_OFFS (48 * 8) 64 ''SaCompMask'' mad_dump_hex,
    BE_OFFS (56 * 8) ((256 - 56) * 8) ''SaData'' mad_dump_hex,
    no_field,
    BE_OFFS (64 * 8) ((256 - 64) * 8) ''GsData'' mad_dump_hex,
    BE_OFFS 1024 512 ''DrSmpPath'' mad_dump_hex,
    BE_OFFS 1536 512 ''DrSmpRetPath'' mad_dump_hex,
    BE_OFFS 0 64 ''Mkey'' mad_dump_hex,
    BE_OFFS 64 64 ''GidPrefix'' mad_dump_hex,
    BITSOFFS 128 16 ''Lid'' mad_dump_uint,
    BITSOFFS 144 16 ''SMLid'' mad_dump_uint,
    BE_OFFS 160 32 ''CapMask'' mad_dump_portcapmask,
    BITSOFFS 192 16 ''DiagCode'' mad_dump_hex,
    BITSOFFS 208 16 ''MkeyLeasePeriod'' mad_dump_uint,
    BITSOFFS 224 8 ''LocalPort'' mad_dump_uint,
    BITSOFFS 232 8 ''LinkWidthEnabled'' mad_dump_linkwidthen,
    BITSOFFS 240 8 ''LinkWidthSupported'' mad_dump_linkwidthsup,
    BITSOFFS 248 8 ''LinkWidthActive'' mad_dump_linkwidth,
    BITSOFFS 256 4 ''LinkSpeedSupported'' mad_dump_linkspeedsup,
    BITSOFFS 260 4 ''LinkState'' mad_dump_portstate,
    BITSOFFS 264 4 ''PhysLinkState'' mad_dump_physportstate,
    BITSOFFS 268 4 ''LinkDownDefState'' mad_dump_linkdowndefstate,
    BITSOFFS 272 2 ''ProtectBits'' mad_dump_uint,
    BITSOFFS 277 3 ''LMC'' mad_dump_uint,
    BITSOFFS 280 4 ''LinkSpeedActive'' mad_dump_linkspeed,
    BITSOFFS 284 4 ''LinkSpeedEnabled'' mad_dump_linkspeeden,
    BITSOFFS 288 4 ''NeighborMTU'' mad_dump_mtu,
    BITSOFFS 292 4 ''SMSL'' mad_dump_uint,
    BITSOFFS 296 4 ''VLCap'' mad_dump_vlcap,
    BITSOFFS 300 4 ''InitType'' mad_dump_hex,
    BITSOFFS 304 8 ''VLHighLimit'' mad_dump_uint,
    BITSOFFS 312 8 ''VLArbHighCap'' mad_dump_uint,
    BITSOFFS 320 8 ''VLArbLowCap'' mad_dump_uint,
    BITSOFFS 328 4 ''InitReply'' mad_dump_hex,
    BITSOFFS 332 4 ''MtuCap'' mad_dump_mtu,
    BITSOFFS 336 3 ''VLStallCount'' mad_dump_uint,
    BITSOFFS 339 5 ''HoqLife'' mad_dump_uint,
    BITSOFFS 344 4 ''OperVLs'' mad_dump_opervls,
    BITSOFFS 348 1 ''PartEnforceInb'' mad_dump_uint,
    BITSOFFS 349 1 ''PartEnforceOutb'' mad_dump_uint,
    BITSOFFS 350 1 ''FilterRawInb'' mad_dump_uint,
    BITSOFFS 351 1 ''FilterRawOutb'' mad_dump_uint,
    BITSOFFS 352 16 ''MkeyViolations'' mad_dump_uint,
    BITSOFFS 368 16 ''PkeyViolations'' mad_dump_uint,
    BITSOFFS 384 16 ''QkeyViolations'' mad_dump_uint,
    BITSOFFS 400 8 ''GuidCap'' mad_dump_uint,
    BITSOFFS 408 1 ''ClientReregister'' mad_dump_uint,
    BITSOFFS 409 2 ''McastPkeyTrapSuppressionEnabled'' mad_dump_uint,
    BITSOFFS 411 5 ''SubnetTimeout'' mad_dump_uint,
    BITSOFFS 419 5 ''RespTimeVal'' mad_dump_uint,
    BITSOFFS 424 4 ''LocalPhysErr'' mad_dump_uint,
    BITSOFFS 428 4 ''OverrunErr'' mad_dump_uint,
    BITSOFFS 432 16 ''MaxCreditHint'' mad_dump_uint,
    BITSOFFS 456 24 ''RoundTrip'' mad_dump_uint,
    no_field]"

definition ib_mad_f1 :: "ib_field list" where
  "ib_mad_f1 = [
    BITSOFFS 0 8 ''BaseVers'' mad_dump_uint,
    BITSOFFS 8 8 ''ClassVers'' mad_dump_uint,
    BITSOFFS 16 8 ''NodeType'' mad_dump_node_type,
    BITSOFFS 24 8 ''NumPorts'' mad_dump_uint,
    BE_OFFS 32 64 ''SystemGuid'' mad_dump_hex,
    BE_OFFS 96 64 ''Guid'' mad_dump_hex,
    BE_OFFS 160 64 ''PortGuid'' mad_dump_hex,
    BITSOFFS 224 16 ''PartCap'' mad_dump_uint,
    BITSOFFS 240 16 ''DevId'' mad_dump_hex,
    BE_OFFS 256 32 ''Revision'' mad_dump_hex,
    BITSOFFS 288 8 ''LocalPort'' mad_dump_uint,
    BITSOFFS 296 24 ''VendorId'' mad_dump_hex,
    no_field,
    BITSOFFS 0 16 ''LinearFdbCap'' mad_dump_uint,
    BITSOFFS 16 16 ''RandomFdbCap'' mad_dump_uint,
    BITSOFFS 32 16 ''McastFdbCap'' mad_dump_uint,
    BITSOFFS 48 16 ''LinearFdbTop'' mad_dump_uint,
    BITSOFFS 64 8 ''DefPort'' mad_dump_uint,
    BITSOFFS 72 8 ''DefMcastPrimPort'' mad_dump_uint,
    BITSOFFS 80 8 ''DefMcastNotPrimPort'' mad_dump_uint,
    BITSOFFS 88 5 ''LifeTime'' mad_dump_uint,
    BITSOFFS 93 1 ''StateChange'' mad_dump_uint,
    BITSOFFS 94 2 ''OptSLtoVLMapping'' mad_dump_uint,
    BITSOFFS 96 16 ''LidsPerPort'' mad_dump_uint,
    BITSOFFS 112 16 ''PartEnforceCap'' mad_dump_uint,
    BITSOFFS 128 1 ''InboundPartEnf'' mad_dump_uint,
    BITSOFFS 129 1 ''OutboundPartEnf'' mad_dump_uint,
    BITSOFFS 130 1 ''FilterRawInbound'' mad_dump_uint,
    BITSOFFS 131 1 ''FilterRawOutbound'' mad_dump_uint,
    BITSOFFS 132 1 ''EnhancedPort0'' mad_dump_uint,
    BITSOFFS 144 16 ''MulticastFDBTop'' mad_dump_hex,
    no_field,
    BE_OFFS 0 512 ''LinearForwTbl'' mad_dump_array,
    BE_OFFS 0 512 ''MulticastForwTbl'' mad_dump_array,
    BE_OFFS 0 (64 * 8) ''NodeDesc'' mad_dump_string,
    BITSOFFS 0 1 ''NoticeIsGeneric'' mad_dump_uint,
    BITSOFFS 1 7 ''NoticeType'' mad_dump_uint,
    BITSOFFS 8 24 ''NoticeProducerType'' mad_dump_node_type,
    BITSOFFS 32 16 ''NoticeTrapNumber'' mad_dump_uint,
    BITSOFFS 48 16 ''NoticeIssuerLID'' mad_dump_uint,
    BITSOFFS 64 1 ''NoticeToggle'' mad_dump_uint,
    BITSOFFS 65 15 ''NoticeCount'' mad_dump_uint,
    BE_OFFS 80 432 ''NoticeDataDetails'' mad_dump_array,
    BITSOFFS 80 16 ''NoticeDataLID'' mad_dump_uint,
    BITSOFFS 96 16 ''NoticeDataTrap144LID'' mad_dump_uint,
    BITSOFFS 128 32 ''NoticeDataTrap144CapMask'' mad_dump_uint,
    BITSOFFS 8 8 ''PortSelect'' mad_dump_uint,
    BITSOFFS 16 16 ''CounterSelect'' mad_dump_hex,
    BITSOFFS 32 16 ''SymbolErrorCounter'' mad_dump_uint,
    BITSOFFS 48 8 ''LinkErrorRecoveryCounter'' mad_dump_uint,
    BITSOFFS 56 8 ''LinkDownedCounter'' mad_dump_uint,
    BITSOFFS 64 16 ''PortRcvErrors'' mad_dump_uint,
    BITSOFFS 80 16 ''PortRcvRemotePhysicalErrors'' mad_dump_uint,
    BITSOFFS 96 16 ''PortRcvSwitchRelayErrors'' mad_dump_uint,
    BITSOFFS 112 16 ''PortXmitDiscards'' mad_dump_uint,
    BITSOFFS 128 8 ''PortXmitConstraintErrors'' mad_dump_uint,
    BITSOFFS 136 8 ''PortRcvConstraintErrors'' mad_dump_uint,
    BITSOFFS 144 8 ''CounterSelect2'' mad_dump_hex,
    BITSOFFS 152 4 ''LocalLinkIntegrityErrors'' mad_dump_uint,
    BITSOFFS 156 4 ''ExcessiveBufferOverrunErrors'' mad_dump_uint,
    BITSOFFS 176 16 ''VL15Dropped'' mad_dump_uint,
    BE_OFFS 192 32 ''PortXmitData'' mad_dump_uint,
    BE_OFFS 224 32 ''PortRcvData'' mad_dump_uint,
    BE_OFFS 256 32 ''PortXmitPkts'' mad_dump_uint,
    BE_OFFS 288 32 ''PortRcvPkts'' mad_dump_uint,
    BE_OFFS 320 32 ''PortXmitWait'' mad_dump_uint,
    no_field]"

definition ib_mad_f2 :: "ib_field list" where
  "ib_mad_f2 = [
    BE_OFFS 0 64 ''SmInfoGuid'' mad_dump_hex,
    BE_OFFS 64 64 ''SmInfoKey'' mad_dump_hex,
    BE_OFFS 128 32 ''SmActivity'' mad_dump_uint,
    BITSOFFS 160 4 ''SmPriority'' mad_dump_uint,
    BITSOFFS 164 4 ''SmState'' mad_dump_uint,
    BE_OFFS (24 * 8 + 24) 8 ''RmppVers'' mad_dump_uint,
    BE_OFFS (24 * 8 + 16) 8 ''RmppType'' mad_dump_uint,
    BE_OFFS (24 * 8 + 11) 5 ''RmppResp'' mad_dump_uint,
    BE_OFFS (24 * 8 + 8) 3 ''RmppFlags'' mad_dump_hex,
    BE_OFFS (24 * 8 + 0) 8 ''RmppStatus'' mad_dump_hex,
    BE_OFFS (28 * 8) 32 ''RmppData1'' mad_dump_hex,
    BE_OFFS (28 * 8) 32 ''RmppSegNum'' mad_dump_uint,
    BE_OFFS (32 * 8) 32 ''RmppData2'' mad_dump_hex,
    BE_OFFS (32 * 8) 32 ''RmppPayload'' mad_dump_uint,
    BE_OFFS (32 * 8) 32 ''RmppNewWin'' mad_dump_uint,
    BITSOFFS 41 7 ''MultiPathNumPath'' mad_dump_uint,
    BITSOFFS 120 8 ''MultiPathNumSrc'' mad_dump_uint,
    BITSOFFS 128 8 ''MultiPathNumDest'' mad_dump_uint,
    BE_OFFS 192 128 ''MultiPathGid'' mad_dump_array,
    BE_OFFS 64 128 ''PathRecDGid'' mad_dump_array,
    BE_OFFS 192 128 ''PathRecSGid'' mad_dump_array,
    BITSOFFS 320 16 ''PathRecDLid'' mad_dump_uint,
    BITSOFFS 336 16 ''PathRecSLid'' mad_dump_uint,
    BITSOFFS 393 7 ''PathRecNumPath'' mad_dump_uint,
    BITSOFFS 428 4 ''PathRecSL'' mad_dump_uint,
    BE_OFFS 0 128 ''McastMemMGid'' mad_dump_array,
    BE_OFFS 128 128 ''McastMemPortGid'' mad_dump_array,
    BE_OFFS 256 32 ''McastMemQkey'' mad_dump_hex,
    BITSOFFS 288 16 ''McastMemMLid'' mad_dump_hex,
    BITSOFFS 352 4 ''McastMemSL'' mad_dump_uint,
    BITSOFFS 306 6 ''McastMemMTU'' mad_dump_uint,
    BITSOFFS 338 6 ''McastMemRate'' mad_dump_uint,
    BITSOFFS 312 8 ''McastMemTClass'' mad_dump_uint,
    BITSOFFS 320 16 ''McastMemPkey'' mad_dump_uint,
    BITSOFFS 356 20 ''McastMemFlowLbl'' mad_dump_uint,
    BITSOFFS 388 4 ''McastMemJoinState'' mad_dump_uint,
    BITSOFFS 392 1 ''McastMemProxyJoin'' mad_dump_uint,
    BE_OFFS 0 64 ''ServRecID'' mad_dump_hex,
    BE_OFFS 64 128 ''ServRecGid'' mad_dump_array,
    BITSOFFS 192 16 ''ServRecPkey'' mad_dump_hex,
    BE_OFFS 224 32 ''ServRecLease'' mad_dump_hex,
    BE_OFFS 256 128 ''ServRecKey'' mad_dump_hex,
    BE_OFFS 384 512 ''ServRecName'' mad_dump_string,
    BE_OFFS 896 512 ''ServRecData'' mad_dump_array,
    BE_OFFS (12 * 8) 32 ''ATSNodeAddr'' mad_dump_hex,
    BITSOFFS (16 * 8) 16 ''ATSMagicKey'' mad_dump_hex,
    BITSOFFS (18 * 8) 16 ''ATSNodeType'' mad_dump_hex,
    BE_OFFS (32 * 8) (32 * 8) ''ATSNodeName'' mad_dump_string,
    BE_OFFS 0 64 ''SLToVLMap'' mad_dump_hex,
    BE_OFFS 0 512 ''VLArbTbl'' mad_dump_array,
    BE_OFFS (36 * 8) 24 ''OUI'' mad_dump_array,
    BE_OFFS (40 * 8) ((256 - 40) * 8) ''Vendor2Data'' mad_dump_array,
    BITSOFFS 8 8 ''PortSelect'' mad_dump_uint,
    BITSOFFS 16 16 ''CounterSelect'' mad_dump_hex,
    BE_OFFS 64 64 ''PortXmitData'' mad_dump_uint,
    BE_OFFS 128 64 ''PortRcvData'' mad_dump_uint,
    BE_OFFS 192 64 ''PortXmitPkts'' mad_dump_uint,
    BE_OFFS 256 64 ''PortRcvPkts'' mad_dump_uint,
    BE_OFFS 320 64 ''PortUnicastXmitPkts'' mad_dump_uint,
    BE_OFFS 384 64 ''PortUnicastRcvPkts'' mad_dump_uint,
    BE_OFFS 448 64 ''PortMulticastXmitPkts'' mad_dump_uint,
    BE_OFFS 512 64 ''PortMulticastRcvPkts'' mad_dump_uint,
    no_field]"

definition ib_mad_f3 :: "ib_field list" where
  "ib_mad_f3 = [
    BE_OFFS 0 64 ''GUID0'' mad_dump_hex,
    BITSOFFS 0 8 ''BaseVersion'' mad_dump_uint,
    BITSOFFS 8 8 ''ClassVersion'' mad_dump_uint,
    BITSOFFS 16 16 ''CapabilityMask'' mad_dump_hex,
    BITSOFFS 32 27 ''CapabilityMask2'' mad_dump_hex,
    BITSOFFS 59 5 ''RespTimeVal'' mad_dump_uint,
    BE_OFFS 64 128 ''RedirectGID'' mad_dump_array,
    BITSOFFS 192 8 ''RedirectTC'' mad_dump_hex,
    BITSOFFS 200 4 ''RedirectSL'' mad_dump_uint,
    BITSOFFS 204 20 ''RedirectFL'' mad_dump_hex,
    BITSOFFS 224 16 ''RedirectLID'' mad_dump_uint,
    BITSOFFS 240 16 ''RedirectPKey'' mad_dump_hex,
    BITSOFFS 264 24 ''RedirectQP'' mad_dump_hex,
    BE_OFFS 288 32 ''RedirectQKey'' mad_dump_hex,
    BE_OFFS 320 128 ''TrapGID'' mad_dump_array,
    BITSOFFS 448 8 ''TrapTC'' mad_dump_hex,
    BITSOFFS 456 4 ''TrapSL'' mad_dump_uint,
    BITSOFFS 460 20 ''TrapFL'' mad_dump_hex,
    BITSOFFS 480 16 ''TrapLID'' mad_dump_uint,
    BITSOFFS 496 16 ''TrapPKey'' mad_dump_hex,
    BITSOFFS 512 8 ''TrapHL'' mad_dump_uint,
    BITSOFFS 520 24 ''TrapQP'' mad_dump_hex,
    BE_OFFS 544 32 ''TrapQKey'' mad_dump_hex,
    BE_OFFS 32 32 ''XmtDataSL0'' mad_dump_uint,
    BE_OFFS 64 32 ''XmtDataSL1'' mad_dump_uint,
    BE_OFFS 96 32 ''XmtDataSL2'' mad_dump_uint,
    BE_OFFS 128 32 ''XmtDataSL3'' mad_dump_uint,
    BE_OFFS 160 32 ''XmtDataSL4'' mad_dump_uint,
    BE_OFFS 192 32 ''XmtDataSL5'' mad_dump_uint,
    BE_OFFS 224 32 ''XmtDataSL6'' mad_dump_uint,
    BE_OFFS 256 32 ''XmtDataSL7'' mad_dump_uint,
    BE_OFFS 288 32 ''XmtDataSL8'' mad_dump_uint,
    BE_OFFS 320 32 ''XmtDataSL9'' mad_dump_uint,
    BE_OFFS 352 32 ''XmtDataSL10'' mad_dump_uint,
    BE_OFFS 384 32 ''XmtDataSL11'' mad_dump_uint,
    BE_OFFS 416 32 ''XmtDataSL12'' mad_dump_uint,
    BE_OFFS 448 32 ''XmtDataSL13'' mad_dump_uint,
    BE_OFFS 480 32 ''XmtDataSL14'' mad_dump_uint,
    BE_OFFS 512 32 ''XmtDataSL15'' mad_dump_uint,
    no_field,
    BE_OFFS 32 32 ''RcvDataSL0'' mad_dump_uint,
    BE_OFFS 64 32 ''RcvDataSL1'' mad_dump_uint,
    BE_OFFS 96 32 ''RcvDataSL2'' mad_dump_uint,
    BE_OFFS 128 32 ''RcvDataSL3'' mad_dump_uint,
    BE_OFFS 160 32 ''RcvDataSL4'' mad_dump_uint,
    BE_OFFS 192 32 ''RcvDataSL5'' mad_dump_uint,
    BE_OFFS 224 32 ''RcvDataSL6'' mad_dump_uint,
    BE_OFFS 256 32 ''RcvDataSL7'' mad_dump_uint,
    BE_OFFS 288 32 ''RcvDataSL8'' mad_dump_uint,
    BE_OFFS 320 32 ''RcvDataSL9'' mad_dump_uint,
    BE_OFFS 352 32 ''RcvDataSL10'' mad_dump_uint,
    BE_OFFS 384 32 ''RcvDataSL11'' mad_dump_uint,
    BE_OFFS 416 32 ''RcvDataSL12'' mad_dump_uint,
    BE_OFFS 448 32 ''RcvDataSL13'' mad_dump_uint,
    BE_OFFS 480 32 ''RcvDataSL14'' mad_dump_uint,
    BE_OFFS 512 32 ''RcvDataSL15'' mad_dump_uint,
    no_field,
    BITSOFFS 32 16 ''PortInactiveDiscards'' mad_dump_uint,
    BITSOFFS 48 16 ''PortNeighborMTUDiscards'' mad_dump_uint,
    BITSOFFS 64 16 ''PortSwLifetimeLimitDiscards'' mad_dump_uint,
    BITSOFFS 80 16 ''PortSwHOQLifetimeLimitDiscards'' mad_dump_uint,
    no_field,
    BITSOFFS 32 16 ''PortLocalPhysicalErrors'' mad_dump_uint,
    BITSOFFS 48 16 ''PortMalformedPktErrors'' mad_dump_uint,
    BITSOFFS 64 16 ''PortBufferOverrunErrors'' mad_dump_uint,
    BITSOFFS 80 16 ''PortDLIDMappingErrors'' mad_dump_uint,
    BITSOFFS 96 16 ''PortVLMappingErrors'' mad_dump_uint,
    BITSOFFS 112 16 ''PortLoopingErrors'' mad_dump_uint,
    no_field]"

definition ib_mad_f4 :: "ib_field list" where
  "ib_mad_f4 = [
    BITSOFFS 0 8 ''OpCode'' mad_dump_hex,
    BITSOFFS 8 8 ''PortSelect'' mad_dump_uint,
    BITSOFFS 16 8 ''Tick'' mad_dump_hex,
    BITSOFFS 29 3 ''CounterWidth'' mad_dump_uint,
    BITSOFFS 34 3 ''CounterMask0'' mad_dump_hex,
    BITSOFFS 37 27 ''CounterMasks1to9'' mad_dump_hex,
    BITSOFFS 65 15 ''CounterMasks10to14'' mad_dump_hex,
    BITSOFFS 80 8 ''SampleMechanisms'' mad_dump_uint,
    BITSOFFS 94 2 ''SampleStatus'' mad_dump_uint,
    BE_OFFS 96 64 ''OptionMask'' mad_dump_hex,
    BE_OFFS 160 64 ''VendorMask'' mad_dump_hex,
    BE_OFFS 224 32 ''SampleStart'' mad_dump_uint,
    BE_OFFS 256 32 ''SampleInterval'' mad_dump_uint,
    BITSOFFS 288 16 ''Tag'' mad_dump_hex,
    BITSOFFS 304 16 ''CounterSelect0'' mad_dump_hex,
    BITSOFFS 320 16 ''CounterSelect1'' mad_dump_hex,
    BITSOFFS 336 16 ''CounterSelect2'' mad_dump_hex,
    BITSOFFS 352 16 ''CounterSelect3'' mad_dump_hex,
    BITSOFFS 368 16 ''CounterSelect4'' mad_dump_hex,
    BITSOFFS 384 16 ''CounterSelect5'' mad_dump_hex,
    BITSOFFS 400 16 ''CounterSelect6'' mad_dump_hex,
    BITSOFFS 416 16 ''CounterSelect7'' mad_dump_hex,
    BITSOFFS 432 16 ''CounterSelect8'' mad_dump_hex,
    BITSOFFS 448 16 ''CounterSelect9'' mad_dump_hex,
    BITSOFFS 464 16 ''CounterSelect10'' mad_dump_hex,
    BITSOFFS 480 16 ''CounterSelect11'' mad_dump_hex,
    BITSOFFS 496 16 ''CounterSelect12'' mad_dump_hex,
    BITSOFFS 512 16 ''CounterSelect13'' mad_dump_hex,
    BITSOFFS 528 16 ''CounterSelect14'' mad_dump_hex,
    BE_OFFS 576 64 ''SamplesOnlyOptionMask'' mad_dump_hex,
    no_field,
    BE_OFFS 0 64 ''GUID0'' mad_dump_hex,
    BE_OFFS 64 64 ''GUID1'' mad_dump_hex,
    BE_OFFS 128 64 ''GUID2'' mad_dump_hex,
    BE_OFFS 192 64 ''GUID3'' mad_dump_hex,
    BE_OFFS 256 64 ''GUID4'' mad_dump_hex,
    BE_OFFS 320 64 ''GUID5'' mad_dump_hex,
    BE_OFFS 384 64 ''GUID6'' mad_dump_hex,
    BE_OFFS 448 64 ''GUID7'' mad_dump_hex,
    BITSOFFS 0 16 ''Lid'' mad_dump_uint,
    BITSOFFS 16 8 ''BlockNum'' mad_dump_uint,
    BE_OFFS 64 64 ''Guid0'' mad_dump_hex,
    BE_OFFS 128 64 ''Guid1'' mad_dump_hex,
    BE_OFFS 192 64 ''Guid2'' mad_dump_hex,
    BE_OFFS 256 64 ''Guid3'' mad_dump_hex,
    BE_OFFS 320 64 ''Guid4'' mad_dump_hex,
    BE_OFFS 384 64 ''Guid5'' mad_dump_hex,
    BE_OFFS 448 64 ''Guid6'' mad_dump_hex,
    BE_OFFS 512 64 ''Guid7'' mad_dump_hex,
    BITSOFFS 480 16 ''CapabilityMask2'' mad_dump_portcapmask2,
    BITSOFFS 496 4 ''LinkSpeedExtActive'' mad_dump_linkspeedext,
    BITSOFFS 500 4 ''LinkSpeedExtSupported'' mad_dump_linkspeedextsup,
    BITSOFFS 507 5 ''LinkSpeedExtEnabled'' mad_dump_linkspeedexten,
    no_field,
    BITSOFFS 8 8 ''PortSelect'' mad_dump_uint,
    BE_OFFS 64 64 ''CounterSelect'' mad_dump_hex,
    BITSOFFS 128 16 ''SyncHeaderErrorCounter'' mad_dump_uint,
    BITSOFFS 144 16 ''UnknownBlockCounter'' mad_dump_uint,
    BITSOFFS 160 16 ''ErrorDetectionCounterLane0'' mad_dump_uint,
    BITSOFFS 176 16 ''ErrorDetectionCounterLane1'' mad_dump_uint,
    BITSOFFS 192 16 ''ErrorDetectionCounterLane2'' mad_dump_uint,
    BITSOFFS 208 16 ''ErrorDetectionCounterLane3'' mad_dump_uint,
    BITSOFFS 224 16 ''ErrorDetectionCounterLane4'' mad_dump_uint,
    BITSOFFS 240 16 ''ErrorDetectionCounterLane5'' mad_dump_uint,
    BITSOFFS 256 16 ''ErrorDetectionCounterLane6'' mad_dump_uint,
    BITSOFFS 272 16 ''ErrorDetectionCounterLane7'' mad_dump_uint,
    BITSOFFS 288 16 ''ErrorDetectionCounterLane8'' mad_dump_uint,
    BITSOFFS 304 16 ''ErrorDetectionCounterLane9'' mad_dump_uint,
    BITSOFFS 320 16 ''ErrorDetectionCounterLane10'' mad_dump_uint,
    BITSOFFS 336 16 ''ErrorDetectionCounterLane11'' mad_dump_uint,
    BE_OFFS 352 32 ''FECCorrectableBlockCtrLane0'' mad_dump_uint,
    BE_OFFS 384 32 ''FECCorrectableBlockCtrLane1'' mad_dump_uint,
    BE_OFFS 416 32 ''FECCorrectableBlockCtrLane2'' mad_dump_uint,
    BE_OFFS 448 32 ''FECCorrectableBlockCtrLane3'' mad_dump_uint,
    BE_OFFS 480 32 ''FECCorrectableBlockCtrLane4'' mad_dump_uint,
    BE_OFFS 512 32 ''FECCorrectableBlockCtrLane5'' mad_dump_uint,
    BE_OFFS 544 32 ''FECCorrectableBlockCtrLane6'' mad_dump_uint,
    BE_OFFS 576 32 ''FECCorrectableBlockCtrLane7'' mad_dump_uint,
    BE_OFFS 608 32 ''FECCorrectableBlockCtrLane8'' mad_dump_uint,
    BE_OFFS 640 32 ''FECCorrectableBlockCtrLane9'' mad_dump_uint,
    BE_OFFS 672 32 ''FECCorrectableBlockCtrLane10'' mad_dump_uint,
    BE_OFFS 704 32 ''FECCorrectableBlockCtrLane11'' mad_dump_uint,
    BE_OFFS 736 32 ''FECUncorrectableBlockCtrLane0'' mad_dump_uint,
    BE_OFFS 768 32 ''FECUncorrectableBlockCtrLane1'' mad_dump_uint,
    BE_OFFS 800 32 ''FECUncorrectableBlockCtrLane2'' mad_dump_uint,
    BE_OFFS 832 32 ''FECUncorrectableBlockCtrLane3'' mad_dump_uint,
    BE_OFFS 864 32 ''FECUncorrectableBlockCtrLane4'' mad_dump_uint,
    BE_OFFS 896 32 ''FECUncorrectableBlockCtrLane5'' mad_dump_uint,
    BE_OFFS 928 32 ''FECUncorrectableBlockCtrLane6'' mad_dump_uint,
    BE_OFFS 960 32 ''FECUncorrectableBlockCtrLane7'' mad_dump_uint,
    BE_OFFS 992 32 ''FECUncorrectableBlockCtrLane8'' mad_dump_uint,
    BE_OFFS 1024 32 ''FECUncorrectableBlockCtrLane9'' mad_dump_uint,
    BE_OFFS 1056 32 ''FECUncorrectableBlockCtrLane10'' mad_dump_uint,
    BE_OFFS 1088 32 ''FECUncorrectableBlockCtrLane11'' mad_dump_uint,
    no_field,
    BE_OFFS 32 32 ''PortOpRcvPkts'' mad_dump_uint,
    BE_OFFS 64 32 ''PortOpRcvData'' mad_dump_uint,
    no_field]"

definition ib_mad_f5 :: "ib_field list" where
  "ib_mad_f5 = [
    BE_OFFS 32 32 ''PortXmitFlowPkts'' mad_dump_uint,
    BE_OFFS 64 32 ''PortRcvFlowPkts'' mad_dump_uint,
    no_field,
    BITSOFFS 32 16 ''PortVLOpPackets0'' mad_dump_uint,
    BITSOFFS 48 16 ''PortVLOpPackets1'' mad_dump_uint,
    BITSOFFS 64 16 ''PortVLOpPackets2'' mad_dump_uint,
    BITSOFFS 80 16 ''PortVLOpPackets3'' mad_dump_uint,
    BITSOFFS 96 16 ''PortVLOpPackets4'' mad_dump_uint,
    BITSOFFS 112 16 ''PortVLOpPackets5'' mad_dump_uint,
    BITSOFFS 128 16 ''PortVLOpPackets6'' mad_dump_uint,
    BITSOFFS 144 16 ''PortVLOpPackets7'' mad_dump_uint,
    BITSOFFS 160 16 ''PortVLOpPackets8'' mad_dump_uint,
    BITSOFFS 176 16 ''PortVLOpPackets9'' mad_dump_uint,
    BITSOFFS 192 16 ''PortVLOpPackets10'' mad_dump_uint,
    BITSOFFS 208 16 ''PortVLOpPackets11'' mad_dump_uint,
    BITSOFFS 224 16 ''PortVLOpPackets12'' mad_dump_uint,
    BITSOFFS 240 16 ''PortVLOpPackets13'' mad_dump_uint,
    BITSOFFS 256 16 ''PortVLOpPackets14'' mad_dump_uint,
    BITSOFFS 272 16 ''PortVLOpPackets15'' mad_dump_uint,
    no_field,
    BE_OFFS 32 32 ''PortVLOpData0'' mad_dump_uint,
    BE_OFFS 64 32 ''PortVLOpData1'' mad_dump_uint,
    BE_OFFS 96 32 ''PortVLOpData2'' mad_dump_uint,
    BE_OFFS 128 32 ''PortVLOpData3'' mad_dump_uint,
    BE_OFFS 160 32 ''PortVLOpData4'' mad_dump_uint,
    BE_OFFS 192 32 ''PortVLOpData5'' mad_dump_uint,
    BE_OFFS 224 32 ''PortVLOpData6'' mad_dump_uint,
    BE_OFFS 256 32 ''PortVLOpData7'' mad_dump_uint,
    BE_OFFS 288 32 ''PortVLOpData8'' mad_dump_uint,
    BE_OFFS 320 32 ''PortVLOpData9'' mad_dump_uint,
    BE_OFFS 352 32 ''PortVLOpData10'' mad_dump_uint,
    BE_OFFS 384 32 ''PortVLOpData11'' mad_dump_uint,
    BE_OFFS 416 32 ''PortVLOpData12'' mad_dump_uint,
    BE_OFFS 448 32 ''PortVLOpData13'' mad_dump_uint,
    BE_OFFS 480 32 ''PortVLOpData14'' mad_dump_uint,
    BE_OFFS 512 32 ''PortVLOpData15'' mad_dump_uint,
    no_field,
    BITSOFFS 32 2 ''PortVLXmitFlowCtlUpdateErrors0'' mad_dump_uint,
    BITSOFFS 34 2 ''PortVLXmitFlowCtlUpdateErrors1'' mad_dump_uint,
    BITSOFFS 36 2 ''PortVLXmitFlowCtlUpdateErrors2'' mad_dump_uint,
    BITSOFFS 38 2 ''PortVLXmitFlowCtlUpdateErrors3'' mad_dump_uint,
    BITSOFFS 40 2 ''PortVLXmitFlowCtlUpdateErrors4'' mad_dump_uint,
    BITSOFFS 42 2 ''PortVLXmitFlowCtlUpdateErrors5'' mad_dump_uint,
    BITSOFFS 44 2 ''PortVLXmitFlowCtlUpdateErrors6'' mad_dump_uint,
    BITSOFFS 46 2 ''PortVLXmitFlowCtlUpdateErrors7'' mad_dump_uint,
    BITSOFFS 48 2 ''PortVLXmitFlowCtlUpdateErrors8'' mad_dump_uint,
    BITSOFFS 50 2 ''PortVLXmitFlowCtlUpdateErrors9'' mad_dump_uint,
    BITSOFFS 52 2 ''PortVLXmitFlowCtlUpdateErrors10'' mad_dump_uint,
    BITSOFFS 54 2 ''PortVLXmitFlowCtlUpdateErrors11'' mad_dump_uint,
    BITSOFFS 56 2 ''PortVLXmitFlowCtlUpdateErrors12'' mad_dump_uint,
    BITSOFFS 58 2 ''PortVLXmitFlowCtlUpdateErrors13'' mad_dump_uint,
    BITSOFFS 60 2 ''PortVLXmitFlowCtlUpdateErrors14'' mad_dump_uint,
    BITSOFFS 62 2 ''PortVLXmitFlowCtlUpdateErrors15'' mad_dump_uint,
    no_field,
    BITSOFFS 32 16 ''PortVLXmitWait0'' mad_dump_uint,
    BITSOFFS 48 16 ''PortVLXmitWait1'' mad_dump_uint,
    BITSOFFS 64 16 ''PortVLXmitWait2'' mad_dump_uint,
    BITSOFFS 80 16 ''PortVLXmitWait3'' mad_dump_uint,
    BITSOFFS 96 16 ''PortVLXmitWait4'' mad_dump_uint,
    BITSOFFS 112 16 ''PortVLXmitWait5'' mad_dump_uint,
    BITSOFFS 128 16 ''PortVLXmitWait6'' mad_dump_uint,
    BITSOFFS 144 16 ''PortVLXmitWait7'' mad_dump_uint,
    BITSOFFS 160 16 ''PortVLXmitWait8'' mad_dump_uint,
    BITSOFFS 176 16 ''PortVLXmitWait9'' mad_dump_uint,
    BITSOFFS 192 16 ''PortVLXmitWait10'' mad_dump_uint,
    BITSOFFS 208 16 ''PortVLXmitWait11'' mad_dump_uint,
    BITSOFFS 224 16 ''PortVLXmitWait12'' mad_dump_uint,
    BITSOFFS 240 16 ''PortVLXmitWait13'' mad_dump_uint,
    BITSOFFS 256 16 ''PortVLXmitWait14'' mad_dump_uint,
    BITSOFFS 272 16 ''PortVLXmitWait15'' mad_dump_uint,
    no_field,
    BITSOFFS 32 16 ''SWPortVLCongestion0'' mad_dump_uint,
    BITSOFFS 48 16 ''SWPortVLCongestion1'' mad_dump_uint,
    BITSOFFS 64 16 ''SWPortVLCongestion2'' mad_dump_uint,
    BITSOFFS 80 16 ''SWPortVLCongestion3'' mad_dump_uint,
    BITSOFFS 96 16 ''SWPortVLCongestion4'' mad_dump_uint,
    BITSOFFS 112 16 ''SWPortVLCongestion5'' mad_dump_uint,
    BITSOFFS 128 16 ''SWPortVLCongestion6'' mad_dump_uint,
    BITSOFFS 144 16 ''SWPortVLCongestion7'' mad_dump_uint,
    BITSOFFS 160 16 ''SWPortVLCongestion8'' mad_dump_uint,
    BITSOFFS 176 16 ''SWPortVLCongestion9'' mad_dump_uint,
    BITSOFFS 192 16 ''SWPortVLCongestion10'' mad_dump_uint,
    BITSOFFS 208 16 ''SWPortVLCongestion11'' mad_dump_uint,
    BITSOFFS 224 16 ''SWPortVLCongestion12'' mad_dump_uint,
    BITSOFFS 240 16 ''SWPortVLCongestion13'' mad_dump_uint,
    BITSOFFS 256 16 ''SWPortVLCongestion14'' mad_dump_uint,
    BITSOFFS 272 16 ''SWPortVLCongestion15'' mad_dump_uint,
    no_field]"

definition ib_mad_f6 :: "ib_field list" where
  "ib_mad_f6 = [
    BE_OFFS 32 32 ''PortPktRcvFECN'' mad_dump_uint,
    BE_OFFS 64 32 ''PortPktRcvBECN'' mad_dump_uint,
    no_field,
    BE_OFFS 32 32 ''PortSLRcvFECN0'' mad_dump_uint,
    BE_OFFS 64 32 ''PortSLRcvFECN1'' mad_dump_uint,
    BE_OFFS 96 32 ''PortSLRcvFECN2'' mad_dump_uint,
    BE_OFFS 128 32 ''PortSLRcvFECN3'' mad_dump_uint,
    BE_OFFS 160 32 ''PortSLRcvFECN4'' mad_dump_uint,
    BE_OFFS 192 32 ''PortSLRcvFECN5'' mad_dump_uint,
    BE_OFFS 224 32 ''PortSLRcvFECN6'' mad_dump_uint,
    BE_OFFS 256 32 ''PortSLRcvFECN7'' mad_dump_uint,
    BE_OFFS 288 32 ''PortSLRcvFECN8'' mad_dump_uint,
    BE_OFFS 320 32 ''PortSLRcvFECN9'' mad_dump_uint,
    BE_OFFS 352 32 ''PortSLRcvFECN10'' mad_dump_uint,
    BE_OFFS 384 32 ''PortSLRcvFECN11'' mad_dump_uint,
    BE_OFFS 416 32 ''PortSLRcvFECN12'' mad_dump_uint,
    BE_OFFS 448 32 ''PortSLRcvFECN13'' mad_dump_uint,
    BE_OFFS 480 32 ''PortSLRcvFECN14'' mad_dump_uint,
    BE_OFFS 512 32 ''PortSLRcvFECN15'' mad_dump_uint,
    no_field,
    BE_OFFS 32 32 ''PortSLRcvBECN0'' mad_dump_uint,
    BE_OFFS 64 32 ''PortSLRcvBECN1'' mad_dump_uint,
    BE_OFFS 96 32 ''PortSLRcvBECN2'' mad_dump_uint,
    BE_OFFS 128 32 ''PortSLRcvBECN3'' mad_dump_uint,
    BE_OFFS 160 32 ''PortSLRcvBECN4'' mad_dump_uint,
    BE_OFFS 192 32 ''PortSLRcvBECN5'' mad_dump_uint,
    BE_OFFS 224 32 ''PortSLRcvBECN6'' mad_dump_uint,
    BE_OFFS 256 32 ''PortSLRcvBECN7'' mad_dump_uint,
    BE_OFFS 288 32 ''PortSLRcvBECN8'' mad_dump_uint,
    BE_OFFS 320 32 ''PortSLRcvBECN9'' mad_dump_uint,
    BE_OFFS 352 32 ''PortSLRcvBECN10'' mad_dump_uint,
    BE_OFFS 384 32 ''PortSLRcvBECN11'' mad_dump_uint,
    BE_OFFS 416 32 ''PortSLRcvBECN12'' mad_dump_uint,
    BE_OFFS 448 32 ''PortSLRcvBECN13'' mad_dump_uint,
    BE_OFFS 480 32 ''PortSLRcvBECN14'' mad_dump_uint,
    BE_OFFS 512 32 ''PortSLRcvBECN15'' mad_dump_uint,
    no_field,
    BE_OFFS 32 32 ''PortXmitTimeCong'' mad_dump_uint,
    no_field,
    BE_OFFS 32 32 ''PortVLXmitTimeCong0'' mad_dump_uint,
    BE_OFFS 64 32 ''PortVLXmitTimeCong1'' mad_dump_uint,
    BE_OFFS 96 32 ''PortVLXmitTimeCong2'' mad_dump_uint,
    BE_OFFS 128 32 ''PortVLXmitTimeCong3'' mad_dump_uint,
    BE_OFFS 160 32 ''PortVLXmitTimeCong4'' mad_dump_uint,
    BE_OFFS 192 32 ''PortVLXmitTimeCong5'' mad_dump_uint,
    BE_OFFS 224 32 ''PortVLXmitTimeCong6'' mad_dump_uint,
    BE_OFFS 256 32 ''PortVLXmitTimeCong7'' mad_dump_uint,
    BE_OFFS 288 32 ''PortVLXmitTimeCong8'' mad_dump_uint,
    BE_OFFS 320 32 ''PortVLXmitTimeCong9'' mad_dump_uint,
    BE_OFFS 352 32 ''PortVLXmitTimeCong10'' mad_dump_uint,
    BE_OFFS 384 32 ''PortVLXmitTimeCong11'' mad_dump_uint,
    BE_OFFS 416 32 ''PortVLXmitTimeCong12'' mad_dump_uint,
    BE_OFFS 448 32 ''PortVLXmitTimeCong13'' mad_dump_uint,
    BE_OFFS 480 32 ''PortVLXmitTimeCong14'' mad_dump_uint,
    no_field,
    BITSOFFS 24 8 ''StateChangeEnable'' mad_dump_hex,
    BITSOFFS 56 8 ''LinkSpeedSupported'' mad_dump_hex,
    BITSOFFS 88 8 ''LinkSpeedEnabled'' mad_dump_hex,
    BITSOFFS 120 8 ''LinkSpeedActive'' mad_dump_hex,
    no_field,
    BE_OFFS 192 64 ''CC_Key'' mad_dump_hex,
    BITSOFFS 0 16 ''CongestionInfo'' mad_dump_hex,
    BITSOFFS 16 8 ''ControlTableCap'' mad_dump_uint,
    no_field,
    BE_OFFS 0 64 ''CC_Key'' mad_dump_hex,
    BITSOFFS 64 1 ''CC_KeyProtectBit'' mad_dump_uint,
    BITSOFFS 80 16 ''CC_KeyLeasePeriod'' mad_dump_uint,
    BITSOFFS 96 16 ''CC_KeyViolations'' mad_dump_uint,
    no_field,
    BITSOFFS 0 8 ''LogType'' mad_dump_uint,
    BITSOFFS 8 8 ''CongestionFlags'' mad_dump_hex,
    no_field]"

definition ib_mad_f7 :: "ib_field list" where
  "ib_mad_f7 = [
    BITSOFFS 16 16 ''LogEventsCounter'' mad_dump_uint,
    BE_OFFS 32 32 ''CurrentTimeStamp'' mad_dump_uint,
    BE_OFFS 64 256 ''PortMap'' mad_dump_array,
    no_field,
    BITSOFFS 0 16 ''SLID'' mad_dump_uint,
    BITSOFFS 16 16 ''DLID'' mad_dump_uint,
    BITSOFFS 32 4 ''SL'' mad_dump_uint,
    BE_OFFS 64 32 ''Timestamp'' mad_dump_uint,
    no_field,
    BITSOFFS 16 16 ''ThresholdEventCounter'' mad_dump_uint,
    BITSOFFS 32 16 ''ThresholdCongestionEventMap'' mad_dump_hex,
    BITSOFFS 64 32 ''CurrentTimeStamp'' mad_dump_uint,
    no_field,
    BITSOFFS 0 24 ''Local_QP_CN_Entry'' mad_dump_uint,
    BITSOFFS 24 4 ''SL_CN_Entry'' mad_dump_uint,
    BITSOFFS 28 4 ''Service_Type_CN_Entry'' mad_dump_hex,
    BITSOFFS 32 24 ''Remote_QP_Number_CN_Entry'' mad_dump_uint,
    BITSOFFS 64 16 ''Local_LID_CN'' mad_dump_uint,
    BITSOFFS 80 16 ''Remote_LID_CN_Entry'' mad_dump_uint,
    BITSOFFS 96 32 ''Timestamp_CN_Entry'' mad_dump_uint,
    no_field,
    BE_OFFS 0 32 ''Control_Map'' mad_dump_hex,
    BE_OFFS 32 256 ''Victim_Mask'' mad_dump_array,
    BE_OFFS 288 256 ''Credit_Mask'' mad_dump_array,
    BITSOFFS 544 4 ''Threshold'' mad_dump_hex,
    BITSOFFS 552 8 ''Packet_Size'' mad_dump_uint,
    BITSOFFS 560 4 ''CS_Threshold'' mad_dump_hex,
    BITSOFFS 576 16 ''CS_ReturnDelay'' mad_dump_hex,
    BITSOFFS 592 16 ''Marking_Rate'' mad_dump_uint,
    no_field,
    BITSOFFS 0 1 ''Valid'' mad_dump_uint,
    BITSOFFS 1 1 ''Control_Type'' mad_dump_uint,
    BITSOFFS 4 4 ''Threshold'' mad_dump_hex,
    BITSOFFS 8 8 ''Packet_Size'' mad_dump_uint,
    BITSOFFS 16 16 ''Cong_Parm_Marking_Rate'' mad_dump_uint,
    no_field,
    BITSOFFS 0 16 ''Port_Control'' mad_dump_hex,
    BITSOFFS 16 16 ''Control_Map'' mad_dump_hex,
    no_field,
    BITSOFFS 0 16 ''CCTI_Timer'' mad_dump_uint,
    BITSOFFS 16 8 ''CCTI_Increase'' mad_dump_uint,
    BITSOFFS 24 8 ''Trigger_Threshold'' mad_dump_uint,
    BITSOFFS 32 8 ''CCTI_Min'' mad_dump_uint,
    no_field,
    BITSOFFS 0 16 ''CCTI_Limit'' mad_dump_uint,
    no_field,
    BITSOFFS 0 2 ''CCT_Shift'' mad_dump_uint,
    BITSOFFS 2 14 ''CCT_Multiplier'' mad_dump_uint,
    no_field,
    BE_OFFS 0 32 ''Timestamp'' mad_dump_uint,
    no_field]"

definition ib_mad_f8 :: "ib_field list" where
  "ib_mad_f8 = [
    BITSOFFS 0 16 ''Lid'' mad_dump_uint,
    BITSOFFS 32 8 ''BaseVers'' mad_dump_uint,
    BITSOFFS 40 8 ''ClassVers'' mad_dump_uint,
    BITSOFFS 48 8 ''NodeType'' mad_dump_node_type,
    BITSOFFS 56 8 ''NumPorts'' mad_dump_uint,
    BE_OFFS 64 64 ''SystemGuid'' mad_dump_hex,
    BE_OFFS 128 64 ''Guid'' mad_dump_hex,
    BE_OFFS 192 64 ''PortGuid'' mad_dump_hex,
    BITSOFFS 256 16 ''PartCap'' mad_dump_uint,
    BITSOFFS 272 16 ''DevId'' mad_dump_hex,
    BE_OFFS 288 32 ''Revision'' mad_dump_hex,
    BITSOFFS 320 8 ''LocalPort'' mad_dump_uint,
    BITSOFFS 328 24 ''VendorId'' mad_dump_hex,
    BE_OFFS 352 (64 * 8) ''NodeDesc'' mad_dump_string,
    no_field,
    BITSOFFS 0 16 ''Tag'' mad_dump_hex,
    BITSOFFS 30 2 ''SampleStatus'' mad_dump_hex,
    BE_OFFS 32 32 ''Counter0'' mad_dump_uint,
    BE_OFFS 64 32 ''Counter1'' mad_dump_uint,
    BE_OFFS 96 32 ''Counter2'' mad_dump_uint,
    BE_OFFS 128 32 ''Counter3'' mad_dump_uint,
    BE_OFFS 160 32 ''Counter4'' mad_dump_uint,
    BE_OFFS 192 32 ''Counter5'' mad_dump_uint,
    BE_OFFS 224 32 ''Counter6'' mad_dump_uint,
    BE_OFFS 256 32 ''Counter7'' mad_dump_uint,
    BE_OFFS 288 32 ''Counter8'' mad_dump_uint,
    BE_OFFS 320 32 ''Counter9'' mad_dump_uint,
    BE_OFFS 352 32 ''Counter10'' mad_dump_uint,
    BE_OFFS 384 32 ''Counter11'' mad_dump_uint,
    BE_OFFS 416 32 ''Counter12'' mad_dump_uint,
    BE_OFFS 448 32 ''Counter13'' mad_dump_uint,
    BE_OFFS 480 32 ''Counter14'' mad_dump_uint,
    no_field,
    BE_OFFS 0 32 ''CapMask'' mad_dump_hex,
    BITSOFFS 32 16 ''FECModeActive'' mad_dump_uint,
    BITSOFFS 48 16 ''FDRFECModeSupported'' mad_dump_hex,
    BITSOFFS 64 16 ''FDRFECModeEnabled'' mad_dump_hex,
    BITSOFFS 80 16 ''EDRFECModeSupported'' mad_dump_hex,
    BITSOFFS 96 16 ''EDRFECModeEnabled'' mad_dump_hex,
    no_field,
    BITSOFFS 8 8 ''PortSelect'' mad_dump_uint,
    BE_OFFS 64 64 ''CounterSelect'' mad_dump_hex,
    BITSOFFS 128 16 ''SyncHeaderErrorCounter'' mad_dump_uint,
    BITSOFFS 144 16 ''UnknownBlockCounter'' mad_dump_uint,
    BE_OFFS 352 32 ''FECCorrectableSymbolCtrLane0'' mad_dump_uint,
    BE_OFFS 384 32 ''FECCorrectableSymbolCtrLane1'' mad_dump_uint,
    BE_OFFS 416 32 ''FECCorrectableSymbolCtrLane2'' mad_dump_uint,
    BE_OFFS 448 32 ''FECCorrectableSymbolCtrLane3'' mad_dump_uint,
    BE_OFFS 480 32 ''FECCorrectableSymbolCtrLane4'' mad_dump_uint,
    BE_OFFS 512 32 ''FECCorrectableSymbolCtrLane5'' mad_dump_uint,
    BE_OFFS 544 32 ''FECCorrectableSymbolCtrLane6'' mad_dump_uint,
    BE_OFFS 576 32 ''FECCorrectableSymbolCtrLane7'' mad_dump_uint,
    BE_OFFS 608 32 ''FECCorrectableSymbolCtrLane8'' mad_dump_uint,
    BE_OFFS 640 32 ''FECCorrectableSymbolCtrLane9'' mad_dump_uint,
    BE_OFFS 672 32 ''FECCorrectableSymbolCtrLane10'' mad_dump_uint,
    BE_OFFS 704 32 ''FECCorrectableSymbolCtrLane11'' mad_dump_uint,
    BE_OFFS 1120 32 ''PortFECCorrectableBlockCtr'' mad_dump_uint,
    BE_OFFS 1152 32 ''PortFECUncorrectableBlockCtr'' mad_dump_uint,
    BE_OFFS 1184 32 ''PortFECCorrectedSymbolCtr'' mad_dump_uint,
    no_field,
    BE_OFFS 32 32 ''CounterSelect2'' mad_dump_hex,
    BE_OFFS 576 64 ''SymbolErrorCounter'' mad_dump_uint,
    BE_OFFS 640 64 ''LinkErrorRecoveryCounter'' mad_dump_uint,
    BE_OFFS 704 64 ''LinkDownedCounter'' mad_dump_uint,
    BE_OFFS 768 64 ''PortRcvErrors'' mad_dump_uint,
    BE_OFFS 832 64 ''PortRcvRemotePhysicalErrors'' mad_dump_uint,
    BE_OFFS 896 64 ''PortRcvSwitchRelayErrors'' mad_dump_uint,
    BE_OFFS 960 64 ''PortXmitDiscards'' mad_dump_uint,
    BE_OFFS 1024 64 ''PortXmitConstraintErrors'' mad_dump_uint,
    BE_OFFS 1088 64 ''PortRcvConstraintErrors'' mad_dump_uint,
    BE_OFFS 1152 64 ''LocalLinkIntegrityErrors'' mad_dump_uint,
    BE_OFFS 1216 64 ''ExcessiveBufferOverrunErrors'' mad_dump_uint,
    BE_OFFS 1280 64 ''VL15Dropped'' mad_dump_uint,
    BE_OFFS 1344 64 ''PortXmitWait'' mad_dump_uint,
    BE_OFFS 1408 64 ''QP1Dropped'' mad_dump_uint,
    no_field,
    BE_OFFS 160 16 ''QP1Dropped'' mad_dump_uint,
    BE_OFFS 112 16 ''HDRFECModeSupported'' mad_dump_hex,
    BE_OFFS 128 16 ''HDRFECModeEnabled'' mad_dump_hex,
    no_field,
    BE_OFFS 144 16 ''NDRFECModeSupported'' mad_dump_hex,
    BE_OFFS 160 16 ''NDRFECModeEnabled'' mad_dump_hex,
    no_field]"

definition ib_mad_f9 :: "ib_field list" where
  "ib_mad_f9 = [
    BITSOFFS 449 2 ''LinkSpeedExtActive2'' mad_dump_linkspeedext2,
    BITSOFFS 451 2 ''LinkSpeedExtSupported2'' mad_dump_linkspeedextsup2,
    BITSOFFS 453 3 ''LinkSpeedExtEnabled2'' mad_dump_linkspeedexten2,
    no_field,
    no_field]"

definition ib_mad_f :: "ib_field list" where
  "ib_mad_f = ib_mad_f0 @ ib_mad_f1 @ ib_mad_f2 @ ib_mad_f3 @ ib_mad_f4 @ ib_mad_f5 @ ib_mad_f6 @ ib_mad_f7 @ ib_mad_f8 @ ib_mad_f9"

section \<open>The enumeration\<close>

text \<open>An enumerator and, where it has one, the enumerator its value is defined by.\<close>

type_synonym enumerator = "string \<times> string option"

definition MAD_FIELDS0 :: "enumerator list" where
  "MAD_FIELDS0 = [
    (''IB_NO_FIELD'', None),
    (''IB_GID_PREFIX_F'', None),
    (''IB_GID_GUID_F'', None),
    (''IB_MAD_METHOD_F'', None),
    (''IB_MAD_RESPONSE_F'', None),
    (''IB_MAD_CLASSVER_F'', None),
    (''IB_MAD_MGMTCLASS_F'', None),
    (''IB_MAD_BASEVER_F'', None),
    (''IB_MAD_STATUS_F'', None),
    (''IB_DRSMP_HOPCNT_F'', None),
    (''IB_DRSMP_HOPPTR_F'', None),
    (''IB_DRSMP_STATUS_F'', None),
    (''IB_DRSMP_DIRECTION_F'', None),
    (''IB_MAD_TRID_F'', None),
    (''IB_MAD_ATTRID_F'', None),
    (''IB_MAD_ATTRMOD_F'', None),
    (''IB_MAD_MKEY_F'', None),
    (''IB_DRSMP_DRDLID_F'', None),
    (''IB_DRSMP_DRSLID_F'', None),
    (''IB_SA_MKEY_F'', None),
    (''IB_SA_ATTROFFS_F'', None),
    (''IB_SA_COMPMASK_F'', None),
    (''IB_SA_DATA_F'', None),
    (''IB_SM_DATA_F'', None),
    (''IB_GS_DATA_F'', None),
    (''IB_DRSMP_PATH_F'', None),
    (''IB_DRSMP_RPATH_F'', None),
    (''IB_PORT_FIRST_F'', None),
    (''IB_PORT_MKEY_F'', Some ''IB_PORT_FIRST_F''),
    (''IB_PORT_GID_PREFIX_F'', None),
    (''IB_PORT_LID_F'', None),
    (''IB_PORT_SMLID_F'', None),
    (''IB_PORT_CAPMASK_F'', None),
    (''IB_PORT_DIAG_F'', None),
    (''IB_PORT_MKEY_LEASE_F'', None),
    (''IB_PORT_LOCAL_PORT_F'', None),
    (''IB_PORT_LINK_WIDTH_ENABLED_F'', None),
    (''IB_PORT_LINK_WIDTH_SUPPORTED_F'', None),
    (''IB_PORT_LINK_WIDTH_ACTIVE_F'', None),
    (''IB_PORT_LINK_SPEED_SUPPORTED_F'', None),
    (''IB_PORT_STATE_F'', None),
    (''IB_PORT_PHYS_STATE_F'', None),
    (''IB_PORT_LINK_DOWN_DEF_F'', None),
    (''IB_PORT_MKEY_PROT_BITS_F'', None),
    (''IB_PORT_LMC_F'', None),
    (''IB_PORT_LINK_SPEED_ACTIVE_F'', None),
    (''IB_PORT_LINK_SPEED_ENABLED_F'', None),
    (''IB_PORT_NEIGHBOR_MTU_F'', None),
    (''IB_PORT_SMSL_F'', None),
    (''IB_PORT_VL_CAP_F'', None),
    (''IB_PORT_INIT_TYPE_F'', None),
    (''IB_PORT_VL_HIGH_LIMIT_F'', None),
    (''IB_PORT_VL_ARBITRATION_HIGH_CAP_F'', None),
    (''IB_PORT_VL_ARBITRATION_LOW_CAP_F'', None),
    (''IB_PORT_INIT_TYPE_REPLY_F'', None),
    (''IB_PORT_MTU_CAP_F'', None),
    (''IB_PORT_VL_STALL_COUNT_F'', None),
    (''IB_PORT_HOQ_LIFE_F'', None),
    (''IB_PORT_OPER_VLS_F'', None),
    (''IB_PORT_PART_EN_INB_F'', None),
    (''IB_PORT_PART_EN_OUTB_F'', None),
    (''IB_PORT_FILTER_RAW_INB_F'', None),
    (''IB_PORT_FILTER_RAW_OUTB_F'', None),
    (''IB_PORT_MKEY_VIOL_F'', None),
    (''IB_PORT_PKEY_VIOL_F'', None),
    (''IB_PORT_QKEY_VIOL_F'', None),
    (''IB_PORT_GUID_CAP_F'', None),
    (''IB_PORT_CLIENT_REREG_F'', None),
    (''IB_PORT_MCAST_PKEY_SUPR_ENAB_F'', None),
    (''IB_PORT_SUBN_TIMEOUT_F'', None),
    (''IB_PORT_RESP_TIME_VAL_F'', None),
    (''IB_PORT_LOCAL_PHYS_ERR_F'', None),
    (''IB_PORT_OVERRUN_ERR_F'', None),
    (''IB_PORT_MAX_CREDIT_HINT_F'', None),
    (''IB_PORT_LINK_ROUND_TRIP_F'', None),
    (''IB_PORT_LAST_F'', None)]"

definition MAD_FIELDS1 :: "enumerator list" where
  "MAD_FIELDS1 = [
    (''IB_NODE_FIRST_F'', None),
    (''IB_NODE_BASE_VERS_F'', Some ''IB_NODE_FIRST_F''),
    (''IB_NODE_CLASS_VERS_F'', None),
    (''IB_NODE_TYPE_F'', None),
    (''IB_NODE_NPORTS_F'', None),
    (''IB_NODE_SYSTEM_GUID_F'', None),
    (''IB_NODE_GUID_F'', None),
    (''IB_NODE_PORT_GUID_F'', None),
    (''IB_NODE_PARTITION_CAP_F'', None),
    (''IB_NODE_DEVID_F'', None),
    (''IB_NODE_REVISION_F'', None),
    (''IB_NODE_LOCAL_PORT_F'', None),
    (''IB_NODE_VENDORID_F'', None),
    (''IB_NODE_LAST_F'', None),
    (''IB_SW_FIRST_F'', None),
    (''IB_SW_LINEAR_FDB_CAP_F'', Some ''IB_SW_FIRST_F''),
    (''IB_SW_RANDOM_FDB_CAP_F'', None),
    (''IB_SW_MCAST_FDB_CAP_F'', None),
    (''IB_SW_LINEAR_FDB_TOP_F'', None),
    (''IB_SW_DEF_PORT_F'', None),
    (''IB_SW_DEF_MCAST_PRIM_F'', None),
    (''IB_SW_DEF_MCAST_NOT_PRIM_F'', None),
    (''IB_SW_LIFE_TIME_F'', None),
    (''IB_SW_STATE_CHANGE_F'', None),
    (''IB_SW_OPT_SLTOVL_MAPPING_F'', None),
    (''IB_SW_LIDS_PER_PORT_F'', None),
    (''IB_SW_PARTITION_ENFORCE_CAP_F'', None),
    (''IB_SW_PARTITION_ENF_INB_F'', None),
    (''IB_SW_PARTITION_ENF_OUTB_F'', None),
    (''IB_SW_FILTER_RAW_INB_F'', None),
    (''IB_SW_FILTER_RAW_OUTB_F'', None),
    (''IB_SW_ENHANCED_PORT0_F'', None),
    (''IB_SW_MCAST_FDB_TOP_F'', None),
    (''IB_SW_LAST_F'', None),
    (''IB_LINEAR_FORW_TBL_F'', None),
    (''IB_MULTICAST_FORW_TBL_F'', None),
    (''IB_NODE_DESC_F'', None),
    (''IB_NOTICE_IS_GENERIC_F'', None),
    (''IB_NOTICE_TYPE_F'', None),
    (''IB_NOTICE_PRODUCER_F'', None),
    (''IB_NOTICE_TRAP_NUMBER_F'', None),
    (''IB_NOTICE_ISSUER_LID_F'', None),
    (''IB_NOTICE_TOGGLE_F'', None),
    (''IB_NOTICE_COUNT_F'', None),
    (''IB_NOTICE_DATA_DETAILS_F'', None),
    (''IB_NOTICE_DATA_LID_F'', None),
    (''IB_NOTICE_DATA_144_LID_F'', None),
    (''IB_NOTICE_DATA_144_CAPMASK_F'', None),
    (''IB_PC_FIRST_F'', None),
    (''IB_PC_PORT_SELECT_F'', Some ''IB_PC_FIRST_F''),
    (''IB_PC_COUNTER_SELECT_F'', None),
    (''IB_PC_ERR_SYM_F'', None),
    (''IB_PC_LINK_RECOVERS_F'', None),
    (''IB_PC_LINK_DOWNED_F'', None),
    (''IB_PC_ERR_RCV_F'', None),
    (''IB_PC_ERR_PHYSRCV_F'', None),
    (''IB_PC_ERR_SWITCH_REL_F'', None),
    (''IB_PC_XMT_DISCARDS_F'', None),
    (''IB_PC_ERR_XMTCONSTR_F'', None),
    (''IB_PC_ERR_RCVCONSTR_F'', None),
    (''IB_PC_COUNTER_SELECT2_F'', None),
    (''IB_PC_ERR_LOCALINTEG_F'', None),
    (''IB_PC_ERR_EXCESS_OVR_F'', None),
    (''IB_PC_VL15_DROPPED_F'', None),
    (''IB_PC_XMT_BYTES_F'', None),
    (''IB_PC_RCV_BYTES_F'', None),
    (''IB_PC_XMT_PKTS_F'', None),
    (''IB_PC_RCV_PKTS_F'', None),
    (''IB_PC_XMT_WAIT_F'', None),
    (''IB_PC_LAST_F'', None)]"

definition MAD_FIELDS2 :: "enumerator list" where
  "MAD_FIELDS2 = [
    (''IB_SMINFO_GUID_F'', None),
    (''IB_SMINFO_KEY_F'', None),
    (''IB_SMINFO_ACT_F'', None),
    (''IB_SMINFO_PRIO_F'', None),
    (''IB_SMINFO_STATE_F'', None),
    (''IB_SA_RMPP_VERS_F'', None),
    (''IB_SA_RMPP_TYPE_F'', None),
    (''IB_SA_RMPP_RESP_F'', None),
    (''IB_SA_RMPP_FLAGS_F'', None),
    (''IB_SA_RMPP_STATUS_F'', None),
    (''IB_SA_RMPP_D1_F'', None),
    (''IB_SA_RMPP_SEGNUM_F'', None),
    (''IB_SA_RMPP_D2_F'', None),
    (''IB_SA_RMPP_LEN_F'', None),
    (''IB_SA_RMPP_NEWWIN_F'', None),
    (''IB_SA_MP_NPATH_F'', None),
    (''IB_SA_MP_NSRC_F'', None),
    (''IB_SA_MP_NDEST_F'', None),
    (''IB_SA_MP_GID0_F'', None),
    (''IB_SA_PR_DGID_F'', None),
    (''IB_SA_PR_SGID_F'', None),
    (''IB_SA_PR_DLID_F'', None),
    (''IB_SA_PR_SLID_F'', None),
    (''IB_SA_PR_NPATH_F'', None),
    (''IB_SA_PR_SL_F'', None),
    (''IB_SA_MCM_MGID_F'', None),
    (''IB_SA_MCM_PORTGID_F'', None),
    (''IB_SA_MCM_QKEY_F'', None),
    (''IB_SA_MCM_MLID_F'', None),
    (''IB_SA_MCM_SL_F'', None),
    (''IB_SA_MCM_MTU_F'', None),
    (''IB_SA_MCM_RATE_F'', None),
    (''IB_SA_MCM_TCLASS_F'', None),
    (''IB_SA_MCM_PKEY_F'', None),
    (''IB_SA_MCM_FLOW_LABEL_F'', None),
    (''IB_SA_MCM_JOIN_STATE_F'', None),
    (''IB_SA_MCM_PROXY_JOIN_F'', None),
    (''IB_SA_SR_ID_F'', None),
    (''IB_SA_SR_GID_F'', None),
    (''IB_SA_SR_PKEY_F'', None),
    (''IB_SA_SR_LEASE_F'', None),
    (''IB_SA_SR_KEY_F'', None),
    (''IB_SA_SR_NAME_F'', None),
    (''IB_SA_SR_DATA_F'', None),
    (''IB_ATS_SM_NODE_ADDR_F'', None),
    (''IB_ATS_SM_MAGIC_KEY_F'', None),
    (''IB_ATS_SM_NODE_TYPE_F'', None),
    (''IB_ATS_SM_NODE_NAME_F'', None),
    (''IB_SLTOVL_MAPPING_TABLE_F'', None),
    (''IB_VL_ARBITRATION_TABLE_F'', None),
    (''IB_VEND2_OUI_F'', None),
    (''IB_VEND2_DATA_F'', None),
    (''IB_PC_EXT_FIRST_F'', None),
    (''IB_PC_EXT_PORT_SELECT_F'', Some ''IB_PC_EXT_FIRST_F''),
    (''IB_PC_EXT_COUNTER_SELECT_F'', None),
    (''IB_PC_EXT_XMT_BYTES_F'', None),
    (''IB_PC_EXT_RCV_BYTES_F'', None),
    (''IB_PC_EXT_XMT_PKTS_F'', None),
    (''IB_PC_EXT_RCV_PKTS_F'', None),
    (''IB_PC_EXT_XMT_UPKTS_F'', None),
    (''IB_PC_EXT_RCV_UPKTS_F'', None),
    (''IB_PC_EXT_XMT_MPKTS_F'', None),
    (''IB_PC_EXT_RCV_MPKTS_F'', None),
    (''IB_PC_EXT_LAST_F'', None)]"

definition MAD_FIELDS3 :: "enumerator list" where
  "MAD_FIELDS3 = [
    (''IB_GUID_GUID0_F'', None),
    (''IB_CPI_BASEVER_F'', None),
    (''IB_CPI_CLASSVER_F'', None),
    (''IB_CPI_CAPMASK_F'', None),
    (''IB_CPI_CAPMASK2_F'', None),
    (''IB_CPI_RESP_TIME_VALUE_F'', None),
    (''IB_CPI_REDIRECT_GID_F'', None),
    (''IB_CPI_REDIRECT_TC_F'', None),
    (''IB_CPI_REDIRECT_SL_F'', None),
    (''IB_CPI_REDIRECT_FL_F'', None),
    (''IB_CPI_REDIRECT_LID_F'', None),
    (''IB_CPI_REDIRECT_PKEY_F'', None),
    (''IB_CPI_REDIRECT_QP_F'', None),
    (''IB_CPI_REDIRECT_QKEY_F'', None),
    (''IB_CPI_TRAP_GID_F'', None),
    (''IB_CPI_TRAP_TC_F'', None),
    (''IB_CPI_TRAP_SL_F'', None),
    (''IB_CPI_TRAP_FL_F'', None),
    (''IB_CPI_TRAP_LID_F'', None),
    (''IB_CPI_TRAP_PKEY_F'', None),
    (''IB_CPI_TRAP_HL_F'', None),
    (''IB_CPI_TRAP_QP_F'', None),
    (''IB_CPI_TRAP_QKEY_F'', None),
    (''IB_PC_XMT_DATA_SL_FIRST_F'', None),
    (''IB_PC_XMT_DATA_SL0_F'', Some ''IB_PC_XMT_DATA_SL_FIRST_F''),
    (''IB_PC_XMT_DATA_SL1_F'', None),
    (''IB_PC_XMT_DATA_SL2_F'', None),
    (''IB_PC_XMT_DATA_SL3_F'', None),
    (''IB_PC_XMT_DATA_SL4_F'', None),
    (''IB_PC_XMT_DATA_SL5_F'', None),
    (''IB_PC_XMT_DATA_SL6_F'', None),
    (''IB_PC_XMT_DATA_SL7_F'', None),
    (''IB_PC_XMT_DATA_SL8_F'', None),
    (''IB_PC_XMT_DATA_SL9_F'', None),
    (''IB_PC_XMT_DATA_SL10_F'', None),
    (''IB_PC_XMT_DATA_SL11_F'', None),
    (''IB_PC_XMT_DATA_SL12_F'', None),
    (''IB_PC_XMT_DATA_SL13_F'', None),
    (''IB_PC_XMT_DATA_SL14_F'', None),
    (''IB_PC_XMT_DATA_SL15_F'', None),
    (''IB_PC_XMT_DATA_SL_LAST_F'', None),
    (''IB_PC_RCV_DATA_SL_FIRST_F'', None),
    (''IB_PC_RCV_DATA_SL0_F'', Some ''IB_PC_RCV_DATA_SL_FIRST_F''),
    (''IB_PC_RCV_DATA_SL1_F'', None),
    (''IB_PC_RCV_DATA_SL2_F'', None),
    (''IB_PC_RCV_DATA_SL3_F'', None),
    (''IB_PC_RCV_DATA_SL4_F'', None),
    (''IB_PC_RCV_DATA_SL5_F'', None),
    (''IB_PC_RCV_DATA_SL6_F'', None),
    (''IB_PC_RCV_DATA_SL7_F'', None),
    (''IB_PC_RCV_DATA_SL8_F'', None),
    (''IB_PC_RCV_DATA_SL9_F'', None),
    (''IB_PC_RCV_DATA_SL10_F'', None),
    (''IB_PC_RCV_DATA_SL11_F'', None),
    (''IB_PC_RCV_DATA_SL12_F'', None),
    (''IB_PC_RCV_DATA_SL13_F'', None),
    (''IB_PC_RCV_DATA_SL14_F'', None),
    (''IB_PC_RCV_DATA_SL15_F'', None),
    (''IB_PC_RCV_DATA_SL_LAST_F'', None),
    (''IB_PC_XMT_INACT_DISC_F'', None),
    (''IB_PC_XMT_NEIGH_MTU_DISC_F'', None),
    (''IB_PC_XMT_SW_LIFE_DISC_F'', None),
    (''IB_PC_XMT_SW_HOL_DISC_F'', None),
    (''IB_PC_XMT_DISC_LAST_F'', None),
    (''IB_PC_RCV_LOCAL_PHY_ERR_F'', None),
    (''IB_PC_RCV_MALFORMED_PKT_ERR_F'', None),
    (''IB_PC_RCV_BUF_OVR_ERR_F'', None),
    (''IB_PC_RCV_DLID_MAP_ERR_F'', None),
    (''IB_PC_RCV_VL_MAP_ERR_F'', None),
    (''IB_PC_RCV_LOOPING_ERR_F'', None),
    (''IB_PC_RCV_ERR_LAST_F'', None)]"

definition MAD_FIELDS4 :: "enumerator list" where
  "MAD_FIELDS4 = [
    (''IB_PSC_OPCODE_F'', None),
    (''IB_PSC_PORT_SELECT_F'', None),
    (''IB_PSC_TICK_F'', None),
    (''IB_PSC_COUNTER_WIDTH_F'', None),
    (''IB_PSC_COUNTER_MASK0_F'', None),
    (''IB_PSC_COUNTER_MASKS1TO9_F'', None),
    (''IB_PSC_COUNTER_MASKS10TO14_F'', None),
    (''IB_PSC_SAMPLE_MECHS_F'', None),
    (''IB_PSC_SAMPLE_STATUS_F'', None),
    (''IB_PSC_OPTION_MASK_F'', None),
    (''IB_PSC_VENDOR_MASK_F'', None),
    (''IB_PSC_SAMPLE_START_F'', None),
    (''IB_PSC_SAMPLE_INTVL_F'', None),
    (''IB_PSC_TAG_F'', None),
    (''IB_PSC_COUNTER_SEL0_F'', None),
    (''IB_PSC_COUNTER_SEL1_F'', None),
    (''IB_PSC_COUNTER_SEL2_F'', None),
    (''IB_PSC_COUNTER_SEL3_F'', None),
    (''IB_PSC_COUNTER_SEL4_F'', None),
    (''IB_PSC_COUNTER_SEL5_F'', None),
    (''IB_PSC_COUNTER_SEL6_F'', None),
    (''IB_PSC_COUNTER_SEL7_F'', None),
    (''IB_PSC_COUNTER_SEL8_F'', None),
    (''IB_PSC_COUNTER_SEL9_F'', None),
    (''IB_PSC_COUNTER_SEL10_F'', None),
    (''IB_PSC_COUNTER_SEL11_F'', None),
    (''IB_PSC_COUNTER_SEL12_F'', None),
    (''IB_PSC_COUNTER_SEL13_F'', None),
    (''IB_PSC_COUNTER_SEL14_F'', None),
    (''IB_PSC_SAMPLES_ONLY_OPT_MASK_F'', None),
    (''IB_PSC_LAST_F'', None),
    (''IB_GI_GUID0_F'', None),
    (''IB_GI_GUID1_F'', None),
    (''IB_GI_GUID2_F'', None),
    (''IB_GI_GUID3_F'', None),
    (''IB_GI_GUID4_F'', None),
    (''IB_GI_GUID5_F'', None),
    (''IB_GI_GUID6_F'', None),
    (''IB_GI_GUID7_F'', None),
    (''IB_SA_GIR_LID_F'', None),
    (''IB_SA_GIR_BLOCKNUM_F'', None),
    (''IB_SA_GIR_GUID0_F'', None),
    (''IB_SA_GIR_GUID1_F'', None),
    (''IB_SA_GIR_GUID2_F'', None),
    (''IB_SA_GIR_GUID3_F'', None),
    (''IB_SA_GIR_GUID4_F'', None),
    (''IB_SA_GIR_GUID5_F'', None),
    (''IB_SA_GIR_GUID6_F'', None),
    (''IB_SA_GIR_GUID7_F'', None),
    (''IB_PORT_CAPMASK2_F'', None),
    (''IB_PORT_LINK_SPEED_EXT_ACTIVE_F'', None),
    (''IB_PORT_LINK_SPEED_EXT_SUPPORTED_F'', None),
    (''IB_PORT_LINK_SPEED_EXT_ENABLED_F'', None),
    (''IB_PORT_LINK_SPEED_EXT_LAST_F'', None),
    (''IB_PESC_PORT_SELECT_F'', None),
    (''IB_PESC_COUNTER_SELECT_F'', None),
    (''IB_PESC_SYNC_HDR_ERR_CTR_F'', None),
    (''IB_PESC_UNK_BLOCK_CTR_F'', None),
    (''IB_PESC_ERR_DET_CTR_LANE0_F'', None),
    (''IB_PESC_ERR_DET_CTR_LANE1_F'', None),
    (''IB_PESC_ERR_DET_CTR_LANE2_F'', None),
    (''IB_PESC_ERR_DET_CTR_LANE3_F'', None),
    (''IB_PESC_ERR_DET_CTR_LANE4_F'', None),
    (''IB_PESC_ERR_DET_CTR_LANE5_F'', None),
    (''IB_PESC_ERR_DET_CTR_LANE6_F'', None),
    (''IB_PESC_ERR_DET_CTR_LANE7_F'', None),
    (''IB_PESC_ERR_DET_CTR_LANE8_F'', None),
    (''IB_PESC_ERR_DET_CTR_LANE9_F'', None),
    (''IB_PESC_ERR_DET_CTR_LANE10_F'', None),
    (''IB_PESC_ERR_DET_CTR_LANE11_F'', None),
    (''IB_PESC_FEC_CORR_BLOCK_CTR_LANE0_F'', None),
    (''IB_PESC_FEC_CORR_BLOCK_CTR_LANE1_F'', None),
    (''IB_PESC_FEC_CORR_BLOCK_CTR_LANE2_F'', None),
    (''IB_PESC_FEC_CORR_BLOCK_CTR_LANE3_F'', None),
    (''IB_PESC_FEC_CORR_BLOCK_CTR_LANE4_F'', None),
    (''IB_PESC_FEC_CORR_BLOCK_CTR_LANE5_F'', None),
    (''IB_PESC_FEC_CORR_BLOCK_CTR_LANE6_F'', None),
    (''IB_PESC_FEC_CORR_BLOCK_CTR_LANE7_F'', None),
    (''IB_PESC_FEC_CORR_BLOCK_CTR_LANE8_F'', None),
    (''IB_PESC_FEC_CORR_BLOCK_CTR_LANE9_F'', None),
    (''IB_PESC_FEC_CORR_BLOCK_CTR_LANE10_F'', None),
    (''IB_PESC_FEC_CORR_BLOCK_CTR_LANE11_F'', None),
    (''IB_PESC_FEC_UNCORR_BLOCK_CTR_LANE0_F'', None),
    (''IB_PESC_FEC_UNCORR_BLOCK_CTR_LANE1_F'', None),
    (''IB_PESC_FEC_UNCORR_BLOCK_CTR_LANE2_F'', None),
    (''IB_PESC_FEC_UNCORR_BLOCK_CTR_LANE3_F'', None),
    (''IB_PESC_FEC_UNCORR_BLOCK_CTR_LANE4_F'', None),
    (''IB_PESC_FEC_UNCORR_BLOCK_CTR_LANE5_F'', None),
    (''IB_PESC_FEC_UNCORR_BLOCK_CTR_LANE6_F'', None),
    (''IB_PESC_FEC_UNCORR_BLOCK_CTR_LANE7_F'', None),
    (''IB_PESC_FEC_UNCORR_BLOCK_CTR_LANE8_F'', None),
    (''IB_PESC_FEC_UNCORR_BLOCK_CTR_LANE9_F'', None),
    (''IB_PESC_FEC_UNCORR_BLOCK_CTR_LANE10_F'', None),
    (''IB_PESC_FEC_UNCORR_BLOCK_CTR_LANE11_F'', None),
    (''IB_PESC_LAST_F'', None),
    (''IB_PC_PORT_OP_RCV_COUNTERS_FIRST_F'', None),
    (''IB_PC_PORT_OP_RCV_PKTS_F'', Some ''IB_PC_PORT_OP_RCV_COUNTERS_FIRST_F''),
    (''IB_PC_PORT_OP_RCV_DATA_F'', None),
    (''IB_PC_PORT_OP_RCV_COUNTERS_LAST_F'', None)]"

definition MAD_FIELDS5 :: "enumerator list" where
  "MAD_FIELDS5 = [
    (''IB_PC_PORT_FLOW_CTL_COUNTERS_FIRST_F'', None),
    (''IB_PC_PORT_XMIT_FLOW_PKTS_F'', Some ''IB_PC_PORT_FLOW_CTL_COUNTERS_FIRST_F''),
    (''IB_PC_PORT_RCV_FLOW_PKTS_F'', None),
    (''IB_PC_PORT_FLOW_CTL_COUNTERS_LAST_F'', None),
    (''IB_PC_PORT_VL_OP_PACKETS_FIRST_F'', None),
    (''IB_PC_PORT_VL_OP_PACKETS0_F'', Some ''IB_PC_PORT_VL_OP_PACKETS_FIRST_F''),
    (''IB_PC_PORT_VL_OP_PACKETS1_F'', None),
    (''IB_PC_PORT_VL_OP_PACKETS2_F'', None),
    (''IB_PC_PORT_VL_OP_PACKETS3_F'', None),
    (''IB_PC_PORT_VL_OP_PACKETS4_F'', None),
    (''IB_PC_PORT_VL_OP_PACKETS5_F'', None),
    (''IB_PC_PORT_VL_OP_PACKETS6_F'', None),
    (''IB_PC_PORT_VL_OP_PACKETS7_F'', None),
    (''IB_PC_PORT_VL_OP_PACKETS8_F'', None),
    (''IB_PC_PORT_VL_OP_PACKETS9_F'', None),
    (''IB_PC_PORT_VL_OP_PACKETS10_F'', None),
    (''IB_PC_PORT_VL_OP_PACKETS11_F'', None),
    (''IB_PC_PORT_VL_OP_PACKETS12_F'', None),
    (''IB_PC_PORT_VL_OP_PACKETS13_F'', None),
    (''IB_PC_PORT_VL_OP_PACKETS14_F'', None),
    (''IB_PC_PORT_VL_OP_PACKETS15_F'', None),
    (''IB_PC_PORT_VL_OP_PACKETS_LAST_F'', None),
    (''IB_PC_PORT_VL_OP_DATA_FIRST_F'', None),
    (''IB_PC_PORT_VL_OP_DATA0_F'', Some ''IB_PC_PORT_VL_OP_DATA_FIRST_F''),
    (''IB_PC_PORT_VL_OP_DATA1_F'', None),
    (''IB_PC_PORT_VL_OP_DATA2_F'', None),
    (''IB_PC_PORT_VL_OP_DATA3_F'', None),
    (''IB_PC_PORT_VL_OP_DATA4_F'', None),
    (''IB_PC_PORT_VL_OP_DATA5_F'', None),
    (''IB_PC_PORT_VL_OP_DATA6_F'', None),
    (''IB_PC_PORT_VL_OP_DATA7_F'', None),
    (''IB_PC_PORT_VL_OP_DATA8_F'', None),
    (''IB_PC_PORT_VL_OP_DATA9_F'', None),
    (''IB_PC_PORT_VL_OP_DATA10_F'', None),
    (''IB_PC_PORT_VL_OP_DATA11_F'', None),
    (''IB_PC_PORT_VL_OP_DATA12_F'', None),
    (''IB_PC_PORT_VL_OP_DATA13_F'', None),
    (''IB_PC_PORT_VL_OP_DATA14_F'', None),
    (''IB_PC_PORT_VL_OP_DATA15_F'', None),
    (''IB_PC_PORT_VL_OP_DATA_LAST_F'', None),
    (''IB_PC_PORT_VL_XMIT_FLOW_CTL_UPDATE_ERRORS_FIRST_F'', None),
    (''IB_PC_PORT_VL_XMIT_FLOW_CTL_UPDATE_ERRORS0_F'', Some ''IB_PC_PORT_VL_XMIT_FLOW_CTL_UPDATE_ERRORS_FIRST_F''),
    (''IB_PC_PORT_VL_XMIT_FLOW_CTL_UPDATE_ERRORS1_F'', None),
    (''IB_PC_PORT_VL_XMIT_FLOW_CTL_UPDATE_ERRORS2_F'', None),
    (''IB_PC_PORT_VL_XMIT_FLOW_CTL_UPDATE_ERRORS3_F'', None),
    (''IB_PC_PORT_VL_XMIT_FLOW_CTL_UPDATE_ERRORS4_F'', None),
    (''IB_PC_PORT_VL_XMIT_FLOW_CTL_UPDATE_ERRORS5_F'', None),
    (''IB_PC_PORT_VL_XMIT_FLOW_CTL_UPDATE_ERRORS6_F'', None),
    (''IB_PC_PORT_VL_XMIT_FLOW_CTL_UPDATE_ERRORS7_F'', None),
    (''IB_PC_PORT_VL_XMIT_FLOW_CTL_UPDATE_ERRORS8_F'', None),
    (''IB_PC_PORT_VL_XMIT_FLOW_CTL_UPDATE_ERRORS9_F'', None),
    (''IB_PC_PORT_VL_XMIT_FLOW_CTL_UPDATE_ERRORS10_F'', None),
    (''IB_PC_PORT_VL_XMIT_FLOW_CTL_UPDATE_ERRORS11_F'', None),
    (''IB_PC_PORT_VL_XMIT_FLOW_CTL_UPDATE_ERRORS12_F'', None),
    (''IB_PC_PORT_VL_XMIT_FLOW_CTL_UPDATE_ERRORS13_F'', None),
    (''IB_PC_PORT_VL_XMIT_FLOW_CTL_UPDATE_ERRORS14_F'', None),
    (''IB_PC_PORT_VL_XMIT_FLOW_CTL_UPDATE_ERRORS15_F'', None),
    (''IB_PC_PORT_VL_XMIT_FLOW_CTL_UPDATE_ERRORS_LAST_F'', None),
    (''IB_PC_PORT_VL_XMIT_WAIT_COUNTERS_FIRST_F'', None),
    (''IB_PC_PORT_VL_XMIT_WAIT0_F'', Some ''IB_PC_PORT_VL_XMIT_WAIT_COUNTERS_FIRST_F''),
    (''IB_PC_PORT_VL_XMIT_WAIT1_F'', None),
    (''IB_PC_PORT_VL_XMIT_WAIT2_F'', None),
    (''IB_PC_PORT_VL_XMIT_WAIT3_F'', None),
    (''IB_PC_PORT_VL_XMIT_WAIT4_F'', None),
    (''IB_PC_PORT_VL_XMIT_WAIT5_F'', None),
    (''IB_PC_PORT_VL_XMIT_WAIT6_F'', None),
    (''IB_PC_PORT_VL_XMIT_WAIT7_F'', None),
    (''IB_PC_PORT_VL_XMIT_WAIT8_F'', None),
    (''IB_PC_PORT_VL_XMIT_WAIT9_F'', None),
    (''IB_PC_PORT_VL_XMIT_WAIT10_F'', None),
    (''IB_PC_PORT_VL_XMIT_WAIT11_F'', None),
    (''IB_PC_PORT_VL_XMIT_WAIT12_F'', None),
    (''IB_PC_PORT_VL_XMIT_WAIT13_F'', None),
    (''IB_PC_PORT_VL_XMIT_WAIT14_F'', None),
    (''IB_PC_PORT_VL_XMIT_WAIT15_F'', None),
    (''IB_PC_PORT_VL_XMIT_WAIT_COUNTERS_LAST_F'', None),
    (''IB_PC_SW_PORT_VL_CONGESTION_FIRST_F'', None),
    (''IB_PC_SW_PORT_VL_CONGESTION0_F'', Some ''IB_PC_SW_PORT_VL_CONGESTION_FIRST_F''),
    (''IB_PC_SW_PORT_VL_CONGESTION1_F'', None),
    (''IB_PC_SW_PORT_VL_CONGESTION2_F'', None),
    (''IB_PC_SW_PORT_VL_CONGESTION3_F'', None),
    (''IB_PC_SW_PORT_VL_CONGESTION4_F'', None),
    (''IB_PC_SW_PORT_VL_CONGESTION5_F'', None),
    (''IB_PC_SW_PORT_VL_CONGESTION6_F'', None),
    (''IB_PC_SW_PORT_VL_CONGESTION7_F'', None),
    (''IB_PC_SW_PORT_VL_CONGESTION8_F'', None),
    (''IB_PC_SW_PORT_VL_CONGESTION9_F'', None),
    (''IB_PC_SW_PORT_VL_CONGESTION10_F'', None),
    (''IB_PC_SW_PORT_VL_CONGESTION11_F'', None),
    (''IB_PC_SW_PORT_VL_CONGESTION12_F'', None),
    (''IB_PC_SW_PORT_VL_CONGESTION13_F'', None),
    (''IB_PC_SW_PORT_VL_CONGESTION14_F'', None),
    (''IB_PC_SW_PORT_VL_CONGESTION15_F'', None),
    (''IB_PC_SW_PORT_VL_CONGESTION_LAST_F'', None)]"

definition MAD_FIELDS6 :: "enumerator list" where
  "MAD_FIELDS6 = [
    (''IB_PC_RCV_CON_CTRL_FIRST_F'', None),
    (''IB_PC_RCV_CON_CTRL_PKT_RCV_FECN_F'', Some ''IB_PC_RCV_CON_CTRL_FIRST_F''),
    (''IB_PC_RCV_CON_CTRL_PKT_RCV_BECN_F'', None),
    (''IB_PC_RCV_CON_CTRL_LAST_F'', None),
    (''IB_PC_SL_RCV_FECN_FIRST_F'', None),
    (''IB_PC_SL_RCV_FECN0_F'', Some ''IB_PC_SL_RCV_FECN_FIRST_F''),
    (''IB_PC_SL_RCV_FECN1_F'', None),
    (''IB_PC_SL_RCV_FECN2_F'', None),
    (''IB_PC_SL_RCV_FECN3_F'', None),
    (''IB_PC_SL_RCV_FECN4_F'', None),
    (''IB_PC_SL_RCV_FECN5_F'', None),
    (''IB_PC_SL_RCV_FECN6_F'', None),
    (''IB_PC_SL_RCV_FECN7_F'', None),
    (''IB_PC_SL_RCV_FECN8_F'', None),
    (''IB_PC_SL_RCV_FECN9_F'', None),
    (''IB_PC_SL_RCV_FECN10_F'', None),
    (''IB_PC_SL_RCV_FECN11_F'', None),
    (''IB_PC_SL_RCV_FECN12_F'', None),
    (''IB_PC_SL_RCV_FECN13_F'', None),
    (''IB_PC_SL_RCV_FECN14_F'', None),
    (''IB_PC_SL_RCV_FECN15_F'', None),
    (''IB_PC_SL_RCV_FECN_LAST_F'', None),
    (''IB_PC_SL_RCV_BECN_FIRST_F'', None),
    (''IB_PC_SL_RCV_BECN0_F'', Some ''IB_PC_SL_RCV_BECN_FIRST_F''),
    (''IB_PC_SL_RCV_BECN1_F'', None),
    (''IB_PC_SL_RCV_BECN2_F'', None),
    (''IB_PC_SL_RCV_BECN3_F'', None),
    (''IB_PC_SL_RCV_BECN4_F'', None),
    (''IB_PC_SL_RCV_BECN5_F'', None),
    (''IB_PC_SL_RCV_BECN6_F'', None),
    (''IB_PC_SL_RCV_BECN7_F'', None),
    (''IB_PC_SL_RCV_BECN8_F'', None),
    (''IB_PC_SL_RCV_BECN9_F'', None),
    (''IB_PC_SL_RCV_BECN10_F'', None),
    (''IB_PC_SL_RCV_BECN11_F'', None),
    (''IB_PC_SL_RCV_BECN12_F'', None),
    (''IB_PC_SL_RCV_BECN13_F'', None),
    (''IB_PC_SL_RCV_BECN14_F'', None),
    (''IB_PC_SL_RCV_BECN15_F'', None),
    (''IB_PC_SL_RCV_BECN_LAST_F'', None),
    (''IB_PC_XMIT_CON_CTRL_FIRST_F'', None),
    (''IB_PC_XMIT_CON_CTRL_TIME_CONG_F'', Some ''IB_PC_XMIT_CON_CTRL_FIRST_F''),
    (''IB_PC_XMIT_CON_CTRL_LAST_F'', None),
    (''IB_PC_VL_XMIT_TIME_CONG_FIRST_F'', None),
    (''IB_PC_VL_XMIT_TIME_CONG0_F'', Some ''IB_PC_VL_XMIT_TIME_CONG_FIRST_F''),
    (''IB_PC_VL_XMIT_TIME_CONG1_F'', None),
    (''IB_PC_VL_XMIT_TIME_CONG2_F'', None),
    (''IB_PC_VL_XMIT_TIME_CONG3_F'', None),
    (''IB_PC_VL_XMIT_TIME_CONG4_F'', None),
    (''IB_PC_VL_XMIT_TIME_CONG5_F'', None),
    (''IB_PC_VL_XMIT_TIME_CONG6_F'', None),
    (''IB_PC_VL_XMIT_TIME_CONG7_F'', None),
    (''IB_PC_VL_XMIT_TIME_CONG8_F'', None),
    (''IB_PC_VL_XMIT_TIME_CONG9_F'', None),
    (''IB_PC_VL_XMIT_TIME_CONG10_F'', None),
    (''IB_PC_VL_XMIT_TIME_CONG11_F'', None),
    (''IB_PC_VL_XMIT_TIME_CONG12_F'', None),
    (''IB_PC_VL_XMIT_TIME_CONG13_F'', None),
    (''IB_PC_VL_XMIT_TIME_CONG14_F'', None),
    (''IB_PC_VL_XMIT_TIME_CONG_LAST_F'', None),
    (''IB_MLNX_EXT_PORT_STATE_CHG_ENABLE_F'', None),
    (''IB_MLNX_EXT_PORT_LINK_SPEED_SUPPORTED_F'', None),
    (''IB_MLNX_EXT_PORT_LINK_SPEED_ENABLED_F'', None),
    (''IB_MLNX_EXT_PORT_LINK_SPEED_ACTIVE_F'', None),
    (''IB_MLNX_EXT_PORT_LAST_F'', None),
    (''IB_CC_CCKEY_F'', None),
    (''IB_CC_CONGESTION_INFO_FIRST_F'', None),
    (''IB_CC_CONGESTION_INFO_F'', Some ''IB_CC_CONGESTION_INFO_FIRST_F''),
    (''IB_CC_CONGESTION_INFO_CONTROL_TABLE_CAP_F'', None),
    (''IB_CC_CONGESTION_INFO_LAST_F'', None),
    (''IB_CC_CONGESTION_KEY_INFO_FIRST_F'', None),
    (''IB_CC_CONGESTION_KEY_INFO_CC_KEY_F'', Some ''IB_CC_CONGESTION_KEY_INFO_FIRST_F''),
    (''IB_CC_CONGESTION_KEY_INFO_CC_KEY_PROTECT_BIT_F'', None),
    (''IB_CC_CONGESTION_KEY_INFO_CC_KEY_LEASE_PERIOD_F'', None),
    (''IB_CC_CONGESTION_KEY_INFO_CC_KEY_VIOLATIONS_F'', None),
    (''IB_CC_CONGESTION_KEY_INFO_LAST_F'', None),
    (''IB_CC_CONGESTION_LOG_FIRST_F'', None),
    (''IB_CC_CONGESTION_LOG_LOGTYPE_F'', Some ''IB_CC_CONGESTION_LOG_FIRST_F''),
    (''IB_CC_CONGESTION_LOG_CONGESTION_FLAGS_F'', None),
    (''IB_CC_CONGESTION_LOG_LAST_F'', None)]"

definition MAD_FIELDS7 :: "enumerator list" where
  "MAD_FIELDS7 = [
    (''IB_CC_CONGESTION_LOG_SWITCH_FIRST_F'', None),
    (''IB_CC_CONGESTION_LOG_SWITCH_LOG_EVENTS_COUNTER_F'', Some ''IB_CC_CONGESTION_LOG_SWITCH_FIRST_F''),
    (''IB_CC_CONGESTION_LOG_SWITCH_CURRENT_TIME_STAMP_F'', None),
    (''IB_CC_CONGESTION_LOG_SWITCH_PORTMAP_F'', None),
    (''IB_CC_CONGESTION_LOG_SWITCH_LAST_F'', None),
    (''IB_CC_CONGESTION_LOG_ENTRY_SWITCH_FIRST_F'', None),
    (''IB_CC_CONGESTION_LOG_ENTRY_SWITCH_SLID_F'', Some ''IB_CC_CONGESTION_LOG_ENTRY_SWITCH_FIRST_F''),
    (''IB_CC_CONGESTION_LOG_ENTRY_SWITCH_DLID_F'', None),
    (''IB_CC_CONGESTION_LOG_ENTRY_SWITCH_SL_F'', None),
    (''IB_CC_CONGESTION_LOG_ENTRY_SWITCH_TIMESTAMP_F'', None),
    (''IB_CC_CONGESTION_LOG_ENTRY_SWITCH_LAST_F'', None),
    (''IB_CC_CONGESTION_LOG_CA_FIRST_F'', None),
    (''IB_CC_CONGESTION_LOG_CA_THRESHOLD_EVENT_COUNTER_F'', Some ''IB_CC_CONGESTION_LOG_CA_FIRST_F''),
    (''IB_CC_CONGESTION_LOG_CA_THRESHOLD_CONGESTION_EVENT_MAP_F'', None),
    (''IB_CC_CONGESTION_LOG_CA_CURRENT_TIMESTAMP_F'', None),
    (''IB_CC_CONGESTION_LOG_CA_LAST_F'', None),
    (''IB_CC_CONGESTION_LOG_ENTRY_CA_FIRST_F'', None),
    (''IB_CC_CONGESTION_LOG_ENTRY_CA_LOCAL_QP_CN_ENTRY_F'', Some ''IB_CC_CONGESTION_LOG_ENTRY_CA_FIRST_F''),
    (''IB_CC_CONGESTION_LOG_ENTRY_CA_SL_CN_ENTRY_F'', None),
    (''IB_CC_CONGESTION_LOG_ENTRY_CA_SERVICE_TYPE_CN_ENTRY_F'', None),
    (''IB_CC_CONGESTION_LOG_ENTRY_CA_REMOTE_QP_NUMBER_CN_ENTRY_F'', None),
    (''IB_CC_CONGESTION_LOG_ENTRY_CA_LOCAL_LID_CN_F'', None),
    (''IB_CC_CONGESTION_LOG_ENTRY_CA_REMOTE_LID_CN_ENTRY_F'', None),
    (''IB_CC_CONGESTION_LOG_ENTRY_CA_TIMESTAMP_CN_ENTRY_F'', None),
    (''IB_CC_CONGESTION_LOG_ENTRY_CA_LAST_F'', None),
    (''IB_CC_SWITCH_CONGESTION_SETTING_FIRST_F'', None),
    (''IB_CC_SWITCH_CONGESTION_SETTING_CONTROL_MAP_F'', Some ''IB_CC_SWITCH_CONGESTION_SETTING_FIRST_F''),
    (''IB_CC_SWITCH_CONGESTION_SETTING_VICTIM_MASK_F'', None),
    (''IB_CC_SWITCH_CONGESTION_SETTING_CREDIT_MASK_F'', None),
    (''IB_CC_SWITCH_CONGESTION_SETTING_THRESHOLD_F'', None),
    (''IB_CC_SWITCH_CONGESTION_SETTING_PACKET_SIZE_F'', None),
    (''IB_CC_SWITCH_CONGESTION_SETTING_CS_THRESHOLD_F'', None),
    (''IB_CC_SWITCH_CONGESTION_SETTING_CS_RETURN_DELAY_F'', None),
    (''IB_CC_SWITCH_CONGESTION_SETTING_MARKING_RATE_F'', None),
    (''IB_CC_SWITCH_CONGESTION_SETTING_LAST_F'', None),
    (''IB_CC_SWITCH_PORT_CONGESTION_SETTING_ELEMENT_FIRST_F'', None),
    (''IB_CC_SWITCH_PORT_CONGESTION_SETTING_ELEMENT_VALID_F'', Some ''IB_CC_SWITCH_PORT_CONGESTION_SETTING_ELEMENT_FIRST_F''),
    (''IB_CC_SWITCH_PORT_CONGESTION_SETTING_ELEMENT_CONTROL_TYPE_F'', None),
    (''IB_CC_SWITCH_PORT_CONGESTION_SETTING_ELEMENT_THRESHOLD_F'', None),
    (''IB_CC_SWITCH_PORT_CONGESTION_SETTING_ELEMENT_PACKET_SIZE_F'', None),
    (''IB_CC_SWITCH_PORT_CONGESTION_SETTING_ELEMENT_CONG_PARM_MARKING_RATE_F'', None),
    (''IB_CC_SWITCH_PORT_CONGESTION_SETTING_ELEMENT_LAST_F'', None),
    (''IB_CC_CA_CONGESTION_SETTING_FIRST_F'', None),
    (''IB_CC_CA_CONGESTION_SETTING_PORT_CONTROL_F'', Some ''IB_CC_CA_CONGESTION_SETTING_FIRST_F''),
    (''IB_CC_CA_CONGESTION_SETTING_CONTROL_MAP_F'', None),
    (''IB_CC_CA_CONGESTION_SETTING_LAST_F'', None),
    (''IB_CC_CA_CONGESTION_ENTRY_FIRST_F'', None),
    (''IB_CC_CA_CONGESTION_ENTRY_CCTI_TIMER_F'', Some ''IB_CC_CA_CONGESTION_ENTRY_FIRST_F''),
    (''IB_CC_CA_CONGESTION_ENTRY_CCTI_INCREASE_F'', None),
    (''IB_CC_CA_CONGESTION_ENTRY_TRIGGER_THRESHOLD_F'', None),
    (''IB_CC_CA_CONGESTION_ENTRY_CCTI_MIN_F'', None),
    (''IB_CC_CA_CONGESTION_ENTRY_LAST_F'', None),
    (''IB_CC_CONGESTION_CONTROL_TABLE_FIRST_F'', None),
    (''IB_CC_CONGESTION_CONTROL_TABLE_CCTI_LIMIT_F'', Some ''IB_CC_CONGESTION_CONTROL_TABLE_FIRST_F''),
    (''IB_CC_CONGESTION_CONTROL_TABLE_LAST_F'', None),
    (''IB_CC_CONGESTION_CONTROL_TABLE_ENTRY_FIRST_F'', None),
    (''IB_CC_CONGESTION_CONTROL_TABLE_ENTRY_CCT_SHIFT_F'', Some ''IB_CC_CONGESTION_CONTROL_TABLE_ENTRY_FIRST_F''),
    (''IB_CC_CONGESTION_CONTROL_TABLE_ENTRY_CCT_MULTIPLIER_F'', None),
    (''IB_CC_CONGESTION_CONTROL_TABLE_ENTRY_LAST_F'', None),
    (''IB_CC_TIMESTAMP_FIRST_F'', None),
    (''IB_CC_TIMESTAMP_F'', Some ''IB_CC_TIMESTAMP_FIRST_F''),
    (''IB_CC_TIMESTAMP_LAST_F'', None)]"

definition MAD_FIELDS8 :: "enumerator list" where
  "MAD_FIELDS8 = [
    (''IB_SA_NR_FIRST_F'', None),
    (''IB_SA_NR_LID_F'', Some ''IB_SA_NR_FIRST_F''),
    (''IB_SA_NR_BASEVER_F'', None),
    (''IB_SA_NR_CLASSVER_F'', None),
    (''IB_SA_NR_TYPE_F'', None),
    (''IB_SA_NR_NPORTS_F'', None),
    (''IB_SA_NR_SYSTEM_GUID_F'', None),
    (''IB_SA_NR_GUID_F'', None),
    (''IB_SA_NR_PORT_GUID_F'', None),
    (''IB_SA_NR_PARTITION_CAP_F'', None),
    (''IB_SA_NR_DEVID_F'', None),
    (''IB_SA_NR_REVISION_F'', None),
    (''IB_SA_NR_LOCAL_PORT_F'', None),
    (''IB_SA_NR_VENDORID_F'', None),
    (''IB_SA_NR_NODEDESC_F'', None),
    (''IB_SA_NR_LAST_F'', None),
    (''IB_PSR_TAG_F'', None),
    (''IB_PSR_SAMPLE_STATUS_F'', None),
    (''IB_PSR_COUNTER0_F'', None),
    (''IB_PSR_COUNTER1_F'', None),
    (''IB_PSR_COUNTER2_F'', None),
    (''IB_PSR_COUNTER3_F'', None),
    (''IB_PSR_COUNTER4_F'', None),
    (''IB_PSR_COUNTER5_F'', None),
    (''IB_PSR_COUNTER6_F'', None),
    (''IB_PSR_COUNTER7_F'', None),
    (''IB_PSR_COUNTER8_F'', None),
    (''IB_PSR_COUNTER9_F'', None),
    (''IB_PSR_COUNTER10_F'', None),
    (''IB_PSR_COUNTER11_F'', None),
    (''IB_PSR_COUNTER12_F'', None),
    (''IB_PSR_COUNTER13_F'', None),
    (''IB_PSR_COUNTER14_F'', None),
    (''IB_PSR_LAST_F'', None),
    (''IB_PORT_EXT_FIRST_F'', None),
    (''IB_PORT_EXT_CAPMASK_F'', Some ''IB_PORT_EXT_FIRST_F''),
    (''IB_PORT_EXT_FEC_MODE_ACTIVE_F'', None),
    (''IB_PORT_EXT_FDR_FEC_MODE_SUPPORTED_F'', None),
    (''IB_PORT_EXT_FDR_FEC_MODE_ENABLED_F'', None),
    (''IB_PORT_EXT_EDR_FEC_MODE_SUPPORTED_F'', None),
    (''IB_PORT_EXT_EDR_FEC_MODE_ENABLED_F'', None),
    (''IB_PORT_EXT_LAST_F'', None),
    (''IB_PESC_RSFEC_FIRST_F'', None),
    (''IB_PESC_RSFEC_PORT_SELECT_F'', Some ''IB_PESC_RSFEC_FIRST_F''),
    (''IB_PESC_RSFEC_COUNTER_SELECT_F'', None),
    (''IB_PESC_RSFEC_SYNC_HDR_ERR_CTR_F'', None),
    (''IB_PESC_RSFEC_UNK_BLOCK_CTR_F'', None),
    (''IB_PESC_RSFEC_FEC_CORR_SYMBOL_CTR_LANE0_F'', None),
    (''IB_PESC_RSFEC_FEC_CORR_SYMBOL_CTR_LANE1_F'', None),
    (''IB_PESC_RSFEC_FEC_CORR_SYMBOL_CTR_LANE2_F'', None),
    (''IB_PESC_RSFEC_FEC_CORR_SYMBOL_CTR_LANE3_F'', None),
    (''IB_PESC_RSFEC_FEC_CORR_SYMBOL_CTR_LANE4_F'', None),
    (''IB_PESC_RSFEC_FEC_CORR_SYMBOL_CTR_LANE5_F'', None),
    (''IB_PESC_RSFEC_FEC_CORR_SYMBOL_CTR_LANE6_F'', None),
    (''IB_PESC_RSFEC_FEC_CORR_SYMBOL_CTR_LANE7_F'', None),
    (''IB_PESC_RSFEC_FEC_CORR_SYMBOL_CTR_LANE8_F'', None),
    (''IB_PESC_RSFEC_FEC_CORR_SYMBOL_CTR_LANE9_F'', None),
    (''IB_PESC_RSFEC_FEC_CORR_SYMBOL_CTR_LANE10_F'', None),
    (''IB_PESC_RSFEC_FEC_CORR_SYMBOL_CTR_LANE11_F'', None),
    (''IB_PESC_PORT_FEC_CORR_BLOCK_CTR_F'', None),
    (''IB_PESC_PORT_FEC_UNCORR_BLOCK_CTR_F'', None),
    (''IB_PESC_PORT_FEC_CORR_SYMBOL_CTR_F'', None),
    (''IB_PESC_RSFEC_LAST_F'', None),
    (''IB_PC_EXT_COUNTER_SELECT2_F'', None),
    (''IB_PC_EXT_ERR_SYM_F'', None),
    (''IB_PC_EXT_LINK_RECOVERS_F'', None),
    (''IB_PC_EXT_LINK_DOWNED_F'', None),
    (''IB_PC_EXT_ERR_RCV_F'', None),
    (''IB_PC_EXT_ERR_PHYSRCV_F'', None),
    (''IB_PC_EXT_ERR_SWITCH_REL_F'', None),
    (''IB_PC_EXT_XMT_DISCARDS_F'', None),
    (''IB_PC_EXT_ERR_XMTCONSTR_F'', None),
    (''IB_PC_EXT_ERR_RCVCONSTR_F'', None),
    (''IB_PC_EXT_ERR_LOCALINTEG_F'', None),
    (''IB_PC_EXT_ERR_EXCESS_OVR_F'', None),
    (''IB_PC_EXT_VL15_DROPPED_F'', None),
    (''IB_PC_EXT_XMT_WAIT_F'', None),
    (''IB_PC_EXT_QP1_DROP_F'', None),
    (''IB_PC_EXT_ERR_LAST_F'', None),
    (''IB_PC_QP1_DROP_F'', None),
    (''IB_PORT_EXT_HDR_FEC_MODE_SUPPORTED_F'', None),
    (''IB_PORT_EXT_HDR_FEC_MODE_ENABLED_F'', None),
    (''IB_PORT_EXT_HDR_FEC_MODE_LAST_F'', None),
    (''IB_PORT_EXT_NDR_FEC_MODE_SUPPORTED_F'', None),
    (''IB_PORT_EXT_NDR_FEC_MODE_ENABLED_F'', None),
    (''IB_PORT_EXT_NDR_FEC_MODE_LAST_F'', None)]"

definition MAD_FIELDS9 :: "enumerator list" where
  "MAD_FIELDS9 = [
    (''IB_PORT_LINK_SPEED_EXT_ACTIVE_2_F'', None),
    (''IB_PORT_LINK_SPEED_EXT_SUPPORTED_2_F'', None),
    (''IB_PORT_LINK_SPEED_EXT_ENABLED_2_F'', None),
    (''IB_PORT_LINK_SPEED_EXT_2_LAST_F'', None),
    (''IB_FIELD_LAST_'', None)]"

definition MAD_FIELDS :: "enumerator list" where
  "MAD_FIELDS = MAD_FIELDS0 @ MAD_FIELDS1 @ MAD_FIELDS2 @ MAD_FIELDS3 @ MAD_FIELDS4 @ MAD_FIELDS5 @ MAD_FIELDS6 @ MAD_FIELDS7 @ MAD_FIELDS8 @ MAD_FIELDS9"

text \<open>
  The values C gives the enumerators: one more than the previous one, or the value of the
  enumerator named. \<open>acc\<close> holds the enumerators so far, the latest first.
\<close>

fun enum_values :: "(string \<times> nat) list \<Rightarrow> nat \<Rightarrow> enumerator list \<Rightarrow> (string \<times> nat) list option" where
  "enum_values acc nxt [] = Some (rev acc)"
| "enum_values acc nxt ((n, None) # es) = enum_values ((n, nxt) # acc) (nxt + 1) es"
| "enum_values acc nxt ((n, Some a) # es) =
     (case map_of acc a of
        None \<Rightarrow> None
      | Some v \<Rightarrow> enum_values ((n, v) # acc) (v + 1) es)"

end
