(* ===== verification/Mad_Fields.thy ===== *)
theory Mad_Fields
  imports Mad_Table
begin

text \<open>
  Access to the fields of a management datagram, \<open>libibmad/fields.c\<close>: fields of up to 32
  bits that start anywhere in a byte, 64-bit fields and byte arrays.

  A datagram is a list of bytes. The code numbers the bits of a field within 32-bit words
  whose bytes are in big-endian order and therefore reaches byte \<open>idx\<close> as \<open>p[3 ^ idx]\<close>. The
  lemmas read a buffer as one sequence of bits in that numbering (\<open>fbit\<close>) and show that
  \<open>_set_field\<close> replaces, and \<open>_get_field\<close> returns, exactly the bits of the field.

  Integer arguments of the C functions that are offsets are \<open>int\<close>, the host is little-endian
  (\<open>htonll\<close> swaps).
\<close>

section \<open>Fields of at most 32 bits\<close>

text \<open>The pieces of a field: bits in its first byte, whole bytes, bits in its last byte.\<close>

definition prebits :: "ib_field \<Rightarrow> nat" where
  "prebits f = nat ((8 - (bitoffs f AND 7)) AND 7)"

definition postbits :: "ib_field \<Rightarrow> nat" where
  "postbits f = nat ((bitoffs f + bitlen f) AND 7)"

definition bytelen :: "ib_field \<Rightarrow> nat" where
  "bytelen f = nat (bitlen f div 8)"

definition field_idx :: "int \<Rightarrow> ib_field \<Rightarrow> nat" where
  "field_idx base_offs f = nat (base_offs + bitoffs f div 8)"

definition in_one_byte :: "ib_field \<Rightarrow> bool" where
  "in_one_byte f \<longleftrightarrow> bytelen f = 0 \<and> (bitoffs f AND 7) + bitlen f < 8"

text \<open>\<open>for (; bytelen--; val >>= 8) p[3 ^ idx++] = val & 0xff;\<close>\<close>

fun set_bytes :: "nat \<Rightarrow> u8 list \<Rightarrow> nat \<Rightarrow> u32 \<Rightarrow> (u8 list \<times> nat \<times> u32) option" where
  "set_bytes 0 p idx val = Some (p, idx, val)"
| "set_bytes (Suc n) p idx val = do {
     p \<leftarrow> arr_set p (3 XOR idx) (ucast (val AND 0xff));
     set_bytes n p (idx + 1) (drop_bit 8 val)
   }"

definition set_field :: "u8 list \<Rightarrow> int \<Rightarrow> ib_field \<Rightarrow> u32 \<Rightarrow> u8 list option" where
  "set_field buf base_offs f val = (
     let pre = prebits f; post = postbits f; idx = field_idx base_offs f;
         off = nat (bitoffs f AND 7); len = nat (bitlen f) in
     if in_one_byte f then
       arr_upd buf (3 XOR idx)
         (\<lambda>b. (b AND NOT (push_bit off (push_bit len 1 - 1)))
              OR ucast (push_bit off (val AND (push_bit len 1 - 1))))
     else do {
       (p, idx, val) \<leftarrow> (if pre \<noteq> 0 then do {
           p \<leftarrow> arr_upd buf (3 XOR idx)
                 (\<lambda>b. (b AND (push_bit (8 - pre) 1 - 1))
                      OR ucast (push_bit (8 - pre) (val AND (push_bit pre 1 - 1))));
           Some (p, idx + 1, drop_bit pre val)
         } else Some (buf, idx, val));
       (p, idx, val) \<leftarrow> set_bytes (bytelen f) p idx val;
       if post \<noteq> 0 then
         arr_upd p (3 XOR idx) (\<lambda>b. (b AND NOT (push_bit post 1 - 1)) OR ucast val)
       else Some p
     })"

text \<open>\<open>for (idx += bytelen - 1; bytelen--; idx--) val = (val << 8) | p[3 ^ idx];\<close>\<close>

fun get_bytes :: "nat \<Rightarrow> u8 list \<Rightarrow> nat \<Rightarrow> u32 \<Rightarrow> u32 option" where
  "get_bytes 0 p idx val = Some val"
| "get_bytes (Suc n) p idx val = do {
     b \<leftarrow> arr_get p (3 XOR (idx + n));
     get_bytes n p idx (push_bit 8 val OR ucast b)
   }"

definition get_field :: "u8 list \<Rightarrow> int \<Rightarrow> ib_field \<Rightarrow> u32 option" where
  "get_field p base_offs f = (
     let pre = prebits f; post = postbits f; idx = field_idx base_offs f;
         off = nat (bitoffs f AND 7); len = nat (bitlen f) in
     if in_one_byte f then do {
       b \<leftarrow> arr_get p (3 XOR idx);
       Some (drop_bit off (ucast b) AND (push_bit len 1 - 1))
     } else do {
       (v, idx) \<leftarrow> (if pre \<noteq> 0 then do {
           b \<leftarrow> arr_get p (3 XOR idx);
           Some (drop_bit (8 - pre) (ucast b), idx + 1)
         } else Some (0, idx));
       val \<leftarrow> (if post \<noteq> 0 then do {
           b \<leftarrow> arr_get p (3 XOR nat (base_offs + (bitoffs f + bitlen f) div 8));
           Some (ucast b AND (push_bit post 1 - 1))
         } else Some 0);
       val \<leftarrow> get_bytes (bytelen f) p idx val;
       Some (push_bit pre val OR v)
     })"

section \<open>Fields of 64 bits and arrays\<close>

text \<open>The bytes of \<open>htonll(val)\<close> in memory, and the value read back by \<open>ntohll\<close>.\<close>

definition be_bytes :: "u64 \<Rightarrow> u8 list" where
  "be_bytes val = map (\<lambda>i. ucast (drop_bit (56 - 8 * i) val)) [0..<8]"

definition be_value :: "u8 list \<Rightarrow> u64" where
  "be_value bs = fold (\<lambda>b v. push_bit 8 v OR ucast b) bs 0"

text \<open>\<open>memcpy\<close> to and from an offset of the buffer.\<close>

definition buf_write :: "u8 list \<Rightarrow> int \<Rightarrow> u8 list \<Rightarrow> u8 list option" where
  "buf_write buf off bs =
     (if 0 \<le> off \<and> nat off + length bs \<le> length buf
      then Some (take (nat off) buf @ bs @ drop (nat off + length bs) buf) else None)"

definition buf_read :: "u8 list \<Rightarrow> int \<Rightarrow> nat \<Rightarrow> u8 list option" where
  "buf_read buf off n =
     (if 0 \<le> off \<and> nat off + n \<le> length buf then Some (take n (drop (nat off) buf)) else None)"

definition set_field64 :: "u8 list \<Rightarrow> int \<Rightarrow> ib_field \<Rightarrow> u64 \<Rightarrow> u8 list option" where
  "set_field64 buf base_offs f val = buf_write buf (base_offs + bitoffs f div 8) (be_bytes val)"

definition get_field64 :: "u8 list \<Rightarrow> int \<Rightarrow> ib_field \<Rightarrow> u64 option" where
  "get_field64 buf base_offs f =
     map_option be_value (buf_read buf (base_offs + bitoffs f div 8) 8)"

definition array_offs :: "ib_field \<Rightarrow> int" where
  "array_offs f =
     (if bitlen f < 32 then BE_TO_BITSOFFS (bitoffs f) (bitlen f) else bitoffs f) div 8"

text \<open>\<open>val\<close> is the memory the pointer points to; \<open>bitlen / 8\<close> bytes of it are read or written.\<close>

definition set_array :: "u8 list \<Rightarrow> int \<Rightarrow> ib_field \<Rightarrow> u8 list \<Rightarrow> u8 list option" where
  "set_array buf base_offs f val = do {
     bs \<leftarrow> buf_read val 0 (nat (bitlen f div 8));
     buf_write buf (base_offs + array_offs f) bs
   }"

definition get_array :: "u8 list \<Rightarrow> int \<Rightarrow> ib_field \<Rightarrow> u8 list \<Rightarrow> u8 list option" where
  "get_array buf base_offs f val = do {
     bs \<leftarrow> buf_read buf (base_offs + array_offs f) (nat (bitlen f div 8));
     buf_write val 0 bs
   }"

section \<open>The interface\<close>

definition mad_get_field :: "u8 list \<Rightarrow> int \<Rightarrow> nat \<Rightarrow> u32 option" where
  "mad_get_field buf base_offs field = do { f \<leftarrow> arr_get ib_mad_f field; get_field buf base_offs f }"

definition mad_set_field :: "u8 list \<Rightarrow> int \<Rightarrow> nat \<Rightarrow> u32 \<Rightarrow> u8 list option" where
  "mad_set_field buf base_offs field val =
     do { f \<leftarrow> arr_get ib_mad_f field; set_field buf base_offs f val }"

definition mad_get_field64 :: "u8 list \<Rightarrow> int \<Rightarrow> nat \<Rightarrow> u64 option" where
  "mad_get_field64 buf base_offs field =
     do { f \<leftarrow> arr_get ib_mad_f field; get_field64 buf base_offs f }"

definition mad_set_field64 :: "u8 list \<Rightarrow> int \<Rightarrow> nat \<Rightarrow> u64 \<Rightarrow> u8 list option" where
  "mad_set_field64 buf base_offs field val =
     do { f \<leftarrow> arr_get ib_mad_f field; set_field64 buf base_offs f val }"

definition mad_set_array :: "u8 list \<Rightarrow> int \<Rightarrow> nat \<Rightarrow> u8 list \<Rightarrow> u8 list option" where
  "mad_set_array buf base_offs field val =
     do { f \<leftarrow> arr_get ib_mad_f field; set_array buf base_offs f val }"

definition mad_get_array :: "u8 list \<Rightarrow> int \<Rightarrow> nat \<Rightarrow> u8 list \<Rightarrow> u8 list option" where
  "mad_get_array buf base_offs field val =
     do { f \<leftarrow> arr_get ib_mad_f field; get_array buf base_offs f val }"

text \<open>
  A value in the caller's memory, little-endian: \<open>*(uint32_t *) val\<close> and \<open>*(uint64_t *) val\<close>
  (\<open>*(int *) val\<close> moves the same four bytes).
\<close>

definition le_bytes :: "nat \<Rightarrow> 'a::len word \<Rightarrow> u8 list" where
  "le_bytes n v = map (\<lambda>i. ucast (drop_bit (8 * i) v)) [0..<n]"

definition le_value :: "u8 list \<Rightarrow> 'a::len word" where
  "le_value bs = foldr (\<lambda>b v. push_bit 8 v OR ucast b) bs 0"

definition mad_decode_field :: "u8 list \<Rightarrow> nat \<Rightarrow> u8 list \<Rightarrow> u8 list option" where
  "mad_decode_field buf field val = do {
     f \<leftarrow> arr_get ib_mad_f field;
     if field = 0 then do { bs \<leftarrow> buf_read buf 0 4; buf_write val 0 bs }
     else if bitlen f \<le> 32 then do { v \<leftarrow> get_field buf 0 f; buf_write val 0 (le_bytes 4 v) }
     else if bitlen f = 64 then do { v \<leftarrow> get_field64 buf 0 f; buf_write val 0 (le_bytes 8 v) }
     else get_array buf 0 f val
   }"

definition mad_encode_field :: "u8 list \<Rightarrow> nat \<Rightarrow> u8 list \<Rightarrow> u8 list option" where
  "mad_encode_field buf field val = do {
     f \<leftarrow> arr_get ib_mad_f field;
     if field = 0 then do { bs \<leftarrow> buf_read val 0 4; buf_write buf 0 bs }
     else if bitlen f \<le> 32 then do { bs \<leftarrow> buf_read val 0 4; set_field buf 0 f (le_value bs) }
     else if bitlen f = 64 then do { bs \<leftarrow> buf_read val 0 8; set_field64 buf 0 f (le_value bs) }
     else set_array buf 0 f val
   }"

definition mad_field_name :: "nat \<Rightarrow> string option" where
  "mad_field_name field = map_option name (arr_get ib_mad_f field)"

section \<open>A buffer as a sequence of bits\<close>

definition fbit :: "u8 list \<Rightarrow> nat \<Rightarrow> bool" where
  "fbit buf k = bit (buf ! (3 XOR (k div 8))) (k mod 8)"

definition writes :: "nat \<Rightarrow> nat \<Rightarrow> u32 \<Rightarrow> u8 list \<Rightarrow> u8 list \<Rightarrow> bool" where
  "writes lo hi v buf buf' \<longleftrightarrow> length buf' = length buf \<and>
     (\<forall>k < 8 * length buf. fbit buf' k = (if lo \<le> k \<and> k < hi then bit v (k - lo) else fbit buf k))"

lemma xor3_lt:
  fixes i n :: nat
  assumes "4 dvd n" "i < n"
  shows "3 XOR i < n"
proof -
  obtain m where m: "n = 4 * m" using assms(1) by blast
  have "drop_bit 2 (3 XOR i) = drop_bit 2 i" by (simp only: drop_bit_xor) simp
  then have "(3 XOR i) div 4 = i div 4" by (simp add: drop_bit_eq_div)
  moreover have "i div 4 < m" using assms(2) m by (simp add: div_less_iff_less_mult mult.commute)
  ultimately have "(3 XOR i) div 4 < m" by simp
  then show ?thesis unfolding m by (simp add: div_less_iff_less_mult mult.commute)
qed

lemma xor3_inj: "(3::nat) XOR i = 3 XOR j \<longleftrightarrow> i = j"
proof
  assume "3 XOR i = 3 XOR j"
  then have "3 XOR (3 XOR i) = 3 XOR (3 XOR j)" by simp
  then show "i = j" by (simp add: xor.assoc [symmetric])
qed simp

lemma writes_empty: "writes lo lo v buf buf"
  by (auto simp: writes_def)

lemma writes_append:
  assumes "writes lo mid v buf buf1" "writes mid hi (drop_bit (mid - lo) v) buf1 buf2"
    "lo \<le> mid" "mid \<le> hi"
  shows "writes lo hi v buf buf2"
  using assms by (auto simp: writes_def bit_drop_bit_eq)

lemma byte_write:
  assumes buf: "4 dvd length buf" "i < length buf"
    and ab: "a \<le> b" "b \<le> 8"
    and g: "\<And>x j. j < 8 \<Longrightarrow> bit (g x) j = (if a \<le> j \<and> j < b then bit v (j - a) else bit x j)"
    and lo: "lo = 8 * i + a" and hi: "hi = 8 * i + b"
  shows "\<exists>buf'. arr_upd buf (3 XOR i) g = Some buf' \<and> writes lo hi v buf buf'"
proof -
  have lt: "3 XOR i < length buf" by (rule xor3_lt [OF buf])
  define buf' where "buf' = buf[3 XOR i := g (buf ! (3 XOR i))]"
  have "fbit buf' k = (if lo \<le> k \<and> k < hi then bit v (k - lo) else fbit buf k)"
    if "k < 8 * length buf" for k
  proof (cases "k div 8 = i")
    case True
    define j where "j = k mod 8"
    have k: "k = 8 * i + j" using True mult_div_mod_eq [of 8 k] by (simp add: j_def)
    have j: "j < 8" by (simp add: j_def)
    have "fbit buf' k = bit (g (buf ! (3 XOR i))) j"
      using lt True by (simp add: fbit_def buf'_def j_def)
    then show ?thesis using j True by (simp add: g lo hi k fbit_def)
  next
    case False
    then have "3 XOR k div 8 \<noteq> 3 XOR i" by (simp add: xor3_inj)
    moreover have "\<not> (lo \<le> k \<and> k < hi)" using False ab(2) unfolding lo hi by linarith
    ultimately show ?thesis by (auto simp: fbit_def buf'_def)
  qed
  then have "writes lo hi v buf buf'" by (simp add: writes_def buf'_def)
  then show ?thesis using lt by (auto simp: arr_upd_def buf'_def)
qed

lemma bit_ones: "bit (push_bit n 1 - 1 :: 'a::len word) j \<longleftrightarrow> j < n \<and> j < LENGTH('a)"
proof -
  have "push_bit n 1 - 1 = (mask n :: 'a word)" by (simp add: mask_eq_exp_minus_1 push_bit_of_1)
  then show ?thesis by (simp add: bit_mask_iff) blast
qed

lemma set_bytes_writes:
  assumes "4 dvd length p" "idx + n \<le> length p"
  shows "\<exists>p'. set_bytes n p idx val = Some (p', idx + n, drop_bit (8 * n) val)
    \<and> writes (8 * idx) (8 * (idx + n)) val p p'"
  using assms
proof (induction n arbitrary: p idx val)
  case 0
  then show ?case by (simp add: writes_empty)
next
  case (Suc n)
  obtain p1 where p1: "arr_set p (3 XOR idx) (ucast (val AND 0xff)) = Some p1"
    "writes (8 * idx) (8 * idx + 8) val p p1"
  proof (rule exE [OF byte_write [where i = idx and a = 0 and b = 8 and v = val and
            g = "\<lambda>_. ucast (val AND 0xff)", OF Suc.prems(1) _ _ _ _ refl refl]])
    show "bit (ucast (val AND 0xff) :: u8) j = (if 0 \<le> j \<and> j < 8 then bit val (j - 0) else bit x j)"
      if "j < 8" for x :: u8 and j
      using that by (simp only: bit_unsigned_iff bit_and_iff bit_ff) simp
  qed (use Suc.prems that in auto)
  have len: "length p1 = length p" using p1(2) by (simp add: writes_def)
  obtain p2 where p2: "set_bytes n p1 (idx + 1) (drop_bit 8 val) =
      Some (p2, idx + 1 + n, drop_bit (8 * n) (drop_bit 8 val))"
    "writes (8 * (idx + 1)) (8 * (idx + 1 + n)) (drop_bit 8 val) p1 p2"
    using Suc.IH [of p1 "idx + 1" "drop_bit 8 val"] Suc.prems len by auto
  have "writes (8 * idx) (8 * (idx + Suc n)) val p p2"
    by (rule writes_append [OF p1(2)]) (use p2(2) in \<open>simp_all add: algebra_simps\<close>)
  then show ?case using p1(1) p2(1) by (simp add: drop_bit_drop_bit add.commute)
qed

section \<open>The pieces of a field in natural numbers\<close>

text \<open>
  A field the code handles: it lies within one byte, or its pieces add up to its length
  (they do not for, say, ten bits from bit 3 of a byte).
\<close>

definition field_ok :: "ib_field \<Rightarrow> bool" where
  "field_ok f \<longleftrightarrow> 0 \<le> bitoffs f \<and> 0 < bitlen f \<and> bitlen f \<le> 32 \<and>
     (in_one_byte f \<or> int (prebits f + 8 * bytelen f + postbits f) = bitlen f)"

definition fits :: "u8 list \<Rightarrow> int \<Rightarrow> ib_field \<Rightarrow> bool" where
  "fits buf base_offs f \<longleftrightarrow> 4 dvd length buf \<and> 0 \<le> base_offs \<and>
     8 * base_offs + bitoffs f + bitlen f \<le> 8 * int (length buf)"

text \<open>The first bit of a field in the buffer.\<close>

definition field_lo :: "int \<Rightarrow> ib_field \<Rightarrow> nat" where
  "field_lo base_offs f = nat (8 * base_offs + bitoffs f)"

lemma and7: "int n AND 7 = int (n mod 8)"
proof -
  have "int n AND 7 = take_bit 3 (int n)" by (simp add: take_bit_eq_mask mask_eq_exp_minus_1)
  also have "\<dots> = int (n mod 8)" by (simp add: take_bit_eq_mod zmod_int)
  finally show ?thesis .
qed

text \<open>
  The quantities of the code for a field whose first bit is bit \<open>r\<close> of byte \<open>q\<close> of the buffer,
  and that has \<open>len\<close> bits.
\<close>

definition field_at :: "int \<Rightarrow> ib_field \<Rightarrow> nat \<Rightarrow> nat \<Rightarrow> nat \<Rightarrow> bool" where
  "field_at base f q r len \<longleftrightarrow> r < 8 \<and> field_lo base f = 8 * q + r \<and> field_idx base f = q \<and>
     nat (bitoffs f AND 7) = r \<and> nat (bitlen f) = len \<and> prebits f = (8 - r) mod 8 \<and>
     bytelen f = len div 8 \<and> postbits f = (r + len) mod 8 \<and> (in_one_byte f \<longleftrightarrow> r + len < 8) \<and>
     nat (base + (bitoffs f + bitlen f) div 8) = q + (r + len) div 8"

lemma field_at_ex:
  assumes "0 \<le> bitoffs f" "0 \<le> bitlen f" "0 \<le> base"
  shows "\<exists>q r len. field_at base f q r len"
proof -
  define off where "off = nat (bitoffs f)"
  define len where "len = nat (bitlen f)"
  define b where "b = nat base"
  have f: "bitoffs f = int off" "bitlen f = int len" "base = int b"
    using assms by (simp_all add: off_def len_def b_def)
  define d where "d = off div 8"
  define r where "r = off mod 8"
  have off: "off = 8 * d + r" and r: "r < 8" by (simp_all add: d_def r_def)
  have "(8 - int r) = int (8 - r)" using r by simp
  then have pre: "prebits f = (8 - r) mod 8"
    by (simp only: prebits_def f and7 nat_int r_def [symmetric])
  have "(off + len) mod 8 = (r + len) mod 8" unfolding off by (simp add: add.assoc)
  then have post: "postbits f = (r + len) mod 8"
    by (simp only: postbits_def f and7 nat_int flip: of_nat_add)
  have bytes: "bytelen f = len div 8" by (simp add: bytelen_def f nat_div_distrib)
  have idx: "field_idx base f = b + d"
    by (simp add: field_idx_def f nat_add_distrib nat_div_distrib d_def)
  have r7: "bitoffs f AND 7 = int r" by (simp only: f and7 r_def)
  have one: "in_one_byte f \<longleftrightarrow> r + len < 8"
    by (simp only: in_one_byte_def bytes r7 f(2)) auto
  have e: "(off + len) div 8 = d + (r + len) div 8" unfolding off by (simp add: add.assoc)
  have "base + (bitoffs f + bitlen f) div 8 = int (b + (off + len) div 8)"
    by (simp only: f of_nat_add of_nat_div of_nat_numeral)
  then have last: "nat (base + (bitoffs f + bitlen f) div 8) = b + d + (r + len) div 8"
    by (simp only: nat_int e add.assoc)
  have lo: "field_lo base f = 8 * (b + d) + r"
    by (simp add: field_lo_def f off nat_add_distrib nat_mult_distrib)
  have "field_at base f (b + d) r len"
    unfolding field_at_def
    by (intro conjI r lo idx pre bytes post one last) (simp_all only: r7 f(2) nat_int)
  then show ?thesis by blast
qed

text \<open>A field that spans bytes ends in byte \<open>q' + len div 8\<close> when \<open>q'\<close> is its first whole byte.\<close>

lemma field_span:
  fixes r len :: nat
  assumes "r < 8" "\<not> r + len < 8" "(8 - r) mod 8 + 8 * (len div 8) + (r + len) mod 8 = len"
  defines "q' \<equiv> (if r = 0 then 0 else 1)"
  shows "r + (8 - r) mod 8 = 8 * q'"
    "r + len = 8 * (q' + len div 8) + (r + len) mod 8" "(r + len) div 8 = q' + len div 8"
proof -
  show a: "r + (8 - r) mod 8 = 8 * q'" using assms(1) by (simp add: q'_def)
  show b: "r + len = 8 * (q' + len div 8) + (r + len) mod 8"
    using a assms(3) by (simp add: algebra_simps)
  have "(r + len) div 8 = (8 * (q' + len div 8) + (r + len) mod 8) div 8"
    using b by simp
  also have "\<dots> = q' + len div 8" by simp
  finally show "(r + len) div 8 = q' + len div 8" .
qed

lemma fits_bytes:
  assumes "fits buf base f" "field_ok f" "field_at base f q r len"
  shows "4 dvd length buf" "8 * q + r + len \<le> 8 * length buf" "0 < len"
proof -
  show "4 dvd length buf" using assms(1) by (simp add: fits_def)
  have lo: "field_lo base f = 8 * q + r" and len: "nat (bitlen f) = len"
    using assms(3) by (simp_all only: field_at_def)
  have ok: "0 \<le> bitoffs f" "0 < bitlen f" using assms(2) by (simp_all add: field_ok_def)
  have "int (field_lo base f) + bitlen f \<le> 8 * int (length buf)"
    using assms(1) ok by (simp add: fits_def field_lo_def)
  then show "8 * q + r + len \<le> 8 * length buf" using ok(2) unfolding lo len [symmetric] by linarith
  show "0 < len" using ok(2) len by simp
qed

section \<open>Writing and reading the bits of a field\<close>

lemmas bit_word = bit_or_iff bit_and_iff bit_not_iff bit_push_bit_iff bit_drop_bit_eq
  comp_apply bit_unsigned_iff bit_ones

lemma set_one_byte:
  assumes "4 dvd length buf" "q < length buf" "r + len < 8"
  shows "\<exists>buf'. arr_upd buf (3 XOR q)
      (\<lambda>b. (b AND NOT (push_bit r (push_bit len 1 - 1)))
           OR ucast (push_bit r (val AND (push_bit len 1 - 1) :: u32))) = Some buf'
    \<and> writes (8 * q + r) (8 * q + r + len) val buf buf'"
proof (rule byte_write [where a = r and b = "r + len", OF assms(1,2)])
  show "bit ((x AND NOT (push_bit r (push_bit len 1 - 1)))
           OR ucast (push_bit r (val AND (push_bit len 1 - 1)))) j =
        (if r \<le> j \<and> j < r + len then bit val (j - r) else bit x j)" if "j < 8" for x :: u8 and j
    using that assms(3) by (simp only: bit_word) auto
qed (use assms in auto)

lemma set_pre:
  assumes "4 dvd length buf" "q < length buf" "0 < r" "r < 8"
  shows "\<exists>buf'. arr_upd buf (3 XOR q)
      (\<lambda>b. (b AND (push_bit (8 - (8 - r)) 1 - 1))
           OR ucast (push_bit (8 - (8 - r)) (val AND (push_bit (8 - r) 1 - 1) :: u32))) = Some buf'
    \<and> writes (8 * q + r) (8 * q + 8) val buf buf'"
proof (rule byte_write [where a = r and b = 8, OF assms(1,2)])
  show "bit ((x AND (push_bit (8 - (8 - r)) 1 - 1))
           OR ucast (push_bit (8 - (8 - r)) (val AND (push_bit (8 - r) 1 - 1)))) j =
        (if r \<le> j \<and> j < 8 then bit val (j - r) else bit x j)" if "j < 8" for x :: u8 and j
    using that assms(3,4) by (simp only: bit_word) auto
qed (use assms in auto)

lemma set_post:
  assumes "4 dvd length buf" "q < length buf" "p < 8" "\<And>j. bit val j \<Longrightarrow> j < p"
  shows "\<exists>buf'. arr_upd buf (3 XOR q)
      (\<lambda>b. (b AND NOT (push_bit p 1 - 1)) OR ucast (val :: u32)) = Some buf'
    \<and> writes (8 * q) (8 * q + p) val buf buf'"
proof (rule byte_write [where a = 0 and b = p, OF assms(1,2)])
  show "bit ((x AND NOT (push_bit p 1 - 1)) OR ucast val) j =
        (if 0 \<le> j \<and> j < p then bit val (j - 0) else bit x j)" if "j < 8" for x :: u8 and j
    using that assms(3) assms(4) [of j] by (simp only: bit_word) auto
qed (use assms in auto)

lemma field_atD:
  assumes "field_at base f q r len"
  shows "r < 8" "field_lo base f = 8 * q + r" "field_idx base f = q"
    "nat (bitoffs f AND 7) = r" "nat (bitlen f) = len" "prebits f = (8 - r) mod 8"
    "bytelen f = len div 8" "postbits f = (r + len) mod 8" "in_one_byte f \<longleftrightarrow> r + len < 8"
    "nat (base + (bitoffs f + bitlen f) div 8) = q + (r + len) div 8"
  using assms by (simp_all only: field_at_def)

lemma field_ok_span:
  assumes "field_at base f q r len" "field_ok f" "\<not> in_one_byte f"
  shows "\<not> r + len < 8" "(8 - r) mod 8 + 8 * (len div 8) + (r + len) mod 8 = len"
proof -
  show "\<not> r + len < 8" using field_atD(9) [OF assms(1)] assms(3) by simp
  have "int (prebits f + 8 * bytelen f + postbits f) = bitlen f" and "0 < bitlen f"
    using assms(2,3) by (simp_all only: field_ok_def simp_thms)
  then have "prebits f + 8 * bytelen f + postbits f = nat (bitlen f)" by linarith
  then show "(8 - r) mod 8 + 8 * (len div 8) + (r + len) mod 8 = len"
    by (simp only: field_atD [OF assms(1)])
qed

text \<open>The part of the buffer before the first whole byte.\<close>

lemma set_head:
  assumes "4 dvd length buf" "q < length buf" "r < 8"
  defines "pre \<equiv> (8 - r) mod 8" and "q' \<equiv> q + (if r = 0 then 0 else 1)"
  shows "\<exists>p. (if pre \<noteq> 0 then do {
           p \<leftarrow> arr_upd buf (3 XOR q)
                 (\<lambda>b. (b AND (push_bit (8 - pre) 1 - 1))
                      OR ucast (push_bit (8 - pre) (val AND (push_bit pre 1 - 1) :: u32)));
           Some (p, q + 1, drop_bit pre val)
         } else Some (buf, q, val)) = Some (p, q', drop_bit pre val)
      \<and> writes (8 * q + r) (8 * q') val buf p"
proof (cases "r = 0")
  case True
  then show ?thesis by (simp add: pre_def q'_def writes_empty)
next
  case False
  then have pre: "pre = 8 - r" "pre \<noteq> 0" using assms(3) by (simp_all add: pre_def)
  obtain p where "arr_upd buf (3 XOR q)
      (\<lambda>b. (b AND (push_bit (8 - (8 - r)) 1 - 1))
           OR ucast (push_bit (8 - (8 - r)) (val AND (push_bit (8 - r) 1 - 1) :: u32))) = Some p"
    "writes (8 * q + r) (8 * q + 8) val buf p"
    using set_pre [OF assms(1,2) _ assms(3), of val] False by blast
  then show ?thesis using False by (simp add: pre(2) q'_def) (simp add: pre(1) add.commute)
qed

lemma set_tail:
  assumes "4 dvd length p" "8 * q + t \<le> 8 * length p" "t < 8" "\<And>j. bit val j \<Longrightarrow> j < t"
  shows "\<exists>p'. (if t \<noteq> 0 then
         arr_upd p (3 XOR q) (\<lambda>b. (b AND NOT (push_bit t 1 - 1)) OR ucast (val :: u32))
       else Some p) = Some p' \<and> writes (8 * q) (8 * q + t) val p p'"
proof (cases "t = 0")
  case True
  then show ?thesis by (simp add: writes_empty)
next
  case False
  then have "q < length p" using assms(2) by linarith
  then show ?thesis using set_post [OF assms(1) _ assms(3,4), of q] False by simp
qed

lemma set_spanning:
  assumes buf: "4 dvd length buf" "8 * q + r + len \<le> 8 * length buf" "r < 8"
    and span: "\<not> r + len < 8" "(8 - r) mod 8 + 8 * (len div 8) + (r + len) mod 8 = len"
    and val: "\<And>j. bit val j \<Longrightarrow> j < len"
  defines "pre \<equiv> (8 - r) mod 8" and "t \<equiv> (r + len) mod 8"
  shows "\<exists>buf'. do {
       (p, idx, val) \<leftarrow> (if pre \<noteq> 0 then do {
           p \<leftarrow> arr_upd buf (3 XOR q)
                 (\<lambda>b. (b AND (push_bit (8 - pre) 1 - 1))
                      OR ucast (push_bit (8 - pre) (val AND (push_bit pre 1 - 1) :: u32)));
           Some (p, q + 1, drop_bit pre val)
         } else Some (buf, q, val));
       (p, idx, val) \<leftarrow> set_bytes (len div 8) p idx val;
       if t \<noteq> 0 then
         arr_upd p (3 XOR idx) (\<lambda>b. (b AND NOT (push_bit t 1 - 1)) OR ucast val)
       else Some p
     } = Some buf' \<and> writes (8 * q + r) (8 * q + r + len) val buf buf'"
proof -
  define n where "n = len div 8"
  define q' where "q' = q + (if r = 0 then 0 else 1)"
  have t: "t < 8" by (simp add: t_def)
  have qlt: "q < length buf" using buf(2) span(1) by linarith
  have mid: "8 * q + r + pre = 8 * q'" and total: "8 * q + r + len = 8 * (q' + n) + t"
    and len: "len = pre + 8 * n + t"
    using field_span [OF buf(3) span] span(2) unfolding pre_def t_def n_def q'_def
    by (simp_all only: add_mult_distrib2 add.assoc)
  obtain p1 where p1: "(if pre \<noteq> 0 then do {
           p \<leftarrow> arr_upd buf (3 XOR q)
                 (\<lambda>b. (b AND (push_bit (8 - pre) 1 - 1))
                      OR ucast (push_bit (8 - pre) (val AND (push_bit pre 1 - 1))));
           Some (p, q + 1, drop_bit pre val)
         } else Some (buf, q, val)) = Some (p1, q', drop_bit pre val)"
    and w1: "writes (8 * q + r) (8 * q') val buf p1"
    using set_head [OF buf(1) qlt buf(3), of val, folded pre_def q'_def] by blast
  have l1: "length p1 = length buf" using w1 by (simp add: writes_def)
  obtain p2 where p2: "set_bytes n p1 q' (drop_bit pre val)
      = Some (p2, q' + n, drop_bit (8 * n) (drop_bit pre val))"
    and w2: "writes (8 * q') (8 * (q' + n)) (drop_bit pre val) p1 p2"
    using set_bytes_writes [of p1 q' n "drop_bit pre val"] buf(1,2) total l1 by auto
  have l2: "length p2 = length buf" using w2 l1 by (simp add: writes_def)
  let ?v = "drop_bit (8 * n) (drop_bit pre val)"
  have small: "j < t" if "bit ?v j" for j
    using val [of "8 * n + pre + j"] that len by (simp add: bit_drop_bit_eq)
  obtain p3 where p3: "(if t \<noteq> 0 then
         arr_upd p2 (3 XOR (q' + n)) (\<lambda>b. (b AND NOT (push_bit t 1 - 1)) OR ucast ?v)
       else Some p2) = Some p3" and w3: "writes (8 * (q' + n)) (8 * (q' + n) + t) ?v p2 p3"
    using set_tail [of p2 "q' + n" t ?v, OF _ _ t small] buf(1,2) l2 total by auto
  have "writes (8 * q') (8 * (q' + n) + t) (drop_bit pre val) p1 p3"
    by (rule writes_append [OF w2]) (use w3 in simp_all)
  then have "writes (8 * q + r) (8 * (q' + n) + t) val buf p3"
    using writes_append [OF w1, of "8 * (q' + n) + t" p3] by (simp flip: mid)
  then have "writes (8 * q + r) (8 * q + r + len) val buf p3" by (simp only: total)
  then show ?thesis unfolding n_def [symmetric]
    by (intro exI [of _ p3] conjI) (simp_all only: p1 p2 p3 bind.bind_lunit prod.case)
qed

lemma set_field_writes:
  assumes ok: "field_ok f" and fit: "fits buf base f"
    and val: "\<And>j. bit val j \<Longrightarrow> j < nat (bitlen f)"
  shows "\<exists>buf'. set_field buf base f val = Some buf'
    \<and> writes (field_lo base f) (field_lo base f + nat (bitlen f)) val buf buf'"
proof -
  obtain q r len where at: "field_at base f q r len"
    using field_at_ex [of f base] ok fit by (auto simp: field_ok_def fits_def)
  note fl = field_atD [OF at]
  note bnd = fits_bytes [OF fit ok at]
  show ?thesis
  proof (cases "in_one_byte f")
    case True
    then show ?thesis using set_one_byte [of buf q r len val] bnd fl(9)
      unfolding set_field_def Let_def fl(2,3,4,5) by simp
  next
    case False
    have "\<And>j. bit val j \<Longrightarrow> j < len" using val by (simp only: fl(5))
    from set_spanning [OF bnd(1,2) fl(1) field_ok_span [OF at ok False] this] show ?thesis
      using False unfolding set_field_def Let_def fl(2,3,5,6,7,8) by (simp only: if_False simp_thms)
  qed
qed

lemma fbit_byte: "j < 8 \<Longrightarrow> fbit p (8 * i + j) = bit (p ! (3 XOR i)) j"
  by (simp add: fbit_def)

text \<open>\<open>v\<close> is the value of the bits from \<open>lo\<close> to \<open>hi\<close> of the buffer.\<close>

definition holds :: "u8 list \<Rightarrow> nat \<Rightarrow> nat \<Rightarrow> u32 \<Rightarrow> bool" where
  "holds p lo hi v \<longleftrightarrow> (\<forall>j < 32. bit v j \<longleftrightarrow> lo + j < hi \<and> fbit p (lo + j))"

lemma holds_unique: "holds p lo hi v \<Longrightarrow> holds p lo hi w \<Longrightarrow> v = w"
  by (rule bit_word_eqI) (simp add: holds_def)

lemma holds_byte:
  assumes "a + n \<le> 8" "lo = 8 * i + a"
  shows "holds p lo (lo + n) (drop_bit a (ucast (p ! (3 XOR i))) AND (push_bit n 1 - 1))"
  unfolding holds_def
proof (intro allI impI)
  fix j assume "j < (32::nat)"
  show "bit (drop_bit a (ucast (p ! (3 XOR i))) AND (push_bit n 1 - 1) :: u32) j
     \<longleftrightarrow> lo + j < lo + n \<and> fbit p (lo + j)"
  proof (cases "j < n")
    case True
    then have "fbit p (lo + j) = bit (p ! (3 XOR i)) (a + j)"
      using fbit_byte [of "a + j" p i] assms by (simp add: add.assoc)
    then show ?thesis using True assms \<open>j < 32\<close> by (simp only: bit_word) auto
  next
    case False
    then show ?thesis by (simp only: bit_word) simp
  qed
qed

lemma holds_append:
  assumes "holds p lo mid v" "holds p mid hi w" "lo \<le> mid" "mid \<le> hi" "hi \<le> lo + 32"
  shows "holds p lo hi (push_bit (mid - lo) w OR v)"
  unfolding holds_def
proof (intro allI impI)
  fix j assume j: "j < (32::nat)"
  have "bit v j \<longleftrightarrow> lo + j < mid \<and> fbit p (lo + j)" using assms(1) j by (simp add: holds_def)
  moreover have "bit w (j - (mid - lo)) \<longleftrightarrow>
      mid + (j - (mid - lo)) < hi \<and> fbit p (mid + (j - (mid - lo)))"
    using assms(2) j by (simp add: holds_def)
  moreover have "mid + (j - (mid - lo)) = lo + j" if "mid - lo \<le> j" using that assms(3) by simp
  ultimately show "bit (push_bit (mid - lo) w OR v) j \<longleftrightarrow> lo + j < hi \<and> fbit p (lo + j)"
    using j assms(3,4) by (simp only: bit_or_iff bit_push_bit_iff) (auto simp: add.commute)
qed

lemma get_bytes_holds:
  assumes "4 dvd length p" "idx + n \<le> length p" "holds p (8 * (idx + n)) hi val"
    "8 * (idx + n) \<le> hi" "hi \<le> 8 * idx + 32"
  shows "\<exists>v. get_bytes n p idx val = Some v \<and> holds p (8 * idx) hi v"
  using assms(2-5)
proof (induction n arbitrary: val)
  case 0
  then show ?case by simp
next
  case (Suc n)
  have lt: "3 XOR (idx + n) < length p" by (rule xor3_lt) (use assms(1) Suc.prems in auto)
  let ?b = "p ! (3 XOR (idx + n))"
  have "holds p (8 * (idx + n)) (8 * (idx + n) + 8) (drop_bit 0 (ucast ?b) AND (push_bit 8 1 - 1))"
    by (rule holds_byte) simp_all
  moreover have "drop_bit 0 (ucast ?b) AND (push_bit 8 1 - 1) = (ucast ?b :: u32)"
    by (rule bit_word_eqI) (simp only: bit_word, auto dest: bit_imp_le_length)
  ultimately have byte: "holds p (8 * (idx + n)) (8 * (idx + n) + 8) (ucast ?b)" by simp
  have "holds p (8 * (idx + n)) hi (push_bit 8 val OR ucast ?b)"
    using holds_append [OF byte, of hi val] Suc.prems by (simp add: algebra_simps)
  then obtain v where "get_bytes n p idx (push_bit 8 val OR ucast ?b) = Some v"
    "holds p (8 * idx) hi v"
    using Suc.IH Suc.prems by fastforce
  then show ?case using lt by (simp add: c_access)
qed

lemma get_head:
  assumes "4 dvd length p" "q < length p" "r < 8"
  defines "pre \<equiv> (8 - r) mod 8" and "q' \<equiv> q + (if r = 0 then 0 else 1)"
  shows "\<exists>v. (if pre \<noteq> 0 then do {
           b \<leftarrow> arr_get p (3 XOR q);
           Some (drop_bit (8 - pre) (ucast b), q + 1)
         } else Some (0, q)) = Some (v :: u32, q') \<and> holds p (8 * q + r) (8 * q') v"
proof (cases "r = 0")
  case True
  then show ?thesis by (simp add: pre_def q'_def holds_def)
next
  case False
  then have pre: "8 - pre = r" "pre \<noteq> 0" using assms(3) by (simp_all add: pre_def)
  let ?b = "p ! (3 XOR q)"
  have "holds p (8 * q + r) (8 * q + r + (8 - r)) (drop_bit r (ucast ?b) AND (push_bit (8 - r) 1 - 1))"
    by (rule holds_byte) (use assms(3) in simp_all)
  moreover have "drop_bit r (ucast ?b) AND (push_bit (8 - r) 1 - 1) = (drop_bit r (ucast ?b) :: u32)"
    by (rule bit_word_eqI) (simp only: bit_word, auto dest: bit_imp_le_length)
  ultimately have "holds p (8 * q + r) (8 * q') (drop_bit r (ucast ?b))"
    using False assms(3) by (simp add: q'_def add.commute [of 8])
  moreover have "arr_get p (3 XOR q) = Some ?b" by (rule arr_get_Some) (rule xor3_lt [OF assms(1,2)])
  ultimately show ?thesis using False pre by (simp add: q'_def)
qed

lemma get_tail:
  assumes "4 dvd length p" "8 * q + t \<le> 8 * length p" "t < 8"
  shows "\<exists>v. (if t \<noteq> 0 then do {
           b \<leftarrow> arr_get p (3 XOR q);
           Some (ucast b AND (push_bit t 1 - 1))
         } else Some 0) = Some (v :: u32) \<and> holds p (8 * q) (8 * q + t) v"
proof (cases "t = 0")
  case True
  then show ?thesis by (simp add: holds_def)
next
  case False
  then have "q < length p" using assms(2) by linarith
  then have "arr_get p (3 XOR q) = Some (p ! (3 XOR q))"
    using assms(1) by (intro arr_get_Some xor3_lt)
  moreover have "holds p (8 * q) (8 * q + t) (drop_bit 0 (ucast (p ! (3 XOR q))) AND (push_bit t 1 - 1))"
    by (rule holds_byte) (use assms(3) in simp_all)
  ultimately show ?thesis using False by simp
qed

lemma get_spanning:
  assumes buf: "4 dvd length p" "8 * q + r + len \<le> 8 * length p" "r < 8" "len \<le> 32"
    and span: "\<not> r + len < 8" "(8 - r) mod 8 + 8 * (len div 8) + (r + len) mod 8 = len"
  defines "pre \<equiv> (8 - r) mod 8" and "t \<equiv> (r + len) mod 8"
  shows "\<exists>v. do {
       (v, idx) \<leftarrow> (if pre \<noteq> 0 then do {
           b \<leftarrow> arr_get p (3 XOR q);
           Some (drop_bit (8 - pre) (ucast b), q + 1)
         } else Some (0, q));
       val \<leftarrow> (if t \<noteq> 0 then do {
           b \<leftarrow> arr_get p (3 XOR (q + (r + len) div 8));
           Some (ucast b AND (push_bit t 1 - 1))
         } else Some 0);
       val \<leftarrow> get_bytes (len div 8) p idx val;
       Some (push_bit pre val OR v)
     } = Some v \<and> holds p (8 * q + r) (8 * q + r + len) v"
proof -
  define n where "n = len div 8"
  define q' where "q' = q + (if r = 0 then 0 else 1)"
  have qlt: "q < length p" using buf(2) span(1) by linarith
  have mid: "8 * q + r + pre = 8 * q'" and total: "8 * q + r + len = 8 * (q' + n) + t"
    and last: "q + (r + len) div 8 = q' + n" and len: "len = pre + 8 * n + t"
    using field_span [OF buf(3) span] span(2) unfolding pre_def t_def n_def q'_def
    by (simp_all only: add_mult_distrib2 add.assoc)
  obtain v1 where v1: "(if pre \<noteq> 0 then do {
           b \<leftarrow> arr_get p (3 XOR q);
           Some (drop_bit (8 - pre) (ucast b), q + 1)
         } else Some (0, q)) = Some (v1, q')" and h1: "holds p (8 * q + r) (8 * q') v1"
    using get_head [OF buf(1) qlt buf(3), folded pre_def q'_def] by blast
  obtain v2 where v2: "(if t \<noteq> 0 then do {
           b \<leftarrow> arr_get p (3 XOR (q' + n));
           Some (ucast b AND (push_bit t 1 - 1))
         } else Some 0) = Some v2" and h2: "holds p (8 * (q' + n)) (8 * (q' + n) + t) v2"
    using get_tail [of p "q' + n" t] buf(1,2) total by (auto simp: t_def)
  obtain v3 where v3: "get_bytes n p q' v2 = Some v3" and h3: "holds p (8 * q') (8 * (q' + n) + t) v3"
    using get_bytes_holds [OF buf(1) _ h2] buf(2,4) total len by auto
  have "holds p (8 * q + r) (8 * (q' + n) + t) (push_bit (8 * q' - (8 * q + r)) v3 OR v1)"
  proof (rule holds_append [OF h1 h3])
    show "8 * q + r \<le> 8 * q'" using mid by linarith
    show "8 * (q' + n) + t \<le> 8 * q + r + 32" using total buf(4) by linarith
  qed simp
  moreover have "8 * q' - (8 * q + r) = pre" using mid by linarith
  ultimately have "holds p (8 * q + r) (8 * q + r + len) (push_bit pre v3 OR v1)"
    by (simp only: total)
  then show ?thesis unfolding n_def [symmetric] last
    by (intro exI [of _ "push_bit pre v3 OR v1"] conjI)
      (simp_all only: v1 v2 v3 bind.bind_lunit prod.case)
qed

lemma get_field_holds:
  assumes ok: "field_ok f" and fit: "fits buf base f"
  shows "\<exists>v. get_field buf base f = Some v
    \<and> holds buf (field_lo base f) (field_lo base f + nat (bitlen f)) v"
proof -
  obtain q r len where at: "field_at base f q r len"
    using field_at_ex [of f base] ok fit by (auto simp: field_ok_def fits_def)
  note fl = field_atD [OF at]
  note bnd = fits_bytes [OF fit ok at]
  show ?thesis
  proof (cases "in_one_byte f")
    case True
    then have r: "r + len < 8" using fl(9) by simp
    have "arr_get buf (3 XOR q) = Some (buf ! (3 XOR q))"
      using bnd by (intro arr_get_Some xor3_lt) linarith+
    moreover have "holds buf (8 * q + r) (8 * q + r + len)
        (drop_bit r (ucast (buf ! (3 XOR q))) AND (push_bit len 1 - 1))"
      by (rule holds_byte) (use r in simp_all)
    ultimately show ?thesis using True unfolding get_field_def Let_def fl(2,3,4,5) by simp
  next
    case False
    have "bitlen f \<le> 32" using ok by (simp add: field_ok_def)
    then have "len \<le> 32" using fl(5) by linarith
    from get_spanning [OF bnd(1,2) fl(1) this field_ok_span [OF at ok False]] show ?thesis
      using False unfolding get_field_def Let_def fl(2,3,5,6,7,8,10) by (simp only: if_False simp_thms)
  qed
qed

end
