(* ===== verification/Mad_Codec.thy ===== *)
theory Mad_Codec
  imports Mad_Fields
begin

text \<open>
  The correctness of the field access of \<open>libibmad/fields.c\<close> over its whole table: the
  enumeration and the table agree, every descriptor is one the code handles, a field that is
  set reads back and leaves the fields beside it alone, and decoding inverts encoding.
\<close>

section \<open>The table and the enumeration\<close>

definition entry_ok :: "ib_field \<Rightarrow> bool" where
  "entry_ok f \<longleftrightarrow> length (name f) < IB_FIELD_NAME_LEN \<and> (bitlen f = 0 \<or> field_ok f \<or>
     (32 < bitlen f \<and> 0 \<le> bitoffs f \<and> bitoffs f mod 8 = 0 \<and> bitlen f mod 8 = 0))"

text \<open>The enumerators that stand for no field.\<close>

definition no_field_enum :: "string \<Rightarrow> bool" where
  "no_field_enum n \<longleftrightarrow> take 7 (rev n) = rev ''_LAST_F'' \<or>
     n \<in> set [''IB_NO_FIELD'', ''IB_SM_DATA_F'', ''IB_FIELD_LAST_'']"

text \<open>
  Enumerators and table entries side by side. An enumerator with a defining enumerator must
  name the one before it.
\<close>

fun in_step :: "(string \<times> ib_field) option \<Rightarrow> enumerator list \<Rightarrow> ib_field list \<Rightarrow> bool" where
  "in_step prev [] fs \<longleftrightarrow> fs = []"
| "in_step prev ((n, None) # es) [] \<longleftrightarrow> False"
| "in_step prev ((n, None) # es) (f # fs) \<longleftrightarrow>
     (no_field_enum n \<longleftrightarrow> bitlen f = 0) \<and> in_step (Some (n, f)) es fs"
| "in_step None ((n, Some a) # es) fs \<longleftrightarrow> False"
| "in_step (Some (m, f)) ((n, Some a) # es) fs \<longleftrightarrow>
     m = a \<and> (no_field_enum n \<longleftrightarrow> bitlen f = 0) \<and> in_step (Some (n, f)) es fs"

lemma in_step_start: "in_step None es fs \<Longrightarrow> in_step prev es fs"
  by (cases "(None :: (string \<times> ib_field) option, es, fs)" rule: in_step.cases) auto

lemma in_step_append:
  "in_step prev es fs \<Longrightarrow> in_step None es' fs' \<Longrightarrow> in_step prev (es @ es') (fs @ fs')"
  by (induction prev es fs rule: in_step.induct) (auto simp: in_step_start)

text \<open>Enumerators in step have the index of their entry as their value.\<close>

lemma in_step_values:
  assumes "in_step prev es fs" "case prev of None \<Rightarrow> True | Some (m, f) \<Rightarrow>
    \<exists>rest. acc = (m, length pre - 1) # rest \<and> pre \<noteq> [] \<and> last pre = f"
  shows "\<exists>vals. enum_values acc (length pre) es = Some (rev acc @ vals) \<and>
    map fst vals = map fst es \<and> (vals \<noteq> [] \<longrightarrow> snd (last vals) = length (pre @ fs) - 1) \<and>
    (\<forall>(n, v) \<in> set vals. v < length (pre @ fs) \<and> (no_field_enum n \<longleftrightarrow> bitlen ((pre @ fs) ! v) = 0))"
  using assms
proof (induction prev es fs arbitrary: acc pre rule: in_step.induct)
  case (3 prev n es f fs)
  have "\<exists>vals. enum_values ((n, length pre) # acc) (length (pre @ [f])) es =
      Some (rev ((n, length pre) # acc) @ vals) \<and> map fst vals = map fst es \<and>
      (vals \<noteq> [] \<longrightarrow> snd (last vals) = length ((pre @ [f]) @ fs) - 1) \<and>
      (\<forall>(n, v) \<in> set vals. v < length ((pre @ [f]) @ fs) \<and>
        (no_field_enum n \<longleftrightarrow> bitlen (((pre @ [f]) @ fs) ! v) = 0))"
    by (rule "3.IH") (use "3.prems" in auto)
  then obtain vals where vals: "enum_values ((n, length pre) # acc) (Suc (length pre)) es =
      Some (rev acc @ (n, length pre) # vals)" "map fst vals = map fst es"
      "vals \<noteq> [] \<longrightarrow> snd (last vals) = length (pre @ f # fs) - 1"
      "\<forall>(n, v) \<in> set vals. v < length (pre @ f # fs) \<and>
        (no_field_enum n \<longleftrightarrow> bitlen ((pre @ f # fs) ! v) = 0)"
    by auto
  moreover have "vals = [] \<Longrightarrow> fs = []" using "3.prems"(1) vals(2) by auto
  ultimately show ?case using "3.prems"(1)
    by (intro exI [of _ "(n, length pre) # vals"]) (auto simp: nth_append)
next
  case (5 m f n a es fs)
  then obtain rest where acc: "acc = (m, length pre - 1) # rest" "pre \<noteq> []" "last pre = f" by auto
  have "\<exists>vals. enum_values ((n, length pre - 1) # acc) (length pre) es =
      Some (rev ((n, length pre - 1) # acc) @ vals) \<and> map fst vals = map fst es \<and>
      (vals \<noteq> [] \<longrightarrow> snd (last vals) = length (pre @ fs) - 1) \<and>
      (\<forall>(n, v) \<in> set vals. v < length (pre @ fs) \<and>
        (no_field_enum n \<longleftrightarrow> bitlen ((pre @ fs) ! v) = 0))"
    by (rule "5.IH") (use "5.prems" acc in auto)
  then obtain vals where vals: "enum_values ((n, length pre - 1) # acc) (length pre) es =
      Some (rev acc @ (n, length pre - 1) # vals)" "map fst vals = map fst es"
      "vals \<noteq> [] \<longrightarrow> snd (last vals) = length (pre @ fs) - 1"
      "\<forall>(n, v) \<in> set vals. v < length (pre @ fs) \<and>
        (no_field_enum n \<longleftrightarrow> bitlen ((pre @ fs) ! v) = 0)"
    by auto
  have "vals = [] \<Longrightarrow> fs = []" using "5.prems"(1) vals(2) by auto
  moreover have "(pre @ fs) ! (length pre - 1) = f" "Suc (length pre - 1) = length pre"
      "length pre - 1 < length pre + length fs"
    using acc by (auto simp: nth_append last_conv_nth intro: trans_less_add1)
  ultimately show ?case using "5.prems"(1) vals acc
    by (intro exI [of _ "(n, length pre - 1) # vals"]) auto
qed auto

lemma in_step0: "in_step None MAD_FIELDS0 ib_mad_f0"
  by code_simp

lemma in_step1: "in_step None MAD_FIELDS1 ib_mad_f1"
  by code_simp

lemma in_step2: "in_step None MAD_FIELDS2 ib_mad_f2"
  by code_simp

lemma in_step3: "in_step None MAD_FIELDS3 ib_mad_f3"
  by code_simp

lemma in_step4: "in_step None MAD_FIELDS4 ib_mad_f4"
  by code_simp

lemma in_step5: "in_step None MAD_FIELDS5 ib_mad_f5"
  by code_simp

lemma in_step6: "in_step None MAD_FIELDS6 ib_mad_f6"
  by code_simp

lemma in_step7: "in_step None MAD_FIELDS7 ib_mad_f7"
  by code_simp

lemma in_step8: "in_step None MAD_FIELDS8 ib_mad_f8"
  by code_simp

lemma in_step9: "in_step None MAD_FIELDS9 ib_mad_f9"
  by code_simp

lemma in_step_table: "in_step None MAD_FIELDS ib_mad_f"
  unfolding MAD_FIELDS_def ib_mad_f_def
  by (intro in_step_append in_step0 in_step1 in_step2 in_step3 in_step4 in_step5 in_step6 in_step7 in_step8 in_step9)

lemma entries_ok0: "list_all entry_ok ib_mad_f0"
  by code_simp

lemma entries_ok1: "list_all entry_ok ib_mad_f1"
  by code_simp

lemma entries_ok2: "list_all entry_ok ib_mad_f2"
  by code_simp

lemma entries_ok3: "list_all entry_ok ib_mad_f3"
  by code_simp

lemma entries_ok4: "list_all entry_ok ib_mad_f4"
  by code_simp

lemma entries_ok5: "list_all entry_ok ib_mad_f5"
  by code_simp

lemma entries_ok6: "list_all entry_ok ib_mad_f6"
  by code_simp

lemma entries_ok7: "list_all entry_ok ib_mad_f7"
  by code_simp

lemma entries_ok8: "list_all entry_ok ib_mad_f8"
  by code_simp

lemma entries_ok9: "list_all entry_ok ib_mad_f9"
  by code_simp

lemma entries_ok: "list_all entry_ok ib_mad_f"
  unfolding ib_mad_f_def by (simp add: entries_ok0 entries_ok1 entries_ok2 entries_ok3 entries_ok4 entries_ok5 entries_ok6 entries_ok7 entries_ok8 entries_ok9)

lemma table_length: "length ib_mad_f = 671"
  by (simp add: ib_mad_f_def ib_mad_f0_def ib_mad_f1_def ib_mad_f2_def ib_mad_f3_def ib_mad_f4_def
      ib_mad_f5_def ib_mad_f6_def ib_mad_f7_def ib_mad_f8_def ib_mad_f9_def)

lemma table_field_ok:
  assumes "field < length ib_mad_f" "0 < bitlen (ib_mad_f ! field)" "bitlen (ib_mad_f ! field) \<le> 32"
  shows "field_ok (ib_mad_f ! field)"
proof -
  have "entry_ok (ib_mad_f ! field)" using entries_ok assms(1) by (simp add: list_all_length)
  then show ?thesis using assms(2,3) by (simp add: entry_ok_def)
qed

section \<open>Setting and getting fields\<close>

definition field_hi :: "int \<Rightarrow> ib_field \<Rightarrow> nat" where
  "field_hi base_offs f = field_lo base_offs f + nat (bitlen f)"

lemma fits_length: "length buf' = length buf \<Longrightarrow> fits buf' base f \<longleftrightarrow> fits buf base f"
  by (simp add: fits_def)

lemma fits_hi: "fits buf base f \<Longrightarrow> field_ok f \<Longrightarrow> field_hi base f \<le> 8 * length buf"
  by (clarsimp simp: fits_def field_hi_def field_lo_def field_ok_def) linarith

lemma get_after_set:
  assumes w: "writes (field_lo base f) (field_hi base f) val buf buf'"
    and f: "field_ok f" "fits buf base f" and val: "\<And>j. bit val j \<Longrightarrow> j < nat (bitlen f)"
  shows "get_field buf' base f = Some val"
proof -
  have len: "length buf' = length buf" using w by (simp add: writes_def)
  obtain v where v: "get_field buf' base f = Some v"
    "holds buf' (field_lo base f) (field_lo base f + nat (bitlen f)) v"
    using get_field_holds [OF f(1), of buf' base] f(2) fits_length [OF len] by blast
  have "holds buf' (field_lo base f) (field_lo base f + nat (bitlen f)) val"
    unfolding holds_def
  proof (intro allI impI)
    fix j assume "j < (32::nat)"
    have "j < nat (bitlen f) \<Longrightarrow> fbit buf' (field_lo base f + j) = bit val j"
      using w fits_hi [OF f(2,1)] by (simp add: writes_def field_hi_def)
    then show "bit val j \<longleftrightarrow> field_lo base f + j < field_lo base f + nat (bitlen f) \<and>
        fbit buf' (field_lo base f + j)"
      using val [of j] by auto
  qed
  then show ?thesis using v holds_unique by blast
qed

lemma get_beside_set:
  assumes w: "writes lo hi val buf buf'" and f: "field_ok f" "fits buf base f"
    and disj: "field_hi base f \<le> lo \<or> hi \<le> field_lo base f"
  shows "get_field buf' base f = get_field buf base f"
proof -
  have len: "length buf' = length buf" using w by (simp add: writes_def)
  obtain v where v: "get_field buf' base f = Some v"
    "holds buf' (field_lo base f) (field_hi base f) v"
    using get_field_holds [OF f(1), of buf' base] f(2) fits_length [OF len]
    unfolding field_hi_def by blast
  obtain u where u: "get_field buf base f = Some u" "holds buf (field_lo base f) (field_hi base f) u"
    using get_field_holds [OF f] unfolding field_hi_def by blast
  have "fbit buf' k = fbit buf k" if "field_lo base f \<le> k" "k < field_hi base f" for k
  proof -
    have "k < 8 * length buf" using that(2) fits_hi [OF f(2,1)] by linarith
    then show ?thesis using w disj that by (auto simp: writes_def)
  qed
  then have "holds buf (field_lo base f) (field_hi base f) v"
    using v(2) by (auto simp: holds_def)
  then show ?thesis using u v holds_unique by metis
qed

lemma bits_lt:
  assumes "unat (val :: u32) < 2 ^ n" "bit val j"
  shows "j < n"
proof (rule ccontr)
  assume "\<not> j < n"
  then have "unat val < 2 ^ j" using assms(1) by (meson less_le_trans not_less one_le_numeral power_increasing)
  then have "\<not> bit (unat val) j" by (simp add: bit_iff_odd)
  then show False using assms(2) by (simp add: bit_unsigned_iff)
qed

lemma mad_set_field_writes:
  assumes "field < length ib_mad_f" "0 < bitlen (ib_mad_f ! field)" "bitlen (ib_mad_f ! field) \<le> 32"
    "fits buf base (ib_mad_f ! field)" "unat val < 2 ^ nat (bitlen (ib_mad_f ! field))"
  obtains buf' where "mad_set_field buf base field val = Some buf'"
    "writes (field_lo base (ib_mad_f ! field)) (field_hi base (ib_mad_f ! field)) val buf buf'"
    "mad_get_field buf' base field = Some val"
proof -
  let ?f = "ib_mad_f ! field"
  have ok: "field_ok ?f" by (rule table_field_ok [OF assms(1-3)])
  note val = bits_lt [OF assms(5)]
  obtain buf' where buf': "set_field buf base ?f val = Some buf'"
    "writes (field_lo base ?f) (field_hi base ?f) val buf buf'"
    using set_field_writes [OF ok assms(4) val] unfolding field_hi_def by blast
  have "get_field buf' base ?f = Some val" by (rule get_after_set [OF buf'(2) ok assms(4) val])
  then show thesis using that [of buf'] buf' assms(1)
    by (simp add: mad_set_field_def mad_get_field_def c_access)
qed

lemma mad_get_beside:
  assumes "writes lo hi val buf buf'" "field < length ib_mad_f" "0 < bitlen (ib_mad_f ! field)"
    "bitlen (ib_mad_f ! field) \<le> 32" "fits buf base (ib_mad_f ! field)"
    "field_hi base (ib_mad_f ! field) \<le> lo \<or> hi \<le> field_lo base (ib_mad_f ! field)"
  shows "mad_get_field buf' base field = mad_get_field buf base field"
  using get_beside_set [OF assms(1) table_field_ok [OF assms(2-4)] assms(5,6)] assms(2)
  by (simp add: mad_get_field_def c_access)

section \<open>Byte order\<close>

lemma be_bytes_length [simp]: "length (be_bytes v) = 8"
  by (simp add: be_bytes_def)

lemma le_bytes_length [simp]: "length (le_bytes n v) = n"
  by (simp add: le_bytes_def)

lemma bit_le_value:
  "bit (le_value bs :: 'a::len word) j \<longleftrightarrow>
     j < LENGTH('a) \<and> j < 8 * length bs \<and> bit (bs ! (j div 8)) (j mod 8)"
proof (induction bs arbitrary: j)
  case Nil
  then show ?case by (simp add: le_value_def)
next
  case (Cons b bs)
  have step: "(le_value (b # bs) :: 'a word) = push_bit 8 (le_value bs) OR ucast b"
    by (simp add: le_value_def)
  show ?case
  proof (cases "j < 8")
    case True
    then show ?thesis by (auto simp: step bit_word dest: bit_imp_le_length)
  next
    case False
    then obtain i where j: "j = i + 8" by (metis le_add_diff_inverse2 not_less)
    have "\<not> bit b j" using False bit_imp_le_length [of b j] by auto
    moreover have "(i + 8) div 8 = Suc (i div 8)" by simp
    ultimately show ?thesis using Cons [of i] by (auto simp: step bit_word j simp del: div_add_self2)
  qed
qed

lemma bit_le_bytes: "i < n \<Longrightarrow> bit (le_bytes n v ! i) j \<longleftrightarrow> j < 8 \<and> bit v (8 * i + j)"
  by (simp add: le_bytes_def bit_word)

lemma le_value_bytes: "LENGTH('a) = 8 * n \<Longrightarrow> le_value (le_bytes n (v :: 'a::len word)) = v"
  by (rule bit_word_eqI) (simp add: bit_le_value bit_le_bytes less_mult_imp_div_less mult.commute)

lemma le_bytes_value:
  assumes "LENGTH('a) = 8 * length bs"
  shows "le_bytes (length bs) (le_value bs :: 'a::len word) = bs"
proof (rule nth_equalityI)
  fix i assume i: "i < length (le_bytes (length bs) (le_value bs :: 'a word))"
  show "le_bytes (length bs) (le_value bs :: 'a word) ! i = bs ! i"
  proof (rule bit_word_eqI)
    fix j assume "j < LENGTH(8)"
    then show "bit (le_bytes (length bs) (le_value bs :: 'a word) ! i) j = bit (bs ! i) j"
      using i assms by (simp add: bit_le_bytes bit_le_value)
  qed
qed simp

lemma be_bytes_rev: "be_bytes v = rev (le_bytes 8 v)"
proof -
  have "[0..<8] = [0, 1, 2, 3, 4, 5, 6, 7::nat]" by code_simp
  then show ?thesis by (simp add: be_bytes_def le_bytes_def)
qed

lemma be_value_bytes: "be_value (be_bytes v) = v"
proof -
  have "be_value (be_bytes v) = le_value (rev (be_bytes v))"
    by (simp add: be_value_def le_value_def foldr_conv_fold)
  then show ?thesis by (simp add: be_bytes_rev le_value_bytes)
qed

lemma buf_write_read:
  "buf_write buf off bs = Some buf' \<Longrightarrow> buf_read buf' off (length bs) = Some bs \<and> length buf' = length buf"
  by (auto simp: buf_write_def buf_read_def split: if_splits)

lemma buf_write_Some:
  "0 \<le> off \<Longrightarrow> nat off + length bs \<le> length buf \<Longrightarrow> \<exists>buf'. buf_write buf off bs = Some buf'"
  by (simp add: buf_write_def)

lemma buf_write_start: "length bs \<le> length buf \<Longrightarrow> buf_write buf 0 bs = Some (bs @ drop (length bs) buf)"
  by (simp add: buf_write_def)

lemma buf_read_start: "n \<le> length buf \<Longrightarrow> buf_read buf 0 n = Some (take n buf)"
  by (simp add: buf_read_def)

section \<open>Encoding and decoding\<close>

text \<open>The bytes of the caller's memory that hold the value of a field.\<close>

definition value_bytes :: "ib_field \<Rightarrow> nat" where
  "value_bytes f = (if bitlen f \<le> 32 then 4 else nat (bitlen f div 8))"

lemma encode_small:
  assumes "field < length ib_mad_f" "0 < field" "0 < bitlen (ib_mad_f ! field)"
    "bitlen (ib_mad_f ! field) \<le> 32" "fits buf 0 (ib_mad_f ! field)" "4 \<le> length val" "4 \<le> length out"
    "unat (le_value (take 4 val) :: u32) < 2 ^ nat (bitlen (ib_mad_f ! field))"
  shows "\<exists>buf'. mad_encode_field buf field val = Some buf' \<and>
    mad_decode_field buf' field out = Some (take 4 val @ drop 4 out)"
proof -
  obtain buf' where "mad_set_field buf 0 field (le_value (take 4 val)) = Some buf'"
    "mad_get_field buf' 0 field = Some (le_value (take 4 val))"
    using mad_set_field_writes [OF assms(1,3,4,5,8)] by metis
  moreover have "le_bytes 4 (le_value (take 4 val) :: u32) = take 4 val"
    using le_bytes_value [where bs = "take 4 val" and ?'a = 32] assms(6) by simp
  ultimately show ?thesis using assms
    by (simp add: mad_encode_field_def mad_decode_field_def mad_set_field_def mad_get_field_def
        c_access buf_read_start buf_write_start)
qed

lemma encode_large:
  assumes "field < length ib_mad_f" "0 < field" "32 < bitlen (ib_mad_f ! field)"
    "fits buf 0 (ib_mad_f ! field)" "nat (bitlen (ib_mad_f ! field) div 8) \<le> length val"
    "nat (bitlen (ib_mad_f ! field) div 8) \<le> length out"
  defines "n \<equiv> nat (bitlen (ib_mad_f ! field) div 8)"
  shows "\<exists>buf'. mad_encode_field buf field val = Some buf' \<and>
    mad_decode_field buf' field out = Some (take n val @ drop n out)"
proof -
  let ?f = "ib_mad_f ! field" and ?off = "bitoffs (ib_mad_f ! field) div 8"
  have n: "n \<le> length val" "n \<le> length out" using assms(5,6) by (simp_all add: n_def)
  have "entry_ok ?f" using entries_ok assms(1) by (simp add: list_all_length)
  then have ok: "0 \<le> bitoffs ?f" "bitoffs ?f mod 8 = 0" "bitlen ?f mod 8 = 0"
    using assms(3) by (auto simp: entry_ok_def field_ok_def)
  have "0 \<le> ?off" using ok(1) by simp
  moreover have "8 * ?off = bitoffs ?f" "8 * (bitlen ?f div 8) = bitlen ?f" using ok(2,3) by auto
  moreover have "bitoffs ?f + bitlen ?f \<le> 8 * int (length buf)" using assms(4) by (simp add: fits_def)
  ultimately have range: "0 \<le> ?off" "nat ?off + n \<le> length buf"
    using assms(3) by (auto simp: n_def)
  show ?thesis
  proof (cases "bitlen ?f = 64")
    case True
    then have n8: "n = 8" by (simp add: n_def)
    let ?v = "le_value (take 8 val) :: u64"
    have v: "le_bytes 8 ?v = take 8 val"
      using le_bytes_value [where bs = "take 8 val" and ?'a = 64] n n8 by simp
    obtain buf' where buf': "buf_write buf ?off (be_bytes ?v) = Some buf'"
      using buf_write_Some [of ?off "be_bytes ?v" buf] range n8 by auto
    have "buf_read buf' ?off 8 = Some (be_bytes ?v)" using buf_write_read [OF buf'] by simp
    then show ?thesis using buf' n n8 True assms(1,2) v
      by (simp add: mad_encode_field_def mad_decode_field_def c_access buf_read_start buf_write_start
          set_field64_def get_field64_def be_value_bytes)
  next
    case False
    obtain buf' where buf': "buf_write buf ?off (take n val) = Some buf'"
      using buf_write_Some [of ?off "take n val" buf] range n by auto
    have "buf_read buf' ?off n = Some (take n val)" using buf_write_read [OF buf'] n by simp
    then show ?thesis using buf' n False assms(1,2,3)
      by (simp add: mad_encode_field_def mad_decode_field_def c_access buf_read_start buf_write_start
          set_array_def get_array_def array_offs_def n_def [symmetric])
  qed
qed

lemma drsmp_entries:
  "arr_get ib_mad_f 11 = Some (BE_OFFS 48 15 ''DrSmpStatus'' mad_dump_hex)"
  "arr_get ib_mad_f 12 = Some (BE_OFFS 63 1 ''DrSmpDirection'' mad_dump_uint)"
  by (simp_all add: arr_get_def table_length) (simp_all add: ib_mad_f_def ib_mad_f0_def nth_append)

lemma drsmp_nth:
  "ib_mad_f ! 11 = BE_OFFS 48 15 ''DrSmpStatus'' mad_dump_hex"
  "ib_mad_f ! 12 = BE_OFFS 63 1 ''DrSmpDirection'' mad_dump_uint"
  using drsmp_entries by (simp_all add: arr_get_eq_Some_iff)

lemma top_bit:
  assumes "bit (b :: u8) 7"
  shows "drop_bit 7 (ucast b :: u32) = 1"
proof (rule bit_word_eqI)
  fix n
  have "\<not> bit b (7 + n)" if "n \<noteq> 0" using that bit_imp_le_length [of b "7 + n"] by auto
  then show "bit (drop_bit 7 (ucast b) :: u32) n = bit 1 n" if "n < LENGTH(32)"
    using assms that by (cases "n = 0") (simp_all add: bit_word bit_1_iff)
qed

lemmas field_pieces = prebits_def postbits_def bytelen_def field_idx_def in_one_byte_def

section \<open>Properties\<close>



text \<open>
  Property C10. Setting a field of at most 32 bits to a value that fits succeeds, the value
  reads back, the datagram keeps its length, and every field of the table that lies beside
  it, at any base offset, keeps its value.
\<close>

theorem mad_field_roundtrip:
  assumes "field < length ib_mad_f" "0 < bitlen (ib_mad_f ! field)" "bitlen (ib_mad_f ! field) \<le> 32"
    "fits buf base (ib_mad_f ! field)" "unat val < 2 ^ nat (bitlen (ib_mad_f ! field))"
  shows "\<exists>buf'. mad_set_field buf base field val = Some buf' \<and> length buf' = length buf \<and>
    mad_get_field buf' base field = Some val \<and>
    (\<forall>field' base'. field' < length ib_mad_f \<and> 0 < bitlen (ib_mad_f ! field') \<and>
       bitlen (ib_mad_f ! field') \<le> 32 \<and> fits buf base' (ib_mad_f ! field') \<and>
       (field_hi base' (ib_mad_f ! field') \<le> field_lo base (ib_mad_f ! field) \<or>
        field_hi base (ib_mad_f ! field) \<le> field_lo base' (ib_mad_f ! field')) \<longrightarrow>
       mad_get_field buf' base' field' = mad_get_field buf base' field')"
proof -
  obtain buf' where set: "mad_set_field buf base field val = Some buf'"
    and w: "writes (field_lo base (ib_mad_f ! field)) (field_hi base (ib_mad_f ! field)) val buf buf'"
    and get: "mad_get_field buf' base field = Some val"
    by (rule mad_set_field_writes [OF assms])
  have "length buf' = length buf" using w by (simp add: writes_def)
  then show ?thesis using set get mad_get_beside [OF w] by blast
qed

theorem mad_field_roundtrip_witness:
  "\<exists>buf'. mad_set_field (replicate 64 0xff) 0 11 5 = Some buf' \<and> length buf' = 64 \<and>
     mad_get_field buf' 0 11 = Some 5 \<and>
     mad_get_field buf' 0 12 = mad_get_field (replicate 64 0xff) 0 12"
  using mad_field_roundtrip [where field = 11 and buf = "replicate 64 0xff" and base = 0 and val = 5]
  by (elim meta_impE exE conjE)
    (simp_all add: table_length drsmp_nth BE_OFFS_def fits_def field_lo_def field_hi_def)



text \<open>
  Property C39. The value is not masked in the last byte of a field: setting the 15-bit status of
  a directed-route datagram (\<open>IB_DRSMP_STATUS_F\<close>, 11) to a value whose bit 15 is set also sets
  the direction bit beside it (\<open>IB_DRSMP_DIRECTION_F\<close>, 12), whatever it was.
\<close>

theorem mad_set_field_leaks:
  assumes "4 dvd length buf" "8 \<le> length buf" "bit val 15"
  shows "\<exists>buf'. mad_set_field buf 0 11 val = Some buf' \<and> mad_get_field buf' 0 12 = Some 1"
proof -
  let ?b4 = "(buf ! 4 AND NOT (push_bit 7 1 - 1)) OR ucast (drop_bit 8 val)"
  let ?buf = "buf[5 := ucast (val AND 0xff), 4 := ?b4]"
  have set: "mad_set_field buf 0 11 val = Some ?buf"
    using assms(2) by (simp add: mad_set_field_def drsmp_entries set_field_def c_access field_pieces
        numeral_eq_Suc [of num.One] BE_OFFS_def)
  have "bit ?b4 7" using assms(3) by (simp add: bit_word)
  then have "drop_bit 7 (ucast ?b4 :: u32) = 1" by (rule top_bit)
  then have "mad_get_field ?buf 0 12 = Some 1"
    using assms(2) by (simp add: mad_get_field_def drsmp_entries get_field_def c_access field_pieces
        BE_OFFS_def)
  then show ?thesis using set by blast
qed

theorem mad_set_field_leaks_witness:
  "\<exists>buf'. mad_set_field (replicate 64 0) 0 11 0x8001 = Some buf' \<and> mad_get_field buf' 0 12 = Some 1"
  by (rule mad_set_field_leaks) simp_all

end
