(* ===== verification/Spec2Isabelle.thy ===== *)
theory Spec2Isabelle
  imports Bitmap Interval_Set Dr_Buddy Dr_Crc32 Agent_Server Fusa_Consensus Rpc_Server Mad_Codec
begin

text \<open>
  A verification library for Fusa, an extension of the RDMA user-space stack \<open>rdma-core\<close> that
  splits the atomic operations of an application between the network card (RNIC) and a CPU of
  the memory server, and for the parts of the stack below it that are algorithms on memory.

  \<^bold>\<open>The program.\<close> Under \<open>src/providers/mlx5\<close> the mlx5 driver is hooked in two places. When a queue
  pair is created (\<open>verbs.c\<close>, \<open>mlx5_create_qp\<close>), it gets a record in a shared memory region
  (\<open>recorder.h\<close>). When an atomic operation is posted (\<open>qp.c\<close>, \<open>mlx5_post_send\<close>), the hook marks
  the queue pair as running, counts its epoch, and looks up the credit of the address: without
  credit the operation goes to the card and is counted, with credit it is turned into an RPC, a
  64-byte message that is written to the memory server, whose threads
  (\<open>fusioncas/test/server.cpp\<close>) execute or reject it and send the result back. A client agent on every machine
  (\<open>fusioncas/agent/agent.cpp\<close>) collects the counters and writes them to the server agent; the
  server agent adds them up, computes a new table of credits, and writes it back; the client agent
  copies the table to the shared memory, waits until every queue pair uses it (\<open>wait_sync\<close>) and
  reports that to the server agent. The stack below has the allocators and the checksum the
  driver's steering code uses and the library that encodes management datagrams.

  \<^bold>\<open>The theories.\<close>
  \<^item> \<open>Fusa_Prelude\<close>: the machine types, array accesses that may fail, counting loops with their
    invariant rule, words as natural numbers.
  \<^item> \<open>Bitmap\<close> (\<open>util/bitmap.h\<close>, \<open>util/bitmap.c\<close>): an array of 64-bit words as a set of bits. The
    locale \<open>bit_store\<close> is the interface its users rely on.
  \<^item> \<open>Align\<close>, \<open>Interval_Set\<close> (\<open>util/util.h\<close>, \<open>util/interval_set.c\<close>): the list of free address ranges
    with insertion, merging and aligned allocation.
  \<^item> \<open>Dr_Buddy\<close> (\<open>providers/mlx5/dr_buddy.c\<close>): the buddy allocator on bitmaps with summary bitmaps,
    refined to sets of free blocks.
  \<^item> \<open>Dr_Crc32\<close> (\<open>providers/mlx5/dr_crc32.c\<close>): the slicing-by-8 checksum.
  \<^item> \<open>Recorder\<close> (\<open>recorder.h\<close>, \<open>recorder.c\<close>): the shared memory, the record table with linear
    probing, the hashed counting filter and the local lock table.
  \<^item> \<open>Fusa_Driver\<close> (\<open>verbs.c\<close>, \<open>qp.c\<close>): the two hooks. \<open>driver_state\<close> holds the shared memory, the
    messages and the calls made; the call that hands a request to the card is a parameter.
  \<^item> \<open>Agent_Client\<close>, \<open>Agent_Scan\<close>, \<open>Agent_Strategy\<close>, \<open>Agent_Server\<close> (\<open>agent.cpp\<close>, \<open>agent.h\<close>,
    \<open>rpc_common.h\<close>): the memory layouts, \<open>collect\<close>, the copy of the strategies, requests and
    polling; the scan of the machines' messages; the strategies, with the arithmetic of doubles
    written out on natural numbers; a round of \<open>server_func\<close>. The locale \<open>task_loop\<close> holds what the
    two loops that move tasks to the CPU share.
  \<^item> \<open>Fusa_Consensus\<close>: the client agent and the driver together, as a step relation on the shared
    memory in which every interleaving of \<open>wait_sync\<close> and \<open>mlx5_post_send\<close> is a run.
  \<^item> \<open>Rpc_Server\<close> (\<open>fusioncas/test/server.cpp\<close>): the memory server that executes the messages, a round
    of \<open>rpc_func_impl\<close>, and its composition with the driver.
  \<^item> \<open>Mad_Table\<close>, \<open>Mad_Fields\<close>, \<open>Mad_Codec\<close> (\<open>libibmad/fields.c\<close>, \<open>libibmad/mad.h\<close>): the table of field
    descriptors with its enumeration, transcribed entry by entry, the functions that read and
    write a field, and their correctness.

  \<^bold>\<open>State, errors and loops.\<close> A C struct is a record, an array a list, a machine integer a word of
  its width. A function that may access memory out of bounds, divide by zero, fail an assertion or
  not return gives an \<open>option\<close>, and \<open>None\<close> is that execution; a theorem that the result is \<open>Some\<close>
  is a proof that it does not happen. Error codes are values of \<open>errno\<close>. A loop with a bound is
  \<open>for_loop\<close> or a function with a termination proof; a loop whose end depends on other actors
  or on the data is a \<open>partial_function\<close> (\<open>merge_loop\<close>, \<open>find_free_loop\<close>, \<open>poll_loop\<close>) or runs on
  the list of what the others do (\<open>scan_loop\<close>). No definition uses fuel.

  \<^bold>\<open>What is shown.\<close>
  \<^item> Hooks: an operation with credit becomes exactly one receive and one write of a message with
    the operation's contents, to a place in the server's region that no other queue pair of any
    machine uses; one without credit goes to the card unchanged; each is counted once; the shared
    memory stays well-formed.
  \<^item> Messages: a compare-and-swap sent as a message is performed by the memory server exactly when
    the credits allow it and its result goes back to the sender, provided that the share of a
    queue pair is a multiple of the slot size; a round of a server thread leaves nothing pending.
    Under interference the reply can report a swap that did not happen, and a
    fetch-and-add is never performed.
  \<^item> Agents: a collection loses no count; the totals of a scan do not depend on the order in which
    the machines publish; every strategy ends with credits 0 or 1, and the one for skewed loads
    moves hot entries only, largest first, within the capacity; every machine is answered.
  \<^item> Hand-over: when \<open>wait_sync\<close> ends, no queue pair works with a credit of the old table, under
    every interleaving; it ends while nothing is running, and never ends while a queue pair whose
    last operation went to the card posts nothing.
  \<^item> Allocators: the free blocks of the buddy allocator and the blocks handed out partition the
    memory after any sequence of operations; the interval set stays sorted, disjoint and maximal
    outside of two cases of wrap-around, which are shown to lose or invent addresses.
  \<^item> Bitmaps, checksum and datagrams: the word-wise operations are the operations on sets of bits;
    the table-driven checksum is the bitwise one; a field that is set reads back and leaves its
    neighbours alone when the value fits, and does not when it does not.

  \<^bold>\<open>Assumptions.\<close> The host is little-endian and memory is sequentially consistent. Answers of code that
  is not modelled are parameters: what the allocator answers, what the card answers to a request,
  the completions of a poll, what other actors do to the memory between two accesses of the memory
  server, the messages the machines publish and the times at which they do, the
  element a priority queue returns among equals. The configuration is that of the headers:
  \<open>__FUSIONCAS\<close> and the RPC path on; \<open>__STATIC_STRAG\<close>, \<open>__SEQUENCER\<close>, \<open>__LOCAL_LOCK_TABLE\<close>,
  \<open>__FULL_ONLOAD\<close> off.

  \<^bold>\<open>Not modelled.\<close> The hardware descriptors the mlx5 driver and the other providers build
  (\<open>_mlx5_post_send\<close>, completion queues, doorbells): their meaning is given by the devices. The
  command interface to the kernel (\<open>libibverbs/cmd_*.c\<close>, \<open>libibumad\<close>) and the connection manager
  (\<open>librdmacm\<close>), which are system calls. The daemons and tools (\<open>ibacm\<close>, \<open>iwpmd\<close>, \<open>srp_daemon\<close>,
  \<open>rdma-ndd\<close>, \<open>infiniband-diags\<close>, \<open>libibnetdisc\<close>), the Python bindings and the tests other than the memory server. Of
  \<open>libibmad\<close>, the RPC over a port and the printing of fields. Of \<open>fusioncas\<close>, the coroutine runtime
  (\<open>smart\<close>), the hash table (\<open>smart_ht\<close>), the benchmarks and the variant of the agent for the
  breakdown experiments; of the agents, the system calls that map the shared memory, connect and
  start threads, and what is printed.
\<close>

end
